(* ===== verification/Prelude.thy ===== *)
theory Prelude imports Main "HOL-Library.Word" begin

text \<open>
  Shared vocabulary of the development: the Go types that every component uses (durations, times,
  slices, atomic counters), loops that return early with an error, and the generic lemmas on
  lists and sums that the component theories rest on.
\<close>

section \<open>Go's basic types\<close>

text \<open>
  A \<^verbatim>\<open>time.Duration\<close> is its number of nanoseconds. A \<^verbatim>\<open>time.Time\<close> is the number of
  nanoseconds since the zero \<^verbatim>\<open>time.Time\<close>, so that \<^verbatim>\<open>t.IsZero()\<close> is \<open>t = 0\<close>. The clock is
  an argument of every operation that reads it. A slice is \<open>None\<close> when it is nil: only
  \<^verbatim>\<open>reflect.DeepEqual\<close> and the JSON encoding can tell a nil slice from an empty one, and the
  program uses both.
\<close>

type_synonym duration = int
type_synonym time = int
type_synonym 'a slice = "'a list option"
type_synonym u64 = "64 word"

definition second :: duration where
  "second = 1000000000"

definition minute :: duration where
  "minute = 60 * second"

definition elems :: "'a slice \<Rightarrow> 'a list" where
  "elems s = (case s of None \<Rightarrow> [] | Some xs \<Rightarrow> xs)"

text \<open>\<^verbatim>\<open>append([]T(nil), xs...)\<close>: a fresh slice with the same elements, nil when there are none.\<close>

definition copy_slice :: "'a slice \<Rightarrow> 'a slice" where
  "copy_slice s = (case elems s of [] \<Rightarrow> None | xs \<Rightarrow> Some xs)"

text \<open>The value of a Go \<^verbatim>\<open>int64\<close> expression: two's complement wrap-around at 64 bits.\<close>

definition i64 :: "int \<Rightarrow> int" where
  "i64 x = (x + 2 ^ 63) mod 2 ^ 64 - 2 ^ 63"

section \<open>Rule collections\<close>

named_theorems go_eval "equations that evaluate the Go library functions on closed terms"
named_theorems inv_intros "introduction rules of the components' invariants"
named_theorems frame_rules "what an operation leaves unchanged"

section \<open>Slices and integers\<close>

lemma elems_simps [simp]: "elems None = []" "elems (Some xs) = xs"
  by (simp_all add: elems_def)

lemma elems_copy_slice [simp]: "elems (copy_slice s) = elems s"
  by (simp add: copy_slice_def split: list.split)

lemma copy_slice_idem [simp]: "copy_slice (copy_slice s) = copy_slice s"
  by (simp add: copy_slice_def split: list.split)

lemma copy_slice_None [simp]: "copy_slice None = None"
  by (simp add: copy_slice_def)

lemma copy_slice_eq_None [simp]: "copy_slice s = None \<longleftrightarrow> elems s = []"
  by (simp add: copy_slice_def split: list.split)

lemma i64_id [simp]: "- (2 ^ 63) \<le> x \<Longrightarrow> x < 2 ^ 63 \<Longrightarrow> i64 x = x"
  by (simp add: i64_def)

lemma i64_bounds: "- (2 ^ 63) \<le> i64 x \<and> i64 x < 2 ^ 63"
proof -
  have "0 \<le> (x + 2 ^ 63) mod 2 ^ 64" and "(x + 2 ^ 63) mod 2 ^ 64 < (2::int) ^ 64"
    by (rule pos_mod_sign, simp) (rule pos_mod_bound, simp)
  then show ?thesis by (simp add: i64_def)
qed

lemma i64_add [simp]: "i64 (i64 x + y) = i64 (x + y)" "i64 (i64 x - y) = i64 (x - y)"
proof -
  have "(2 ^ 63 + (x + 2 ^ 63) mod 2 ^ 64 - 2 ^ 63 + y) mod 2 ^ 64 = (2 ^ 63 + x + y) mod (2 :: int) ^ 64"
    for y by (simp add: algebra_simps mod_simps)
  from this [of y] this [of "- y"] show "i64 (i64 x + y) = i64 (x + y)" "i64 (i64 x - y) = i64 (x - y)"
    by (simp_all add: i64_def algebra_simps)
qed

lemma i64_add' [simp]: "i64 (y + i64 x) = i64 (y + x)"
  using i64_add(1) [of x y] by (simp add: add.commute)

lemma i64_Suc_neq [simp]: "i64 (x + 1) \<noteq> i64 x"
proof
  assume "i64 (x + 1) = i64 x"
  then have "(2 ^ 63 + x + 1) mod 2 ^ 64 = (2 ^ 63 + x) mod (2 :: int) ^ 64"
    by (simp add: i64_def algebra_simps)
  then have "(2 :: int) ^ 64 dvd 1"
    by (simp only: mod_eq_dvd_iff) simp
  then show False by simp
qed

section \<open>Results and loops with an early return\<close>

definition is_ok :: "'e + 'a \<Rightarrow> bool" where
  "is_ok r = (case r of Inl _ \<Rightarrow> False | Inr _ \<Rightarrow> True)"

definition and_then :: "'e + 'a \<Rightarrow> ('a \<Rightarrow> 'e + 'b) \<Rightarrow> 'e + 'b" where
  "and_then r f = (case r of Inl e \<Rightarrow> Inl e | Inr x \<Rightarrow> f x)"

text \<open>\<^verbatim>\<open>for _, x := range xs { ... return err ... }\<close> over the variables \<open>s\<close> the body updates.\<close>

fun for_range :: "('s \<Rightarrow> 'a \<Rightarrow> 'e + 's) \<Rightarrow> 's \<Rightarrow> 'a list \<Rightarrow> 'e + 's" where
  "for_range f s [] = Inr s"
| "for_range f s (x # xs) = (case f s x of Inl e \<Rightarrow> Inl e | Inr s' \<Rightarrow> for_range f s' xs)"

lemma is_ok_simps [simp]: "is_ok (Inl e) = False" "is_ok (Inr x) = True"
  by (simp_all add: is_ok_def)

lemma and_then_simps [simp]: "and_then (Inl e) f = Inl e" "and_then (Inr x) f = f x"
  by (simp_all add: and_then_def)

lemma and_then_eq_Inr: "and_then r f = Inr y \<longleftrightarrow> (\<exists>x. r = Inr x \<and> f x = Inr y)"
  by (cases r) auto

lemma unit_result: "(r :: 'e + unit) = Inr () \<longleftrightarrow> is_ok r"
  by (cases r) auto

lemma is_ok_ex: "is_ok r \<longleftrightarrow> (\<exists>x. r = Inr x)"
  by (cases r) auto

lemma is_ok_and_then [simp]: "is_ok (and_then r (\<lambda>_. s)) \<longleftrightarrow> is_ok r \<and> is_ok s"
  by (cases r) auto

lemma for_range_append:
  "for_range f s (xs @ ys) = and_then (for_range f s xs) (\<lambda>s'. for_range f s' ys)"
  by (induction xs arbitrary: s) (auto split: sum.split)

lemma for_range_invariant:
  assumes "for_range f s xs = Inr s'" and "I s"
    and "\<And>s x s'. x \<in> set xs \<Longrightarrow> I s \<Longrightarrow> f s x = Inr s' \<Longrightarrow> I s'"
  shows "I s'"
  using assms
proof (induction xs arbitrary: s)
  case Nil
  then show ?case by simp
next
  case (Cons x xs)
  from Cons.prems(1) obtain s1 where s1: "f s x = Inr s1" "for_range f s1 xs = Inr s'"
    by (auto split: sum.splits)
  have "I s1" by (rule Cons.prems(3) [OF _ Cons.prems(2) s1(1)]) simp
  with s1(2) show ?case
    by (rule Cons.IH) (rule Cons.prems(3), auto)
qed

lemma for_range_error:
  assumes "for_range f s xs = Inl e"
  shows "\<exists>ys x zs s'. xs = ys @ x # zs \<and> for_range f s ys = Inr s' \<and> f s' x = Inl e"
  using assms
proof (induction xs arbitrary: s)
  case Nil
  then show ?case by simp
next
  case (Cons x xs)
  show ?case
  proof (cases "f s x")
    case (Inl e')
    with Cons.prems have "e' = e" by simp
    with Inl have "x # xs = [] @ x # xs \<and> for_range f s [] = Inr s \<and> f s x = Inl e" by simp
    then show ?thesis by blast
  next
    case (Inr s1)
    with Cons obtain ys y zs s' where "xs = ys @ y # zs" "for_range f s1 ys = Inr s'" "f s' y = Inl e"
      by fastforce
    with Inr have "x # xs = (x # ys) @ y # zs \<and> for_range f s (x # ys) = Inr s' \<and> f s' y = Inl e"
      by simp
    then show ?thesis by blast
  qed
qed

section \<open>Lists\<close>

lemma list_update_nth_other [simp]: "i \<noteq> j \<Longrightarrow> (xs[i := x]) ! j = xs ! j"
  by simp

lemma nth_list_update_if: "i < length xs \<Longrightarrow> (xs[j := x]) ! i = (if i = j then x else xs ! i)"
  by (simp add: nth_list_update)

lemma list_all_update: "list_all P xs \<Longrightarrow> P x \<Longrightarrow> list_all P (xs[i := x])"
  by (simp add: list_all_length nth_list_update_if)

end
