(* ===== verification/GoText.thy ===== *)
theory GoText imports Prelude begin

text \<open>
  The functions of Go's \<^verbatim>\<open>strings\<close>, \<^verbatim>\<open>strconv\<close>, \<^verbatim>\<open>net\<close>, \<^verbatim>\<open>net/textproto\<close> and \<^verbatim>\<open>net/url\<close>
  packages that the program calls, on strings as lists of bytes. Case mapping and trimming are
  those of ASCII: a byte from 128 on is left alone. Host names, methods and header names on
  the wire are ASCII (\<^verbatim>\<open>net/http\<close> refuses other bytes there).
\<close>

section \<open>URLs\<close>

text \<open>The parts of a \<^verbatim>\<open>url.URL\<close> that the program reads or writes.\<close>

record url =
  Scheme :: string
  Host :: string
  Path :: string
  RawPath :: string
  RawQuery :: string

section \<open>Characters\<close>

definition code :: "char \<Rightarrow> nat" where
  "code c = of_char c"

lemma code_less [simp]: "code c < 256"
  by (simp add: code_def)

definition is_digit :: "char \<Rightarrow> bool" where
  "is_digit c \<longleftrightarrow> 48 \<le> code c \<and> code c \<le> 57"

definition is_lower :: "char \<Rightarrow> bool" where
  "is_lower c \<longleftrightarrow> 97 \<le> code c \<and> code c \<le> 122"

definition is_upper :: "char \<Rightarrow> bool" where
  "is_upper c \<longleftrightarrow> 65 \<le> code c \<and> code c \<le> 90"

definition lower_char :: "char \<Rightarrow> char" where
  "lower_char c = (if is_upper c then char_of (code c + 32) else c)"

definition upper_char :: "char \<Rightarrow> char" where
  "upper_char c = (if is_lower c then char_of (code c - 32) else c)"

lemma code_char_of [simp]: "n < 256 \<Longrightarrow> code (char_of (n :: nat)) = n"
  by (simp add: code_def)

lemma code_lower_char: "code (lower_char c) = (if is_upper c then code c + 32 else code c)"
  by (auto simp: lower_char_def is_upper_def)

lemma code_upper_char: "code (upper_char c) = (if is_lower c then code c - 32 else code c)"
  by (auto simp: upper_char_def is_lower_def)

lemma code_inject [simp]: "code c = code d \<longleftrightarrow> c = d"
  by (simp add: code_def)

lemma lower_char_idem [simp]: "lower_char (lower_char c) = lower_char c"
proof -
  have "\<not> is_upper (lower_char c)"
    by (auto simp: is_upper_def code_lower_char split: if_splits)
  then show ?thesis by (subst lower_char_def) simp
qed

lemma upper_char_idem [simp]: "upper_char (upper_char c) = upper_char c"
proof -
  have "\<not> is_lower (upper_char c)"
    by (auto simp: is_lower_def code_upper_char split: if_splits)
  then show ?thesis by (subst upper_char_def) simp
qed

lemma lower_char_keeps: "\<not> is_upper d \<Longrightarrow> \<not> is_lower d \<Longrightarrow> lower_char c = d \<longleftrightarrow> c = d"
proof -
  assume d: "\<not> is_upper d" "\<not> is_lower d"
  have "code (lower_char c) = code d \<longleftrightarrow> code c = code d"
    using d by (auto simp: code_lower_char is_upper_def is_lower_def)
  then show ?thesis by simp
qed

section \<open>strings\<close>

definition to_lower :: "string \<Rightarrow> string" where
  "to_lower s = map lower_char s"

definition to_upper :: "string \<Rightarrow> string" where
  "to_upper s = map upper_char s"

definition has_prefix :: "string \<Rightarrow> string \<Rightarrow> bool" where
  "has_prefix s p \<longleftrightarrow> take (length p) s = p"

definition has_suffix :: "string \<Rightarrow> string \<Rightarrow> bool" where
  "has_suffix s p \<longleftrightarrow> has_prefix (rev s) (rev p)"

definition trim_suffix :: "string \<Rightarrow> string \<Rightarrow> string" where
  "trim_suffix s p = (if has_suffix s p then take (length s - length p) s else s)"

definition trim_prefix :: "string \<Rightarrow> string \<Rightarrow> string" where
  "trim_prefix s p = (if has_prefix s p then drop (length p) s else s)"

definition trim_left_set :: "string \<Rightarrow> string \<Rightarrow> string" where
  "trim_left_set cs s = dropWhile (\<lambda>c. c \<in> set cs) s"

definition trim_right_set :: "string \<Rightarrow> string \<Rightarrow> string" where
  "trim_right_set cs s = rev (trim_left_set cs (rev s))"

definition trim_set :: "string \<Rightarrow> string \<Rightarrow> string" where
  "trim_set cs s = trim_right_set cs (trim_left_set cs s)"

definition ascii_space :: string where
  "ascii_space = [CHR 0x09, CHR 0x0A, CHR 0x0B, CHR 0x0C, CHR 0x0D, CHR '' '']"

definition trim_space :: "string \<Rightarrow> string" where
  "trim_space s = trim_set ascii_space s"

fun contains :: "string \<Rightarrow> string \<Rightarrow> bool" where
  "contains [] p = has_prefix [] p"
| "contains (c # s) p = (has_prefix (c # s) p \<or> contains s p)"

text \<open>The fields of \<^verbatim>\<open>strings.Fields\<close>: maximal runs without white space.\<close>

fun fields_acc :: "string \<Rightarrow> string \<Rightarrow> string list" where
  "fields_acc w [] = (if w = [] then [] else [rev w])"
| "fields_acc w (c # s) =
     (if c \<in> set ascii_space then (if w = [] then fields_acc [] s else rev w # fields_acc [] s)
      else fields_acc (c # w) s)"

definition fields :: "string \<Rightarrow> string list" where
  "fields s = fields_acc [] s"

fun join :: "string \<Rightarrow> string list \<Rightarrow> string" where
  "join sep [] = []"
| "join sep [x] = x"
| "join sep (x # y # ys) = x @ sep @ join sep (y # ys)"

lemma length_to_lower [simp]: "length (to_lower s) = length s"
  by (simp add: to_lower_def)

lemma to_lower_idem [simp]: "to_lower (to_lower s) = to_lower s"
  by (simp add: to_lower_def)

lemma to_upper_idem [simp]: "to_upper (to_upper s) = to_upper s"
  by (simp add: to_upper_def)

lemma to_lower_append: "to_lower (s @ t) = to_lower s @ to_lower t"
  by (simp add: to_lower_def)

lemma has_prefix_iff: "has_prefix s p \<longleftrightarrow> (\<exists>t. s = p @ t)"
  by (metis append_eq_conv_conj append_take_drop_id has_prefix_def)

lemma has_suffix_iff: "has_suffix s p \<longleftrightarrow> (\<exists>t. s = t @ p)"
  by (metis has_prefix_iff has_suffix_def rev_append rev_rev_ident)

lemma has_prefix_append [simp]: "has_prefix (p @ t) p"
  by (simp add: has_prefix_iff)

lemma has_suffix_append [simp]: "has_suffix (t @ p) p"
  by (simp add: has_suffix_iff)

lemma has_prefix_Cons [simp]:
  "has_prefix s [] = True" "has_prefix [] (c # p) = False"
  "has_prefix (d # s) (c # p) = (d = c \<and> has_prefix s p)"
  by (auto simp: has_prefix_def)

lemma has_suffix_single: "has_suffix s [c] \<longleftrightarrow> s \<noteq> [] \<and> last s = c"
  by (auto simp: has_suffix_iff intro: append_butlast_last_id [symmetric])

lemma trim_suffix_append [simp]: "trim_suffix (t @ p) p = t"
  by (simp add: trim_suffix_def)

lemma trim_suffix_none: "\<not> has_suffix s p \<Longrightarrow> trim_suffix s p = s"
  by (simp add: trim_suffix_def)

lemma trim_left_set_none: "s = [] \<or> hd s \<notin> set cs \<Longrightarrow> trim_left_set cs s = s"
  by (cases s) (auto simp: trim_left_set_def)

lemma trim_right_set_none: "s = [] \<or> last s \<notin> set cs \<Longrightarrow> trim_right_set cs s = s"
  by (cases "s = []") (auto simp: trim_right_set_def trim_left_set_none hd_rev)

lemma trim_set_none:
  "s = [] \<or> hd s \<notin> set cs \<and> last s \<notin> set cs \<Longrightarrow> trim_set cs s = s"
  by (auto simp: trim_set_def trim_left_set_none trim_right_set_none)

lemma trim_set_quoted:
  assumes "a \<in> set cs" and "b \<in> set cs" and "s = [] \<or> hd s \<notin> set cs \<and> last s \<notin> set cs"
  shows "trim_set cs (a # s @ [b]) = s"
proof (cases "s = []")
  case True
  with assms(1,2) show ?thesis
    by (simp add: trim_set_def trim_left_set_def trim_right_set_def)
next
  case False
  with assms have "trim_left_set cs (a # s @ [b]) = s @ [b]"
    by (cases s) (auto simp: trim_left_set_def)
  moreover have "trim_right_set cs (s @ [b]) = s"
    using False assms by (cases s rule: rev_cases) (auto simp: trim_right_set_def trim_left_set_def)
  ultimately show ?thesis by (simp add: trim_set_def)
qed

text \<open>The digits of lower-case hexadecimal numbers.\<close>

definition lower_hex_digit :: "nat \<Rightarrow> char" where
  "lower_hex_digit n = char_of (if n < 10 then 48 + n else 87 + n)"

lemma code_lower_hex: "n < 16 \<Longrightarrow> code (lower_hex_digit n) = (if n < 10 then 48 + n else 87 + n)"
  by (simp add: lower_hex_digit_def)

lemma lower_hex_neq:
  assumes "code c < 48 \<or> 102 < code c \<or> 57 < code c \<and> code c < 97" and "n < 16"
  shows "lower_hex_digit n \<noteq> c"
  using assms code_lower_hex [of n] by (auto split: if_splits)

end
