(* ===== verification/Config.thy ===== *)
theory Config imports GoText begin

text \<open>
  The package \<^verbatim>\<open>internal/config\<close>: the configuration records, their defaults, the deep copy behind
  snapshots, the validation and the loading of a TOML file. The TOML decoder and \<^verbatim>\<open>url.Parse\<close>
  are arguments of the definitions that call them.
\<close>

section \<open>The configuration\<close>

record ServerConfig =
  PublicAddr :: string
  AdminAddr :: string
  ReadHeaderTimeout :: duration
  ReadTimeout :: duration
  WriteTimeout :: duration
  IdleTimeout :: duration
  ShutdownTimeout :: duration
  TLSCertFile :: string
  TLSKeyFile :: string

record ClusterPeer =
  peer_ID :: string
  peer_Address :: string
  PublicURL :: string
  AdminURL :: string

record ClusterConfig =
  Enabled :: bool
  NodeID :: string
  BindAddr :: string
  AdvertiseAddr :: string
  DataDir :: string
  Bootstrap :: bool
  Peers :: "ClusterPeer slice"
  VirtualIP :: string
  Interface :: string
  OnLeaderCommand :: string
  OnFollowerCommand :: string
  ForwardTimeout :: duration
  AssignmentTTL :: duration

record ControlPlaneConfig =
  UI :: bool
  OpenAPIPath :: string

record AuthConfig =
  Mode :: string
  IssuerURL :: string
  ClientID :: string
  ClientSecretFile :: string
  SessionSecretFile :: string
  RedirectURL :: string
  AllowInsecureRedirect :: bool
  SessionCookieName :: string
  AllowedScopes :: "string slice"

record LimitsConfig =
  MaxConnections :: int
  MaxInFlight :: int
  MaxHeaderBytes :: int
  MaxBodyBytes :: int

text \<open>A \<^verbatim>\<open>map[string]string\<close> is nil (\<open>None\<close>) or a finite map.\<close>

record RouteConfig =
  route_Name :: string
  route_Host :: string
  PathPrefix :: string
  Methods :: "string slice"
  route_Upstream :: string
  RequireAuth :: bool
  route_Scopes :: "string slice"
  route_Headers :: "(string \<rightharpoonup> string) option"

record UpstreamConfig =
  up_Name :: string
  URLs :: "string slice"
  HealthPath :: string
  DialTimeout :: duration
  RequestTimeout :: duration
  HealthInterval :: duration
  RetryAttempts :: int
  CircuitBreakerThreshold :: int
  CircuitBreakerCooldown :: duration

record Config =
  Server :: ServerConfig
  Cluster :: ClusterConfig
  ControlPlane :: ControlPlaneConfig
  Auth :: AuthConfig
  Limits :: LimitsConfig
  Routes :: "RouteConfig slice"
  Upstreams :: "UpstreamConfig slice"

definition Default :: Config where
  "Default = \<lparr>
     Server = \<lparr>PublicAddr = '':8080'', AdminAddr = ''127.0.0.1:9901'',
       ReadHeaderTimeout = 5 * second, ReadTimeout = 30 * second, WriteTimeout = 30 * second,
       IdleTimeout = 60 * second, ShutdownTimeout = 15 * second,
       TLSCertFile = [], TLSKeyFile = []\<rparr>,
     Cluster = \<lparr>Enabled = False, NodeID = [], BindAddr = [], AdvertiseAddr = [], DataDir = [],
       Bootstrap = False, Peers = None, VirtualIP = [], Interface = [], OnLeaderCommand = [],
       OnFollowerCommand = [], ForwardTimeout = 5 * second, AssignmentTTL = 10 * minute\<rparr>,
     ControlPlane = \<lparr>UI = False, OpenAPIPath = ''/api/openapi.json''\<rparr>,
     Auth = \<lparr>Mode = ''disabled'', IssuerURL = [], ClientID = [], ClientSecretFile = [],
       SessionSecretFile = [], RedirectURL = [], AllowInsecureRedirect = False,
       SessionCookieName = ''go_serve_session'', AllowedScopes = None\<rparr>,
     Limits = \<lparr>MaxConnections = 10000, MaxInFlight = 1000,
       MaxHeaderBytes = 2 ^ 20, MaxBodyBytes = 10 * 2 ^ 20\<rparr>,
     Routes = None,
     Upstreams = None\<rparr>"

section \<open>Copies\<close>

text \<open>The clone of a map has the same entries; a nil map stays nil.\<close>

definition cloneStringMap :: "(string \<rightharpoonup> string) option \<Rightarrow> (string \<rightharpoonup> string) option" where
  "cloneStringMap value = (case value of None \<Rightarrow> None | Some m \<Rightarrow> Some m)"

definition clone_route :: "RouteConfig \<Rightarrow> RouteConfig" where
  "clone_route r = r\<lparr>Methods := copy_slice (Methods r), route_Scopes := copy_slice (route_Scopes r),
     route_Headers := cloneStringMap (route_Headers r)\<rparr>"

definition clone_upstream :: "UpstreamConfig \<Rightarrow> UpstreamConfig" where
  "clone_upstream u = u\<lparr>URLs := copy_slice (URLs u)\<rparr>"

definition Clone :: "Config \<Rightarrow> Config" where
  "Clone c = c\<lparr>
     Auth := (Auth c)\<lparr>AllowedScopes := copy_slice (AllowedScopes (Auth c))\<rparr>,
     Routes := map_option (map clone_route) (copy_slice (Routes c)),
     Upstreams := map_option (map clone_upstream) (copy_slice (Upstreams c)),
     Cluster := (Cluster c)\<lparr>Peers := copy_slice (Peers (Cluster c))\<rparr>\<rparr>"

text \<open>A snapshot holds a copy, and hands out copies.\<close>

record Snapshot =
  snap_value :: Config

definition NewSnapshot :: "Config \<Rightarrow> Snapshot" where
  "NewSnapshot value = \<lparr>snap_value = Clone value\<rparr>"

definition snapshot_Config :: "Snapshot \<Rightarrow> Config" where
  "snapshot_Config s = Clone (snap_value s)"

section \<open>Validation\<close>

datatype config_error =
    AddrRequired
  | TLSFilesTogether
  | ClusterFieldsRequired
  | ClusterTimeoutsPositive
  | PeerFieldsRequired
  | DuplicateNodeID string
  | OpenAPIPathNotAbsolute
  | UnknownAuthMode
  | IssuerRequired string
  | OIDCFieldsRequired
  | RedirectNotAbsolute
  | RedirectNotHTTPS
  | RouteNeedsAuth string
  | LimitsOutOfRange

definition validate_server :: "Config \<Rightarrow> config_error + unit" where
  "validate_server c =
     (if PublicAddr (Server c) = [] \<or> AdminAddr (Server c) = [] then Inl AddrRequired
      else if (TLSCertFile (Server c) = []) \<noteq> (TLSKeyFile (Server c) = []) then Inl TLSFilesTogether
      else Inr ())"

definition check_peer :: "string set \<Rightarrow> ClusterPeer \<Rightarrow> config_error + string set" where
  "check_peer seen p =
     (if peer_ID p = [] \<or> peer_Address p = [] then Inl PeerFieldsRequired
      else if peer_ID p \<in> seen then Inl (DuplicateNodeID (peer_ID p))
      else Inr (insert (peer_ID p) seen))"

definition validate_cluster :: "Config \<Rightarrow> config_error + unit" where
  "validate_cluster c =
     (let cl = Cluster c in
      if Enabled cl then
        if NodeID cl = [] \<or> BindAddr cl = [] \<or> AdvertiseAddr cl = [] \<or> DataDir cl = []
        then Inl ClusterFieldsRequired
        else if ForwardTimeout cl \<le> 0 \<or> AssignmentTTL cl \<le> 0 then Inl ClusterTimeoutsPositive
        else and_then (for_range check_peer {NodeID cl} (elems (Peers cl))) (\<lambda>_. Inr ())
      else Inr ())"

definition validate_control_plane :: "Config \<Rightarrow> config_error + unit" where
  "validate_control_plane c =
     (let p = OpenAPIPath (ControlPlane c) in
      if p = [] \<or> hd p \<noteq> CHR ''/'' then Inl OpenAPIPathNotAbsolute else Inr ())"

text \<open>
  \<^verbatim>\<open>url.Parse\<close> is the argument \<open>parse\<close>: \<open>None\<close> is its error, and a URL is read through its
  scheme and host here.
\<close>

definition validate_redirect :: "(string \<Rightarrow> url option) \<Rightarrow> AuthConfig \<Rightarrow> config_error + unit" where
  "validate_redirect parse a =
     (if Mode a = ''oidc'' \<and> RedirectURL a \<noteq> [] then
        (case parse (RedirectURL a) of
           None \<Rightarrow> Inl RedirectNotAbsolute
         | Some redirect \<Rightarrow>
             if Scheme redirect = [] \<or> Host redirect = [] then Inl RedirectNotAbsolute
             else if Scheme redirect \<noteq> ''https'' \<and> \<not> AllowInsecureRedirect a then Inl RedirectNotHTTPS
             else Inr ())
      else Inr ())"

definition validate_auth :: "(string \<Rightarrow> url option) \<Rightarrow> Config \<Rightarrow> config_error + unit" where
  "validate_auth parse c =
     (let a = Auth c in
      if Mode a \<noteq> ''disabled'' \<and> Mode a \<noteq> ''oidc'' \<and> Mode a \<noteq> ''bearer'' then Inl UnknownAuthMode
      else if (Mode a = ''oidc'' \<or> Mode a = ''bearer'') \<and> (IssuerURL a = [] \<or> ClientID a = [])
      then Inl (IssuerRequired (Mode a))
      else if Mode a = ''oidc'' \<and>
        (RedirectURL a = [] \<or> ClientSecretFile a = [] \<or> SessionSecretFile a = [])
      then Inl OIDCFieldsRequired
      else validate_redirect parse a)"

definition check_route :: "string \<Rightarrow> unit \<Rightarrow> RouteConfig \<Rightarrow> config_error + unit" where
  "check_route mode u r =
     (if RequireAuth r \<and> mode = ''disabled'' then Inl (RouteNeedsAuth (route_Name r)) else Inr ())"

definition validate_routes :: "Config \<Rightarrow> config_error + unit" where
  "validate_routes c = for_range (check_route (Mode (Auth c))) () (elems (Routes c))"

definition validate_limits :: "Config \<Rightarrow> config_error + unit" where
  "validate_limits c =
     (let l = Limits c in
      if MaxConnections l < 1 \<or> MaxInFlight l < 1 \<or> MaxHeaderBytes l < 1024 \<or> MaxBodyBytes l < 1
      then Inl LimitsOutOfRange else Inr ())"

definition Validate :: "(string \<Rightarrow> url option) \<Rightarrow> Config \<Rightarrow> config_error + unit" where
  "Validate parse c =
     and_then (validate_server c) (\<lambda>_.
     and_then (validate_cluster c) (\<lambda>_.
     and_then (validate_control_plane c) (\<lambda>_.
     and_then (validate_auth parse c) (\<lambda>_.
     and_then (validate_routes c) (\<lambda>_.
     validate_limits c)))))"

section \<open>Loading\<close>

text \<open>
  \<^verbatim>\<open>toml.Decode\<close> is the argument \<open>decode\<close>: from the file's contents and the value decoded into
  (the defaults), \<open>None\<close> for an error, else the value with the file's keys set and the keys of
  the file that no field takes.
\<close>

datatype load_error =
    ReadFailed
  | DecodeFailed
  | UnknownKeys "string list"
  | Invalid config_error

definition ParseTOML ::
  "(string \<Rightarrow> url option) \<Rightarrow> (string \<Rightarrow> Config \<Rightarrow> (Config \<times> string list) option) \<Rightarrow>
   string \<Rightarrow> load_error + Config" where
  "ParseTOML parse decode contents =
     (case decode contents Default of
        None \<Rightarrow> Inl DecodeFailed
      | Some (value, undecoded) \<Rightarrow>
          if length undecoded > 0 then Inl (UnknownKeys undecoded)
          else (case Validate parse value of Inl e \<Rightarrow> Inl (Invalid e) | Inr _ \<Rightarrow> Inr value))"

definition LoadFile ::
  "(string \<Rightarrow> url option) \<Rightarrow> (string \<Rightarrow> Config \<Rightarrow> (Config \<times> string list) option) \<Rightarrow>
   (string \<Rightarrow> string option) \<Rightarrow> string \<Rightarrow> load_error + Config" where
  "LoadFile parse decode read path =
     (case read path of None \<Rightarrow> Inl ReadFailed | Some contents \<Rightarrow> ParseTOML parse decode contents)"

section \<open>What a valid configuration is\<close>

definition valid_peers :: "string \<Rightarrow> ClusterPeer list \<Rightarrow> bool" where
  "valid_peers nid ps \<longleftrightarrow>
     (\<forall>p \<in> set ps. peer_ID p \<noteq> [] \<and> peer_Address p \<noteq> []) \<and> distinct (nid # map peer_ID ps)"

definition valid_cluster :: "ClusterConfig \<Rightarrow> bool" where
  "valid_cluster cl \<longleftrightarrow> \<not> Enabled cl \<or>
     NodeID cl \<noteq> [] \<and> BindAddr cl \<noteq> [] \<and> AdvertiseAddr cl \<noteq> [] \<and> DataDir cl \<noteq> [] \<and>
     0 < ForwardTimeout cl \<and> 0 < AssignmentTTL cl \<and> valid_peers (NodeID cl) (elems (Peers cl))"

definition valid_redirect :: "(string \<Rightarrow> url option) \<Rightarrow> AuthConfig \<Rightarrow> bool" where
  "valid_redirect parse a \<longleftrightarrow>
     (\<exists>u. parse (RedirectURL a) = Some u \<and> Scheme u \<noteq> [] \<and> Host u \<noteq> [] \<and>
        (Scheme u = ''https'' \<or> AllowInsecureRedirect a))"

definition valid_auth :: "(string \<Rightarrow> url option) \<Rightarrow> AuthConfig \<Rightarrow> bool" where
  "valid_auth parse a \<longleftrightarrow>
     Mode a = ''disabled'' \<or>
     Mode a = ''bearer'' \<and> IssuerURL a \<noteq> [] \<and> ClientID a \<noteq> [] \<or>
     Mode a = ''oidc'' \<and> IssuerURL a \<noteq> [] \<and> ClientID a \<noteq> [] \<and> RedirectURL a \<noteq> [] \<and>
       ClientSecretFile a \<noteq> [] \<and> SessionSecretFile a \<noteq> [] \<and> valid_redirect parse a"

definition valid_limits :: "LimitsConfig \<Rightarrow> bool" where
  "valid_limits l \<longleftrightarrow>
     1 \<le> MaxConnections l \<and> 1 \<le> MaxInFlight l \<and> 1024 \<le> MaxHeaderBytes l \<and> 1 \<le> MaxBodyBytes l"

definition valid_server :: "ServerConfig \<Rightarrow> bool" where
  "valid_server s \<longleftrightarrow> PublicAddr s \<noteq> [] \<and> AdminAddr s \<noteq> [] \<and>
     (TLSCertFile s = [] \<longleftrightarrow> TLSKeyFile s = [])"

definition valid_config :: "(string \<Rightarrow> url option) \<Rightarrow> Config \<Rightarrow> bool" where
  "valid_config parse c \<longleftrightarrow>
     valid_server (Server c) \<and> valid_cluster (Cluster c) \<and>
     (\<exists>rest. OpenAPIPath (ControlPlane c) = CHR ''/'' # rest) \<and> valid_auth parse (Auth c) \<and>
     (Mode (Auth c) = ''disabled'' \<longrightarrow> (\<forall>r \<in> set (elems (Routes c)). \<not> RequireAuth r)) \<and>
     valid_limits (Limits c)"

lemma check_peers_ok:
  "is_ok (for_range check_peer seen ps) \<longleftrightarrow>
     (\<forall>p \<in> set ps. peer_ID p \<noteq> [] \<and> peer_Address p \<noteq> [] \<and> peer_ID p \<notin> seen) \<and>
     distinct (map peer_ID ps)"
proof (induction ps arbitrary: seen)
  case Nil
  then show ?case by simp
next
  case (Cons p ps)
  show ?case
  proof (cases "check_peer seen p")
    case (Inl e)
    then show ?thesis by (auto simp: check_peer_def split: if_splits)
  next
    case (Inr seen')
    then have "peer_ID p \<noteq> [] \<and> peer_Address p \<noteq> [] \<and> peer_ID p \<notin> seen"
      and "seen' = insert (peer_ID p) seen"
      by (auto simp: check_peer_def split: if_splits)
    with Inr Cons.IH show ?thesis by (auto simp: image_iff Ball_def)
  qed
qed

lemma validate_cluster_ok: "is_ok (validate_cluster c) \<longleftrightarrow> valid_cluster (Cluster c)"
  by (auto simp: validate_cluster_def valid_cluster_def valid_peers_def Let_def check_peers_ok
      image_iff Ball_def)

lemma validate_redirect_ok:
  "is_ok (validate_redirect parse a) \<longleftrightarrow>
     (Mode a = ''oidc'' \<and> RedirectURL a \<noteq> [] \<longrightarrow> valid_redirect parse a)"
  by (auto simp: validate_redirect_def valid_redirect_def split: option.splits)

lemma validate_auth_ok: "is_ok (validate_auth parse c) \<longleftrightarrow> valid_auth parse (Auth c)"
  by (auto simp: validate_auth_def valid_auth_def Let_def validate_redirect_ok)

lemma check_routes_ok:
  "is_ok (for_range (check_route mode) u rs) \<longleftrightarrow>
     (mode = ''disabled'' \<longrightarrow> (\<forall>r \<in> set rs. \<not> RequireAuth r))"
  by (induction rs arbitrary: u) (auto simp: check_route_def)

lemma validate_control_plane_ok:
  "is_ok (validate_control_plane c) \<longleftrightarrow> (\<exists>rest. OpenAPIPath (ControlPlane c) = CHR ''/'' # rest)"
  by (cases "OpenAPIPath (ControlPlane c)") (auto simp: validate_control_plane_def)

lemmas validate_stages_ok =
  validate_cluster_ok validate_auth_ok check_routes_ok validate_control_plane_ok

lemma Validate_ok: "is_ok (Validate parse c) \<longleftrightarrow> valid_config parse c"
proof -
  have "is_ok (validate_server c) \<longleftrightarrow> valid_server (Server c)"
    by (auto simp: validate_server_def valid_server_def)
  moreover have "is_ok (validate_limits c) \<longleftrightarrow> valid_limits (Limits c)"
    by (auto simp: validate_limits_def valid_limits_def Let_def)
  moreover have "is_ok (Validate parse c) \<longleftrightarrow> is_ok (validate_server c) \<and> is_ok (validate_cluster c) \<and>
      is_ok (validate_control_plane c) \<and> is_ok (validate_auth parse c) \<and> is_ok (validate_routes c) \<and>
      is_ok (validate_limits c)"
    by (simp add: Validate_def)
  ultimately show ?thesis
    by (simp add: valid_config_def validate_routes_def validate_stages_ok)
qed

lemma Validate_iff: "Validate parse c = Inr u \<longleftrightarrow> valid_config parse c"
  using Validate_ok [of parse c] by (cases "Validate parse c") auto

section \<open>Properties of copies\<close>

lemma cloneStringMap_id [simp]: "cloneStringMap m = m"
  by (simp add: cloneStringMap_def split: option.split)

lemma clone_fields [simp]:
  "Server (Clone c) = Server c" "ControlPlane (Clone c) = ControlPlane c"
  "Limits (Clone c) = Limits c" "Mode (Auth (Clone c)) = Mode (Auth c)"
  "elems (Routes (Clone c)) = map clone_route (elems (Routes c))"
  "elems (Upstreams (Clone c)) = map clone_upstream (elems (Upstreams c))"
  by (simp_all add: Clone_def copy_slice_def split: list.split)

lemma clone_route_idem [simp]: "clone_route (clone_route r) = clone_route r"
  by (simp add: clone_route_def)

lemma clone_upstream_idem [simp]: "clone_upstream (clone_upstream u) = clone_upstream u"
  by (simp add: clone_upstream_def)

lemma Clone_idem [simp]: "Clone (Clone c) = Clone c"
  by (cases "elems (Routes c)"; cases "elems (Upstreams c)")
    (simp_all add: Clone_def copy_slice_def [of "Routes c"] copy_slice_def [of "Upstreams c"]
      copy_slice_def [of None] copy_slice_def [of "Some (x # xs)" for x xs] comp_def)

lemma valid_Clone [simp]: "valid_config parse (Clone c) = valid_config parse c"
  by (simp add: valid_config_def valid_cluster_def valid_auth_def valid_redirect_def Clone_def
      clone_route_def ball_simps copy_slice_def split: list.split)

section \<open>Properties\<close>

text \<open>
  Claim C13: \<^verbatim>\<open>Validate\<close> accepts a configuration exactly when it is valid: listener addresses are
  set, TLS files come in pairs, an enabled cluster has its fields, positive timeouts and pairwise
  distinct node identifiers, the OpenAPI path is absolute, the authentication mode has its
  settings (for OIDC an absolute redirect URL, HTTPS unless explicitly allowed), no route requires
  authentication that is disabled, and the limits are in range.
\<close>

theorem Validate_iff_valid: "Validate parse c = Inr () \<longleftrightarrow> valid_config parse c"
  by (simp add: unit_result Validate_ok)

text \<open>
  Loading a file succeeds with a configuration exactly when the file can be read, its
  contents decode over the defaults to that configuration with no key left over, and the
  configuration is valid.
\<close>

lemma LoadFile_iff:
  "LoadFile parse decode read path = Inr c \<longleftrightarrow>
     (\<exists>contents. read path = Some contents \<and> decode contents Default = Some (c, []) \<and> valid_config parse c)"
proof -
  have "ParseTOML parse decode contents = Inr c \<longleftrightarrow>
      decode contents Default = Some (c, []) \<and> valid_config parse c" for contents
    using Validate_iff [of parse c]
    by (auto simp: ParseTOML_def split: option.split sum.split)
  then show ?thesis by (simp add: LoadFile_def split: option.split)
qed

end
