(* ===== verification/Http.thy ===== *)
theory Http imports GoText begin

text \<open>
  What the program uses of \<^verbatim>\<open>net/http\<close>: header maps with canonical keys, requests, and a response
  writer that sends its status and headers once. A request carries the signals that
  \<^verbatim>\<open>internal/observability\<close> keeps in its context; they are shared by every copy of the request,
  so the handlers pass them on.
\<close>

section \<open>Headers\<close>

type_synonym header = "string \<rightharpoonup> string list"

text \<open>The token characters of \<^verbatim>\<open>net/textproto\<close>; a key with any other byte is left as it is.\<close>

definition token_char :: "char \<Rightarrow> bool" where
  "token_char c \<longleftrightarrow> is_digit c \<or> is_lower c \<or> is_upper c \<or>
     c \<in> set [CHR ''!'', CHR ''#'', CHR ''$'', CHR ''%'', CHR ''&'', CHR 0x27, CHR ''*'', CHR ''+'',
       CHR ''-'', CHR ''.'', CHR ''^'', CHR ''_'', CHR 0x60, CHR ''|'', CHR ''~'']"

fun canonical_from :: "bool \<Rightarrow> string \<Rightarrow> string" where
  "canonical_from upper [] = []"
| "canonical_from upper (c # s) =
     (if upper then upper_char c else lower_char c) # canonical_from (c = CHR ''-'') s"

definition CanonicalHeaderKey :: "string \<Rightarrow> string" where
  "CanonicalHeaderKey s = (if \<forall>c \<in> set s. token_char c then canonical_from True s else s)"

definition header_get :: "header \<Rightarrow> string \<Rightarrow> string" where
  "header_get h k = (case h (CanonicalHeaderKey k) of Some (v # _) \<Rightarrow> v | _ \<Rightarrow> [])"

definition header_set :: "string \<Rightarrow> string \<Rightarrow> header \<Rightarrow> header" where
  "header_set k v h = h(CanonicalHeaderKey k \<mapsto> [v])"

definition header_add :: "string \<Rightarrow> string \<Rightarrow> header \<Rightarrow> header" where
  "header_add k v h =
     h(CanonicalHeaderKey k \<mapsto>
       (case h (CanonicalHeaderKey k) of None \<Rightarrow> [v] | Some vs \<Rightarrow> vs @ [v]))"

definition header_del :: "string \<Rightarrow> header \<Rightarrow> header" where
  "header_del k h = h(CanonicalHeaderKey k := None)"

lemma lower_upper_char [simp]: "lower_char (upper_char c) = lower_char c"
proof -
  have "code (lower_char (upper_char c)) = code (lower_char c)"
    by (auto simp: code_lower_char code_upper_char is_upper_def is_lower_def)
  then show ?thesis by simp
qed

lemma upper_lower_char [simp]: "upper_char (lower_char c) = upper_char c"
proof -
  have "code (upper_char (lower_char c)) = code (upper_char c)"
    by (auto simp: code_lower_char code_upper_char is_upper_def is_lower_def)
  then show ?thesis by simp
qed

lemma case_char_dash [simp]:
  "upper_char c = CHR ''-'' \<longleftrightarrow> c = CHR ''-''" "lower_char c = CHR ''-'' \<longleftrightarrow> c = CHR ''-''"
proof -
  have dash: "code (CHR ''-'') = 45" by (simp add: code_def)
  have "code (upper_char c) = code (CHR ''-'') \<longleftrightarrow> code c = code (CHR ''-'')"
    unfolding dash by (auto simp: code_upper_char is_lower_def)
  then show "upper_char c = CHR ''-'' \<longleftrightarrow> c = CHR ''-''" by simp
  have "code (lower_char c) = code (CHR ''-'') \<longleftrightarrow> code c = code (CHR ''-'')"
    unfolding dash by (auto simp: code_lower_char is_upper_def)
  then show "lower_char c = CHR ''-'' \<longleftrightarrow> c = CHR ''-''" by simp
qed

lemma token_char_case [simp]:
  "token_char (upper_char c) = token_char c" "token_char (lower_char c) = token_char c"
proof -
  have up: "upper_char c = c \<or> is_lower c \<and> is_upper (upper_char c)"
    by (auto simp: upper_char_def is_lower_def is_upper_def)
  have lo: "lower_char c = c \<or> is_upper c \<and> is_lower (lower_char c)"
    by (auto simp: lower_char_def is_lower_def is_upper_def)
  from up show "token_char (upper_char c) = token_char c"
    by (elim disjE) (auto simp: token_char_def)
  from lo show "token_char (lower_char c) = token_char c"
    by (elim disjE) (auto simp: token_char_def)
qed

lemma canonical_from_idem [simp]: "canonical_from b (canonical_from b s) = canonical_from b s"
  by (induction s arbitrary: b) auto

lemma token_canonical: "(\<forall>c \<in> set (canonical_from b s). token_char c) = (\<forall>c \<in> set s. token_char c)"
  by (induction s arbitrary: b) auto

lemma CanonicalHeaderKey_idem [simp]: "CanonicalHeaderKey (CanonicalHeaderKey s) = CanonicalHeaderKey s"
  by (simp add: CanonicalHeaderKey_def token_canonical)

text \<open>The trusted headers and the other headers the program names are canonical as written.\<close>

lemma canonical_constants [simp, go_eval]:
  "CanonicalHeaderKey ''X-Authenticated-Subject'' = ''X-Authenticated-Subject''"
  "CanonicalHeaderKey ''X-Authenticated-Email'' = ''X-Authenticated-Email''"
  "CanonicalHeaderKey ''X-Authenticated-Scopes'' = ''X-Authenticated-Scopes''"
  "CanonicalHeaderKey ''Authorization'' = ''Authorization''"
  "CanonicalHeaderKey ''Cookie'' = ''Cookie''"
  "CanonicalHeaderKey ''Allow'' = ''Allow''"
  "CanonicalHeaderKey ''Location'' = ''Location''"
  "CanonicalHeaderKey ''Accept'' = ''Accept''"
  "CanonicalHeaderKey ''If-Match'' = ''If-Match''"
  "CanonicalHeaderKey ''Content-Type'' = ''Content-Type''"
  "CanonicalHeaderKey ''Content-Length'' = ''Content-Length''"
  "CanonicalHeaderKey ''X-Go-Serve-Forwarded'' = ''X-Go-Serve-Forwarded''"
  "CanonicalHeaderKey ''X-Go-Serve-Client-Key'' = ''X-Go-Serve-Client-Key''"
  "CanonicalHeaderKey ''X-Content-Type-Options'' = ''X-Content-Type-Options''"
  "CanonicalHeaderKey ''Set-Cookie'' = ''Set-Cookie''"
  by code_simp+

lemma header_get_set: "header_get (header_set k v h) k' =
    (if CanonicalHeaderKey k = CanonicalHeaderKey k' then v else header_get h k')"
  by (auto simp: header_get_def header_set_def)

lemma header_get_del: "header_get (header_del k h) k' =
    (if CanonicalHeaderKey k = CanonicalHeaderKey k' then [] else header_get h k')"
  by (auto simp: header_get_def header_del_def)

section \<open>Requests\<close>

record RequestSignals =
  sig_Route :: string
  sig_Upstream :: string
  sig_AuthOutcome :: string
  sig_Retries :: u64
  sig_Rejections :: u64

record request =
  Method :: string
  req_Host :: string
  req_URL :: url
  RequestURI :: string
  Header :: header
  RemoteAddr :: string
  ContentLength :: int
  Signals :: "RequestSignals option"

section \<open>Responses\<close>

text \<open>
  A response writer: the header map the handler edits, what was sent (the first status with the
  headers of that moment; later \<^verbatim>\<open>WriteHeader\<close> calls send nothing) and the body so far. Every
  writer the program's handlers see is wrapped in the \<^verbatim>\<open>statusWriter\<close> of
  \<^verbatim>\<open>internal/observability\<close>; \<open>resp_status\<close> is its \<^verbatim>\<open>status\<close> field, which notes the last
  \<^verbatim>\<open>WriteHeader\<close> call (0 for none).
\<close>

record response =
  resp_header :: header
  resp_sent :: "(int \<times> header) option"
  resp_body :: string
  resp_status :: int

definition new_response :: response where
  "new_response = \<lparr>resp_header = Map.empty, resp_sent = None, resp_body = [], resp_status = 0\<rparr>"

definition set_header :: "string \<Rightarrow> string \<Rightarrow> response \<Rightarrow> response" where
  "set_header k v w = w\<lparr>resp_header := header_set k v (resp_header w)\<rparr>"

definition write_header :: "int \<Rightarrow> response \<Rightarrow> response" where
  "write_header status w =
     w\<lparr>resp_status := status,
       resp_sent := (case resp_sent w of None \<Rightarrow> Some (status, resp_header w) | Some sent \<Rightarrow> Some sent)\<rparr>"

definition write_body :: "string \<Rightarrow> response \<Rightarrow> response" where
  "write_body s w =
     (let w' = (if resp_status w = 0 then write_header 200 w else w)
      in w'\<lparr>resp_body := resp_body w' @ s\<rparr>)"

text \<open>\<^verbatim>\<open>Flush\<close> commits the status 200 if none was written; what is buffered below is not modelled.\<close>

definition flush :: "response \<Rightarrow> response" where
  "flush w = (if resp_status w = 0 then write_header 200 w else w)"

definition http_error :: "string \<Rightarrow> int \<Rightarrow> response \<Rightarrow> response" where
  "http_error msg status w =
     write_body (msg @ [CHR 0x0A])
       (write_header status
         (set_header ''X-Content-Type-Options'' ''nosniff''
           (set_header ''Content-Type'' ''text/plain; charset=utf-8''
             (w\<lparr>resp_header := header_del ''Content-Length'' (resp_header w)\<rparr>))))"

definition not_found :: "response \<Rightarrow> response" where
  "not_found w = http_error ''404 page not found'' 404 w"

definition status_of :: "response \<Rightarrow> int option" where
  "status_of w = map_option fst (resp_sent w)"

text \<open>The writer's status is noted exactly when something was sent.\<close>

definition resp_inv :: "response \<Rightarrow> bool" where
  "resp_inv w \<longleftrightarrow> (resp_status w = 0 \<longleftrightarrow> resp_sent w = None)"

lemma resp_inv_new [inv_intros]: "resp_inv new_response"
  by (simp add: resp_inv_def new_response_def)

lemma resp_inv_set_header [simp]: "resp_inv (set_header k v w) = resp_inv w"
  by (simp add: resp_inv_def set_header_def)

lemma resp_inv_write_header [inv_intros]: "s \<noteq> 0 \<Longrightarrow> resp_inv (write_header s w)"
  by (simp add: resp_inv_def write_header_def split: option.split)

lemma resp_inv_flush [inv_intros]: "resp_inv w \<Longrightarrow> resp_inv (flush w)"
  by (auto simp: resp_inv_def write_header_def flush_def split: option.split)

lemma resp_inv_write_body [inv_intros]: "resp_inv w \<Longrightarrow> resp_inv (write_body b w)"
  by (auto simp: resp_inv_def write_header_def write_body_def Let_def split: option.split)

lemma resp_inv_http_error [inv_intros]: "s \<noteq> 0 \<Longrightarrow> resp_inv (http_error m s w)"
  by (simp add: http_error_def resp_inv_write_body resp_inv_write_header)

lemma status_write_header [simp]:
  "status_of (write_header s w) = (case status_of w of None \<Rightarrow> Some s | Some s' \<Rightarrow> Some s')"
  by (auto simp: status_of_def write_header_def split: option.split)

lemma status_set_header [simp]: "status_of (set_header k v w) = status_of w"
  by (simp add: status_of_def set_header_def)

lemma status_http_error [simp]:
  "s \<noteq> 0 \<Longrightarrow> status_of (http_error m s w) = (case status_of w of None \<Rightarrow> Some s | Some s' \<Rightarrow> Some s')"
  by (auto simp: http_error_def status_of_def write_header_def write_body_def set_header_def Let_def
      split: option.split)

lemma status_not_found [simp]:
  "status_of (not_found w) = (case status_of w of None \<Rightarrow> Some 404 | Some s \<Rightarrow> Some s)"
  by (simp add: not_found_def)

lemma status_new [simp]: "status_of new_response = None"
  by (simp add: status_of_def new_response_def)

section \<open>Handlers\<close>

text \<open>A handler over a program state: the request it leaves behind and the response it wrote.\<close>

type_synonym 'w handler = "'w \<Rightarrow> request \<Rightarrow> response \<Rightarrow> 'w \<times> request \<times> response"

end
