(* ===== verification/Breaker.thy ===== *)
theory Breaker imports Prelude begin

text \<open>
  The circuit breaker of \<^verbatim>\<open>internal/dataplane/server.go\<close> (type \<^verbatim>\<open>circuitBreaker\<close>): its state and
  operations, the three-state automaton it implements as an abstract specification, the interface
  between the two as a locale, and the lemmas its clients use. Each operation runs under the
  breaker's mutex, so it is one atomic step; the clock reading is its argument.
\<close>

section \<open>The implementation\<close>

record circuitBreaker =
  threshold :: int
  cooldown :: duration
  failures :: int
  openUntil :: time
  halfOpen :: bool

definition new_breaker :: "int \<Rightarrow> duration \<Rightarrow> circuitBreaker" where
  "new_breaker th cd =
     \<lparr>threshold = th, cooldown = cd, failures = 0, openUntil = 0, halfOpen = False\<rparr>"

definition allow :: "time \<Rightarrow> circuitBreaker \<Rightarrow> bool \<times> circuitBreaker" where
  "allow now b =
     (if openUntil b = 0 then (True, b)
      else if now < openUntil b \<or> halfOpen b then (False, b)
      else (True, b\<lparr>halfOpen := True\<rparr>))"

definition success :: "circuitBreaker \<Rightarrow> circuitBreaker" where
  "success b = b\<lparr>failures := 0, openUntil := 0, halfOpen := False\<rparr>"

definition failure :: "time \<Rightarrow> circuitBreaker \<Rightarrow> circuitBreaker" where
  "failure now b =
     (let b' = b\<lparr>failures := failures b + 1\<rparr> in
      if threshold b' \<le> failures b'
      then b'\<lparr>openUntil := now + cooldown b', halfOpen := False\<rparr>
      else b')"

definition isOpen :: "circuitBreaker \<Rightarrow> bool" where
  "isOpen b \<longleftrightarrow> openUntil b \<noteq> 0"

text \<open>
  What the operations keep: the circuit is open exactly when the failures since the last success
  have reached the threshold, and only an open circuit has a probe out.
\<close>

definition breaker_inv :: "circuitBreaker \<Rightarrow> bool" where
  "breaker_inv b \<longleftrightarrow>
     1 \<le> threshold b \<and> 1 \<le> cooldown b \<and> 0 \<le> failures b \<and> 0 \<le> openUntil b \<and>
     (openUntil b = 0 \<longleftrightarrow> failures b < threshold b) \<and> (halfOpen b \<longrightarrow> openUntil b \<noteq> 0)"

lemma breaker_inv_new [inv_intros]: "1 \<le> th \<Longrightarrow> 1 \<le> cd \<Longrightarrow> breaker_inv (new_breaker th cd)"
  by (simp add: breaker_inv_def new_breaker_def)

lemma breaker_inv_allow [inv_intros]: "breaker_inv b \<Longrightarrow> breaker_inv (snd (allow now b))"
  by (auto simp: breaker_inv_def allow_def)

lemma breaker_inv_success [inv_intros]: "breaker_inv b \<Longrightarrow> breaker_inv (success b)"
  by (auto simp: breaker_inv_def success_def)

lemma breaker_inv_failure [inv_intros]:
  "0 < now \<Longrightarrow> breaker_inv b \<Longrightarrow> breaker_inv (failure now b)"
  by (auto simp: breaker_inv_def failure_def Let_def)

lemma breaker_settings [simp, frame_rules]:
  "threshold (snd (allow now b)) = threshold b" "cooldown (snd (allow now b)) = cooldown b"
  "threshold (success b) = threshold b" "cooldown (success b) = cooldown b"
  "threshold (failure now b) = threshold b" "cooldown (failure now b) = cooldown b"
  by (simp_all add: allow_def success_def failure_def Let_def)

section \<open>The specification: a three-state automaton\<close>

text \<open>
  \<open>Closed n\<close> after \<open>n\<close> failures in a row, \<open>Open t\<close> until time \<open>t\<close>, \<open>Probing\<close> while one request tries
  the endpoint after the cooldown.
\<close>

datatype circuit = Closed nat | Open time | Probing

fun spec_allow :: "time \<Rightarrow> circuit \<Rightarrow> bool \<times> circuit" where
  "spec_allow now (Closed n) = (True, Closed n)"
| "spec_allow now (Open t) = (if now < t then (False, Open t) else (True, Probing))"
| "spec_allow now Probing = (False, Probing)"

fun spec_failure :: "nat \<Rightarrow> duration \<Rightarrow> time \<Rightarrow> circuit \<Rightarrow> circuit" where
  "spec_failure th cd now (Closed n) = (if th \<le> Suc n then Open (now + cd) else Closed (Suc n))"
| "spec_failure th cd now (Open t) = Open (now + cd)"
| "spec_failure th cd now Probing = Open (now + cd)"

datatype breaker_event = Ask time | Succeeded | Failed time

fun event_time_ok :: "breaker_event \<Rightarrow> bool" where
  "event_time_ok (Failed now) = (0 < now)"
| "event_time_ok _ = True"

fun spec_step :: "nat \<Rightarrow> duration \<Rightarrow> circuit \<Rightarrow> breaker_event \<Rightarrow> circuit" where
  "spec_step th cd c (Ask now) = snd (spec_allow now c)"
| "spec_step th cd c Succeeded = Closed 0"
| "spec_step th cd c (Failed now) = spec_failure th cd now c"

section \<open>The interface\<close>

text \<open>
  What a client of a breaker relies on: every operation keeps the invariant and the settings, and
  simulates the automaton under the abstraction \<open>abs\<close>.
\<close>

locale circuit_contract =
  fixes ask :: "time \<Rightarrow> 'b \<Rightarrow> bool \<times> 'b"
    and succeed :: "'b \<Rightarrow> 'b"
    and fail :: "time \<Rightarrow> 'b \<Rightarrow> 'b"
    and opened :: "'b \<Rightarrow> bool"
    and abs :: "'b \<Rightarrow> circuit"
    and invar :: "'b \<Rightarrow> bool"
    and limit :: "'b \<Rightarrow> nat"
    and pause :: "'b \<Rightarrow> duration"
  assumes ask_sim: "invar b \<Longrightarrow> (fst (ask now b), abs (snd (ask now b))) = spec_allow now (abs b)"
    and succeed_sim: "invar b \<Longrightarrow> abs (succeed b) = Closed 0"
    and fail_sim: "invar b \<Longrightarrow> 0 < now \<Longrightarrow> abs (fail now b) = spec_failure (limit b) (pause b) now (abs b)"
    and opened_sim: "invar b \<Longrightarrow> opened b \<longleftrightarrow> (\<forall>n. abs b \<noteq> Closed n)"
    and invar_ask: "invar b \<Longrightarrow> invar (snd (ask now b))"
    and invar_succeed: "invar b \<Longrightarrow> invar (succeed b)"
    and invar_fail: "invar b \<Longrightarrow> 0 < now \<Longrightarrow> invar (fail now b)"
    and limit_pos: "invar b \<Longrightarrow> 0 < limit b"
    and settings:
      "limit (snd (ask now b)) = limit b" "limit (succeed b) = limit b" "limit (fail now b) = limit b"
      "pause (snd (ask now b)) = pause b" "pause (succeed b) = pause b" "pause (fail now b) = pause b"
begin

fun do_event :: "'b \<Rightarrow> breaker_event \<Rightarrow> 'b" where
  "do_event b (Ask now) = snd (ask now b)"
| "do_event b Succeeded = succeed b"
| "do_event b (Failed now) = fail now b"

lemma do_event_sim:
  assumes "invar b" and "event_time_ok e"
  shows "abs (do_event b e) = spec_step (limit b) (pause b) (abs b) e \<and> invar (do_event b e) \<and>
    limit (do_event b e) = limit b \<and> pause (do_event b e) = pause b"
  using assms ask_sim [of b]
  by (cases e)
    (auto simp: settings succeed_sim fail_sim invar_ask invar_succeed invar_fail prod_eq_iff)

lemma run_sim:
  assumes "invar b" and "list_all event_time_ok es"
  shows "abs (fold (\<lambda>e s. do_event s e) es b) =
      fold (\<lambda>e c. spec_step (limit b) (pause b) c e) es (abs b) \<and>
    invar (fold (\<lambda>e s. do_event s e) es b)"
  using assms
proof (induction es arbitrary: b)
  case Nil
  then show ?case by simp
next
  case (Cons e es)
  then have "event_time_ok e" "list_all event_time_ok es" by simp_all
  with Cons.IH [of "do_event b e"] do_event_sim [OF Cons.prems(1), of e] show ?case by simp
qed

text \<open>Once a probe is out, every further request is refused until an outcome is reported.\<close>

lemma probing_refuses:
  assumes "invar b" and "abs b = Probing"
  shows "fst (ask now b) = False \<and> abs (snd (ask now b)) = Probing"
  using ask_sim [OF assms(1), of now] assms(2) by simp

lemma admitted_open_probes:
  assumes "invar b" and "opened b" and "fst (ask now b)"
  shows "abs (snd (ask now b)) = Probing"
  using ask_sim [OF assms(1), of now] assms(2,3) opened_sim [OF assms(1)]
  by (cases "abs b") (auto split: if_splits)

lemma probing_asks:
  assumes "invar b" and "abs b = Probing"
  shows "abs (fold (\<lambda>now s. snd (ask now s)) ts b) = Probing \<and>
    invar (fold (\<lambda>now s. snd (ask now s)) ts b)"
  using assms
  by (induction ts arbitrary: b) (simp_all add: probing_refuses invar_ask)

lemma failures_in_a_row:
  assumes "invar b" and "abs b = Closed n" and "list_all (\<lambda>now. 0 < now) ts"
    and "n + length ts < limit b"
  shows "abs (fold fail ts b) = Closed (n + length ts) \<and> invar (fold fail ts b) \<and>
    limit (fold fail ts b) = limit b \<and> pause (fold fail ts b) = pause b"
  using assms
proof (induction ts arbitrary: b n)
  case Nil
  then show ?case by simp
next
  case (Cons t ts)
  then have "abs (fail t b) = Closed (Suc n)" by (simp add: fail_sim)
  with Cons show ?case by (simp add: settings invar_fail)
qed

end

section \<open>The breaker implements the automaton\<close>

definition breaker_abs :: "circuitBreaker \<Rightarrow> circuit" where
  "breaker_abs b =
     (if openUntil b = 0 then Closed (nat (failures b))
      else if halfOpen b then Probing else Open (openUntil b))"

interpretation go_breaker: circuit_contract allow success failure isOpen breaker_abs breaker_inv
  "\<lambda>b. nat (threshold b)" cooldown
proof (unfold_locales, goal_cases)
  case (3 b now)
  then show ?case
    by (auto simp: breaker_abs_def failure_def breaker_inv_def Let_def nat_add_distrib)
next
  case (6 b)
  then show ?case by (rule breaker_inv_success)
next
  case (7 b now)
  then show ?case by (simp add: breaker_inv_failure)
qed (auto simp: breaker_abs_def allow_def success_def isOpen_def breaker_inv_def failure_def Let_def)

section \<open>Properties\<close>

fun breaker_step :: "circuitBreaker \<Rightarrow> breaker_event \<Rightarrow> circuitBreaker" where
  "breaker_step b (Ask now) = snd (allow now b)"
| "breaker_step b Succeeded = success b"
| "breaker_step b (Failed now) = failure now b"

lemma breaker_step_eq: "breaker_step b e = go_breaker.do_event b e"
  by (cases e) simp_all

text \<open>
  Claim C9: a fresh breaker behaves, over any sequence of admission requests, successes and
  failures, as the closed / open / probing automaton with its threshold and cooldown.
\<close>

theorem breaker_refines_automaton:
  assumes "1 \<le> th" and "1 \<le> cd" and "list_all event_time_ok es"
  shows "breaker_abs (foldl breaker_step (new_breaker th cd) es) =
    foldl (spec_step (nat th) cd) (Closed 0) es"
proof -
  have "breaker_inv (new_breaker th cd)" using assms(1,2) by (rule breaker_inv_new)
  from go_breaker.run_sim [OF this assms(3)] show ?thesis
    by (simp add: foldl_conv_fold breaker_step_eq new_breaker_def breaker_abs_def)
qed

theorem breaker_refines_automaton_witness:
  "breaker_abs (foldl breaker_step (new_breaker 2 10) [Failed 1, Failed 2, Ask 5, Ask 12, Ask 13]) = Probing"
  by (subst breaker_refines_automaton) simp_all

text \<open>
  When an open circuit admits a request after its cooldown, that request is the only
  probe: whatever the times at which others ask, all are refused until the probe's outcome is
  reported.
\<close>

lemma half_open_single_probe:
  assumes "breaker_inv b" and "isOpen b" and "fst (allow now b)"
  shows "\<not> fst (allow t (foldl (\<lambda>s t. snd (allow t s)) (snd (allow now b)) ts))"
proof -
  have "breaker_abs (snd (allow now b)) = Probing"
    using assms by (rule go_breaker.admitted_open_probes)
  with breaker_inv_allow [OF assms(1)] have "breaker_abs (foldl (\<lambda>s t. snd (allow t s)) (snd (allow now b)) ts) = Probing"
    "breaker_inv (foldl (\<lambda>s t. snd (allow t s)) (snd (allow now b)) ts)"
    using go_breaker.probing_asks [of "snd (allow now b)" ts] by (simp_all add: foldl_conv_fold)
  then show ?thesis using go_breaker.probing_refuses by blast
qed

text \<open>
  A closed circuit opens at the threshold-th failure in a row, not earlier, and stays
  shut to every request until the cooldown has passed.
\<close>

lemma opens_at_threshold:
  assumes "1 \<le> th" and "1 \<le> cd" and "list_all (\<lambda>t. 0 < t) ts" and "0 < now"
    and "length ts < nat th"
  shows "fst (allow t (foldl (\<lambda>b t. failure t b) (new_breaker th cd) ts)) \<and>
    (length ts + 1 = nat th \<longrightarrow>
      (fst (allow t (failure now (foldl (\<lambda>b t. failure t b) (new_breaker th cd) ts))) \<longleftrightarrow> now + cd \<le> t))"
proof -
  let ?b = "foldl (\<lambda>b t. failure t b) (new_breaker th cd) ts"
  have new: "breaker_inv (new_breaker th cd)" "breaker_abs (new_breaker th cd) = Closed 0"
    using assms(1,2) by (simp_all add: breaker_inv_new) (simp add: breaker_abs_def new_breaker_def)
  have b: "breaker_abs ?b = Closed (length ts)" "breaker_inv ?b" "nat (threshold ?b) = nat th" "cooldown ?b = cd"
    using go_breaker.failures_in_a_row [OF new assms(3)] assms(5)
    by (simp_all add: foldl_conv_fold new_breaker_def)
  have "fst (allow t ?b)"
    using go_breaker.ask_sim [OF b(2), of t] b(1) by simp
  moreover have "breaker_abs (failure now ?b) = Open (now + cd)" if "length ts + 1 = nat th"
    using go_breaker.fail_sim [OF b(2) assms(4)] b that by simp
  moreover have "breaker_inv (failure now ?b)" using assms(4) b(2) by (rule breaker_inv_failure)
  ultimately show ?thesis
    using go_breaker.ask_sim [of "failure now ?b" t] by (auto split: if_splits)
qed

end
