(* ===== verification/Upstream.thy ===== *)
theory Upstream imports Breaker GoText begin

text \<open>
  The upstream pool of \<^verbatim>\<open>internal/dataplane/server.go\<close>: endpoint selection (\<^verbatim>\<open>pick\<close>,
  \<^verbatim>\<open>hasHealthyEndpoint\<close>) and active health checks (\<^verbatim>\<open>checkHealth\<close>, \<^verbatim>\<open>healthLoop\<close>). The atomic
  round-robin counter keeps its 64 bits. The outcome of a probe and the clock are arguments.
\<close>

section \<open>The pool\<close>

record upstreamPool =
  pool_name :: string
  endpoints :: "url list"
  next_ctr :: u64
  requestTimeout :: duration
  healthPath :: string
  healthInterval :: duration
  retryAttempts :: int
  healthy :: "bool list"
  breakers :: "circuitBreaker list"

text \<open>
  The selection loop from \<open>index\<close> on; \<open>clock i\<close> is the time \<^verbatim>\<open>allow\<close> reads in iteration \<open>i\<close>. The
  result is the chosen index, and whether a healthy endpoint's breaker permitted it.
\<close>

function pick_from :: "(nat \<Rightarrow> time) \<Rightarrow> upstreamPool \<Rightarrow> nat \<Rightarrow> (nat \<times> bool) \<times> upstreamPool" where
  "pick_from clock u index =
     (if index < length (endpoints u) then
        let next' = next_ctr u + 1;
            u' = u\<lparr>next_ctr := next'\<rparr>;
            candidate = unat ((next' + of_nat index) mod of_nat (length (endpoints u)))
        in if healthy u ! candidate then
             (case allow (clock index) (breakers u ! candidate) of
                (True, b) \<Rightarrow> ((candidate, True), u'\<lparr>breakers := (breakers u)[candidate := b]\<rparr>)
              | (False, b) \<Rightarrow>
                  pick_from clock (u'\<lparr>breakers := (breakers u)[candidate := b]\<rparr>) (Suc index))
           else pick_from clock u' (Suc index)
      else ((0, False), u))"
  by pat_completeness auto
termination
  by (relation "measure (\<lambda>(clock, u, index). length (endpoints u) - index)") auto

declare pick_from.simps [simp del]

text \<open>With no endpoint, reading \<^verbatim>\<open>u.endpoints[0]\<close> panics: \<open>None\<close>.\<close>

definition pick :: "(nat \<Rightarrow> time) \<Rightarrow> upstreamPool \<Rightarrow> ((url \<times> nat \<times> bool) \<times> upstreamPool) option" where
  "pick clock u =
     (case pick_from clock u 0 of
        ((candidate, permitted), u') \<Rightarrow>
          if endpoints u = [] then None
          else Some ((endpoints u ! candidate, candidate, permitted), u'))"

definition hasHealthyEndpoint :: "upstreamPool \<Rightarrow> bool" where
  "hasHealthyEndpoint u \<longleftrightarrow> (\<exists>h \<in> set (healthy u). h)"

section \<open>Health checks\<close>

text \<open>What the probe of one endpoint came to: the request could not be built, failed, or was answered.\<close>

datatype probe = NoRequest | RequestFailed | Answered int

datatype gateway_event = HealthFailure | CircuitTransition | Activation

text \<open>\<open>sink\<close>: whether the pool has an event sink.\<close>

definition check_endpoint ::
  "bool \<Rightarrow> nat \<Rightarrow> probe \<Rightarrow> upstreamPool \<Rightarrow> upstreamPool \<times> gateway_event list" where
  "check_endpoint sink index pr u =
     (case pr of
        Answered status \<Rightarrow>
          (let ok = (200 \<le> status \<and> status < 400);
               u1 = u\<lparr>healthy := (healthy u)[index := ok]\<rparr>;
               ev = (if \<not> ok \<and> sink then [HealthFailure] else [])
           in (if ok then u1\<lparr>breakers := (breakers u1)[index := success (breakers u1 ! index)]\<rparr> else u1,
               ev))
      | RequestFailed \<Rightarrow>
          (u\<lparr>healthy := (healthy u)[index := False]\<rparr>, if sink then [HealthFailure] else [])
      | NoRequest \<Rightarrow>
          (u\<lparr>healthy := (healthy u)[index := False]\<rparr>, if sink then [HealthFailure] else []))"

fun check_from ::
  "bool \<Rightarrow> nat \<Rightarrow> probe list \<Rightarrow> upstreamPool \<Rightarrow> upstreamPool \<times> gateway_event list" where
  "check_from sink index [] u = (u, [])"
| "check_from sink index (pr # prs) u =
     (case check_endpoint sink index pr u of
        (u1, ev1) \<Rightarrow> (case check_from sink (Suc index) prs u1 of (u2, ev2) \<Rightarrow> (u2, ev1 @ ev2)))"

text \<open>One round over the endpoints, one probe outcome each.\<close>

definition checkHealth :: "bool \<Rightarrow> probe list \<Rightarrow> upstreamPool \<Rightarrow> upstreamPool \<times> gateway_event list" where
  "checkHealth sink prs u = check_from sink 0 prs u"

text \<open>
  The loop of \<^verbatim>\<open>healthLoop\<close>: a round at once, then one per tick until the context is done. The
  list says which of the two the \<^verbatim>\<open>select\<close> took, round after round.
\<close>

datatype loop_signal = Tick "probe list" | Done

fun health_ticks :: "bool \<Rightarrow> loop_signal list \<Rightarrow> upstreamPool \<Rightarrow> upstreamPool \<times> gateway_event list" where
  "health_ticks sink [] u = (u, [])"
| "health_ticks sink (Done # ss) u = (u, [])"
| "health_ticks sink (Tick prs # ss) u =
     (case checkHealth sink prs u of
        (u1, ev1) \<Rightarrow> (case health_ticks sink ss u1 of (u2, ev2) \<Rightarrow> (u2, ev1 @ ev2)))"

definition healthLoop ::
  "bool \<Rightarrow> probe list \<Rightarrow> loop_signal list \<Rightarrow> upstreamPool \<Rightarrow> upstreamPool \<times> gateway_event list" where
  "healthLoop sink first ss u =
     (case checkHealth sink first u of
        (u1, ev1) \<Rightarrow> (case health_ticks sink ss u1 of (u2, ev2) \<Rightarrow> (u2, ev1 @ ev2)))"

section \<open>The pool invariant\<close>

definition pool_inv :: "upstreamPool \<Rightarrow> bool" where
  "pool_inv u \<longleftrightarrow>
     endpoints u \<noteq> [] \<and> length (endpoints u) < 2 ^ 64 \<and>
     length (healthy u) = length (endpoints u) \<and> length (breakers u) = length (endpoints u) \<and>
     list_all breaker_inv (breakers u)"

lemma pool_inv_ctr [simp]: "pool_inv (u\<lparr>next_ctr := k\<rparr>) = pool_inv u"
  by (simp add: pool_inv_def)

lemma pool_inv_breaker [inv_intros]:
  "pool_inv u \<Longrightarrow> breaker_inv b \<Longrightarrow> pool_inv (u\<lparr>breakers := (breakers u)[i := b]\<rparr>)"
  by (simp add: pool_inv_def list_all_update)

lemma pool_inv_healthy [inv_intros]:
  "pool_inv u \<Longrightarrow> pool_inv (u\<lparr>healthy := (healthy u)[i := h]\<rparr>)"
  by (simp add: pool_inv_def)

lemma pool_inv_nth: "pool_inv u \<Longrightarrow> i < length (endpoints u) \<Longrightarrow> breaker_inv (breakers u ! i)"
  by (auto simp: pool_inv_def list_all_length)

section \<open>What the selection loop computes\<close>

text \<open>
  The candidate of iteration \<open>i\<close> when the counter stood at \<open>k\<close> before the loop: the loop adds to
  the counter and adds the index as well, so it moves on by two.
\<close>

definition candidate :: "u64 \<Rightarrow> nat \<Rightarrow> nat \<Rightarrow> nat" where
  "candidate k n i = unat ((k + 1 + 2 * of_nat i) mod of_nat n)"

definition available :: "time \<Rightarrow> upstreamPool \<Rightarrow> nat \<Rightarrow> bool" where
  "available now u c \<longleftrightarrow> healthy u ! c \<and> fst (allow now (breakers u ! c))"

text \<open>The first available candidate, in loop order.\<close>

definition chosen :: "(nat \<Rightarrow> time) \<Rightarrow> upstreamPool \<Rightarrow> u64 \<Rightarrow> nat \<Rightarrow> nat option" where
  "chosen clock u k index =
     find (\<lambda>i. available (clock i) u (candidate k (length (endpoints u)) i))
       [index..<length (endpoints u)]"

lemma candidate_less:
  assumes "0 < n" and "n < 2 ^ 64"
  shows "candidate k n i < n"
  using assms by (simp add: candidate_def unat_mod_distrib unat_of_nat)

lemma allow_refused: "allow now b = (False, b') \<Longrightarrow> b' = b"
  by (auto simp: allow_def split: if_splits)

lemma upt_rec_less: "i < n \<Longrightarrow> [i..<n] = i # [Suc i..<n]"
  by (simp add: upt_rec)

lemma candidate_step: "candidate (k - of_nat i) n i = unat ((k + 1 + of_nat i) mod of_nat n)"
  by (simp add: candidate_def algebra_simps)

lemma pick_from_step:
  assumes "index < length (endpoints u)"
    and c: "c = candidate (next_ctr u - of_nat index) (length (endpoints u)) index"
  shows "pick_from clock u index =
    (if available (clock index) u c
     then ((c, True), u\<lparr>next_ctr := next_ctr u + 1,
       breakers := (breakers u)[c := snd (allow (clock index) (breakers u ! c))]\<rparr>)
     else pick_from clock (u\<lparr>next_ctr := next_ctr u + 1\<rparr>) (Suc index))"
proof -
  have cand: "unat ((next_ctr u + 1 + of_nat index) mod of_nat (length (endpoints u))) = c"
    unfolding c candidate_step ..
  have *: "pick_from clock u index =
     (if healthy u ! c then
        (case allow (clock index) (breakers u ! c) of
           (True, b) \<Rightarrow> ((c, True), u\<lparr>next_ctr := next_ctr u + 1, breakers := (breakers u)[c := b]\<rparr>)
         | (False, b) \<Rightarrow>
             pick_from clock (u\<lparr>next_ctr := next_ctr u + 1, breakers := (breakers u)[c := b]\<rparr>) (Suc index))
      else pick_from clock (u\<lparr>next_ctr := next_ctr u + 1\<rparr>) (Suc index))"
    unfolding pick_from.simps [of clock u index] Let_def cand using assms(1) by simp
  obtain p b where pb: "allow (clock index) (breakers u ! c) = (p, b)"
    by fastforce
  then have "\<not> p \<Longrightarrow> b = breakers u ! c" by (auto dest: allow_refused)
  with pb show ?thesis
    unfolding * available_def by (cases p) auto
qed

lemma pick_from_spec:
  assumes "k = next_ctr u - of_nat index" and "index \<le> length (endpoints u)"
  shows "pick_from clock u index =
    (case chosen clock u k index of
       None \<Rightarrow> ((0, False), u\<lparr>next_ctr := k + of_nat (length (endpoints u))\<rparr>)
     | Some i \<Rightarrow>
         let c = candidate k (length (endpoints u)) i in
         ((c, True), u\<lparr>next_ctr := k + of_nat (Suc i),
            breakers := (breakers u)[c := snd (allow (clock i) (breakers u ! c))]\<rparr>))"
  using assms
proof (induction "length (endpoints u) - index" arbitrary: u index)
  case 0
  then show ?case
    by (simp add: pick_from.simps chosen_def)
next
  case (Suc m)
  let ?u = "u\<lparr>next_ctr := next_ctr u + 1\<rparr>"
  let ?c = "candidate k (length (endpoints u)) index"
  from Suc.hyps(2) have index: "index < length (endpoints u)" by simp
  have ctr: "next_ctr u + 1 = k + of_nat (Suc index)"
    using Suc.prems(1) by simp
  have sub: "chosen clock ?u k (Suc index) = chosen clock u k (Suc index)"
    by (simp add: chosen_def available_def)
  have here: "chosen clock u k index =
      (if available (clock index) u ?c then Some index else chosen clock u k (Suc index))"
    using index by (simp add: chosen_def upt_rec_less)
  have step: "pick_from clock u index =
    (if available (clock index) u ?c
     then ((?c, True), ?u\<lparr>breakers := (breakers u)[?c := snd (allow (clock index) (breakers u ! ?c))]\<rparr>)
     else pick_from clock ?u (Suc index))"
    using pick_from_step [OF index, of ?c clock] Suc.prems(1) by simp
  show ?case
  proof (cases "available (clock index) u ?c")
    case True
    then show ?thesis unfolding step here ctr by (simp add: Let_def)
  next
    case False
    have "pick_from clock ?u (Suc index) =
      (case chosen clock u k (Suc index) of
         None \<Rightarrow> ((0, False), u\<lparr>next_ctr := k + of_nat (length (endpoints u))\<rparr>)
       | Some i \<Rightarrow>
           let c = candidate k (length (endpoints u)) i in
           ((c, True), u\<lparr>next_ctr := k + of_nat (Suc i),
              breakers := (breakers u)[c := snd (allow (clock i) (breakers u ! c))]\<rparr>))"
      unfolding sub [symmetric] using Suc.hyps(2) Suc.prems index
      by (subst Suc.hyps(1)) (auto simp: Let_def split: option.split)
    with False show ?thesis unfolding step here by simp
  qed
qed

section \<open>Facts about a selection\<close>

lemmas pick_from_0 = pick_from_spec [where index = 0, simplified, OF refl]

lemma pick_eq:
  assumes "endpoints u \<noteq> []"
  shows "pick clock u = Some
    (case chosen clock u (next_ctr u) 0 of
       None \<Rightarrow> ((endpoints u ! 0, 0, False),
         u\<lparr>next_ctr := next_ctr u + of_nat (length (endpoints u))\<rparr>)
     | Some i \<Rightarrow>
         let c = candidate (next_ctr u) (length (endpoints u)) i in
         ((endpoints u ! c, c, True), u\<lparr>next_ctr := next_ctr u + of_nat (Suc i),
            breakers := (breakers u)[c := snd (allow (clock i) (breakers u ! c))]\<rparr>))"
  using assms by (simp add: pick_def pick_from_0 Let_def split: option.split)

lemma chosen_SomeD:
  assumes "chosen clock u k index = Some i"
  shows "index \<le> i \<and> i < length (endpoints u) \<and>
    available (clock i) u (candidate k (length (endpoints u)) i)"
  using assms by (auto simp: chosen_def find_Some_iff nth_append)

lemma chosen_None:
  "chosen clock u k 0 = None \<longleftrightarrow>
     (\<forall>i < length (endpoints u). \<not> available (clock i) u (candidate k (length (endpoints u)) i))"
  by (auto simp: chosen_def find_None_iff)

lemma pick_inv:
  assumes "pool_inv u" and "pick clock u = Some (r, u')"
  shows "pool_inv u' \<and> endpoints u' = endpoints u \<and> healthy u' = healthy u"
proof (cases "chosen clock u (next_ctr u) 0")
  case None
  with assms show ?thesis by (auto simp: pick_eq pool_inv_def)
next
  case (Some i)
  let ?c = "candidate (next_ctr u) (length (endpoints u)) i"
  have "?c < length (endpoints u)"
    using assms(1) by (intro candidate_less) (auto simp: pool_inv_def)
  then have "breaker_inv (snd (allow (clock i) (breakers u ! ?c)))"
    using assms(1) by (intro breaker_inv_allow pool_inv_nth)
  with Some assms show ?thesis
    by (auto simp: pick_eq Let_def pool_inv_def list_all_update)
qed

subsection \<open>Which endpoints the loop can reach\<close>

lemma candidate_parity:
  assumes "even n" and "0 < n" and "n < 2 ^ 64"
  shows "even (candidate k n i) \<longleftrightarrow> odd (unat k)"
proof -
  have "2 * (of_nat i :: u64) = of_nat (2 * i)" by simp
  then have "unat (k + 1 + 2 * of_nat i :: u64) = (unat k + 1 + 2 * i) mod 2 ^ 64"
    by (simp add: unat_word_ariths unat_of_nat mod_simps)
  moreover have "unat (of_nat n :: u64) = n"
    using assms(3) by (simp add: unat_of_nat)
  ultimately have "candidate k n i = ((unat k + 1 + 2 * i) mod 2 ^ 64) mod n"
    by (simp add: candidate_def unat_mod_distrib)
  moreover have "even (m mod n) = even m" for m
    using assms(1) by (metis dvd_mod_iff)
  moreover have "even (m mod 2 ^ 64) = even (m :: nat)" for m
    by (metis dvd_mod_iff dvd_power zero_less_numeral)
  ultimately show ?thesis by simp
qed

lemma candidate_no_wrap:
  assumes "unat k + 2 * n < 2 ^ 64" and "i < n"
  shows "candidate k n i = (unat k + 1 + 2 * i) mod n"
proof -
  have "2 * (of_nat i :: u64) = of_nat (2 * i)" by simp
  then have "unat (k + 1 + 2 * of_nat i :: u64) = (unat k + 1 + 2 * i) mod 2 ^ 64"
    by (simp add: unat_word_ariths unat_of_nat mod_simps)
  with assms have "unat (k + 1 + 2 * of_nat i :: u64) = unat k + 1 + 2 * i" by simp
  moreover have "unat (of_nat n :: u64) = n" using assms by (simp add: unat_of_nat)
  ultimately show ?thesis by (simp add: candidate_def unat_mod_distrib)
qed

lemma odd_covers:
  assumes "odd n" and "c < n"
  shows "\<exists>i < n. (a + 2 * i) mod n = (c :: nat)"
proof -
  define d where "d = c + (n - a mod n)"
  define i where "i = (d * ((n + 1) div 2)) mod n"
  have "2 * ((n + 1) div 2) = n + 1" using assms(1) by simp
  then have "(2 * i) mod n = (d * (n + 1)) mod n"
    unfolding i_def by (metis mod_mult_right_eq mult.left_commute)
  also have "\<dots> = d mod n" by (simp add: distrib_left)
  finally have "(a + 2 * i) mod n = (a + d) mod n" by (metis mod_add_right_eq)
  also have "\<dots> = (a mod n + c + (n - a mod n)) mod n"
    by (simp add: d_def mod_add_left_eq [symmetric, of a] add.assoc)
  also have "a mod n + c + (n - a mod n) = c + n"
    using assms by simp
  finally show ?thesis using assms by (intro exI [of _ i]) (auto simp: i_def)
qed

lemma unavailable_if_unhealthy: "\<not> healthy u ! c \<Longrightarrow> \<not> available now u c"
  by (simp add: available_def)

section \<open>Facts about a round of health checks\<close>

definition probe_ok :: "probe \<Rightarrow> bool" where
  "probe_ok pr = (case pr of Answered status \<Rightarrow> 200 \<le> status \<and> status < 400 | _ \<Rightarrow> False)"

lemma check_endpoint_eq:
  "check_endpoint sink i pr u =
     (u\<lparr>healthy := (healthy u)[i := probe_ok pr],
        breakers := (if probe_ok pr then (breakers u)[i := success (breakers u ! i)] else breakers u)\<rparr>,
      if probe_ok pr \<or> \<not> sink then [] else [HealthFailure])"
  by (auto simp: check_endpoint_def probe_ok_def Let_def split: probe.split)

lemma check_from_fields:
  assumes "check_from sink index prs u = (u', ev)"
    and "index + length prs \<le> length (healthy u)" and "length (breakers u) = length (healthy u)"
  shows "length (healthy u') = length (healthy u) \<and> length (breakers u') = length (breakers u) \<and>
    endpoints u' = endpoints u \<and> next_ctr u' = next_ctr u \<and>
    (\<forall>i < length (healthy u). healthy u' ! i =
       (if index \<le> i \<and> i < index + length prs then probe_ok (prs ! (i - index)) else healthy u ! i)) \<and>
    (\<forall>i < length (breakers u). breakers u' ! i =
       (if index \<le> i \<and> i < index + length prs \<and> probe_ok (prs ! (i - index))
        then success (breakers u ! i) else breakers u ! i)) \<and>
    ev = (if sink then replicate (length (filter (\<lambda>pr. \<not> probe_ok pr) prs)) HealthFailure else [])"
  using assms
proof (induction prs arbitrary: index u ev)
  case Nil
  then show ?case by auto
next
  case (Cons pr prs)
  obtain u1 ev1 where one: "check_endpoint sink index pr u = (u1, ev1)" by fastforce
  obtain u2 ev2 where rest: "check_from sink (Suc index) prs u1 = (u2, ev2)" by fastforce
  from one rest Cons.prems(1) have out: "u' = u2" "ev = ev1 @ ev2" by simp_all
  have u1: "u1 = fst (check_endpoint sink index pr u)" "ev1 = snd (check_endpoint sink index pr u)"
    using one by simp_all
  have "Suc index + length prs \<le> length (healthy u1)" "length (breakers u1) = length (healthy u1)"
    using Cons.prems(2,3) by (simp_all add: u1 check_endpoint_eq)
  note IH = Cons.IH [OF rest [folded out(1)] this]
  have nth: "(pr # prs) ! (i - index) = (if i = index then pr else prs ! (i - Suc index))"
    if "index \<le> i" for i using that by (auto simp: nth_Cons')
  show ?case
    using IH Cons.prems(2,3) unfolding out
    by (auto simp: u1 check_endpoint_eq nth nth_list_update replicate_append_same split: if_splits)
qed

lemma check_endpoint_inv:
  assumes "pool_inv u" and "check_endpoint sink i pr u = (u', ev)" and "i < length (endpoints u)"
  shows "pool_inv u'"
  using assms pool_inv_nth [OF assms(1,3)]
  by (auto simp: check_endpoint_eq pool_inv_def list_all_update breaker_inv_success)

section \<open>Properties\<close>

text \<open>Pools on which the witnesses evaluate: one endpoint per entry of the list.\<close>

definition sample_url :: url where
  "sample_url = \<lparr>Scheme = ''http'', Host = ''10.0.0.1:80'', Path = [], RawPath = [], RawQuery = []\<rparr>"

definition sample_pool :: "bool list \<Rightarrow> u64 \<Rightarrow> upstreamPool" where
  "sample_pool hs k =
     \<lparr>pool_name = ''api'', endpoints = map (\<lambda>_. sample_url) hs, next_ctr = k, requestTimeout = 30 * second,
      healthPath = ''/healthz'', healthInterval = 10 * second, retryAttempts = 0, healthy = hs,
      breakers = map (\<lambda>_. new_breaker 5 (10 * second)) hs\<rparr>"

lemma sample_pool_inv: "hs \<noteq> [] \<Longrightarrow> length hs < 2 ^ 64 \<Longrightarrow> pool_inv (sample_pool hs k)"
  by (simp add: pool_inv_def sample_pool_def list_all_length breaker_inv_new second_def)

lemma sample_pool_fields [simp]:
  "length (endpoints (sample_pool hs k)) = length hs" "healthy (sample_pool hs k) = hs"
  "next_ctr (sample_pool hs k) = k"
  "i < length hs \<Longrightarrow> fst (allow now (breakers (sample_pool hs k) ! i))"
  by (simp_all add: sample_pool_def allow_def new_breaker_def)

text \<open>What a permitted choice is.\<close>

lemma pick_permitted:
  assumes "pool_inv u" and "pick clock u = Some ((target, c, True), u')"
  shows "c < length (endpoints u) \<and> target = endpoints u ! c \<and> healthy u ! c \<and>
    (\<exists>i < length (endpoints u). fst (allow (clock i) (breakers u ! c)) \<and>
      breakers u' = (breakers u)[c := snd (allow (clock i) (breakers u ! c))]) \<and>
    healthy u' = healthy u \<and> endpoints u' = endpoints u \<and> pool_inv u'"
proof -
  have n: "endpoints u \<noteq> []" "length (endpoints u) < 2 ^ 64" using assms(1) by (simp_all add: pool_inv_def)
  with assms(2) obtain i where i: "chosen clock u (next_ctr u) 0 = Some i"
    and c: "c = candidate (next_ctr u) (length (endpoints u)) i" "target = endpoints u ! c"
    and u': "breakers u' = (breakers u)[c := snd (allow (clock i) (breakers u ! c))]"
    by (auto simp: pick_eq Let_def split: option.splits)
  have "c < length (endpoints u)" unfolding c(1) using n by (intro candidate_less) auto
  with chosen_SomeD [OF i] c u' pick_inv [OF assms] show ?thesis
    by (auto simp: available_def)
qed

text \<open>
  Claim C25: a permitted choice is an endpoint of the pool that is marked healthy and whose breaker
  admitted the request at the time of its iteration; the selection changes no other breaker, no
  health mark and no endpoint, and keeps the pool's invariant.
\<close>

theorem pick_permitted_sound:
  assumes "pool_inv u" and "pick clock u = Some ((target, c, True), u')"
  shows "c < length (endpoints u) \<and> target = endpoints u ! c \<and> healthy u ! c \<and>
    (\<exists>i < length (endpoints u). fst (allow (clock i) (breakers u ! c)) \<and>
      breakers u' = (breakers u)[c := snd (allow (clock i) (breakers u ! c))]) \<and>
    healthy u' = healthy u \<and> endpoints u' = endpoints u \<and> pool_inv u'"
  using pick_permitted [OF assms] .

lemma pick_sample: "\<exists>u'. pick (\<lambda>_. 7) (sample_pool [False, True] 0) = Some ((sample_url, 1, True), u')"
  by (simp add: pick_def pick_from.simps sample_pool_def Let_def allow_def new_breaker_def)

theorem pick_permitted_sound_witness:
  "\<exists>u'. pick (\<lambda>_. 7) (sample_pool [False, True] 0) = Some ((sample_url, 1, True), u') \<and> pool_inv u'"
proof -
  obtain u' where u': "pick (\<lambda>_. 7) (sample_pool [False, True] 0) = Some ((sample_url, 1, True), u')"
    using pick_sample by blast
  have "pool_inv (sample_pool [False, True] 0)" by (rule sample_pool_inv) simp_all
  from pick_permitted_sound [OF this u'] u' show ?thesis by blast
qed

text \<open>
  Claim C26: in a pool with an odd number of endpoints, a selection that runs alone (\<open>pick\<close> as one step: no
  other selection moves the shared counter between its iterations) and during which the 64-bit counter
  does not wrap around finds a permitted endpoint whenever there is one: an endpoint that is healthy
  and whose breaker admits requests at all times at which the selection asks. Both conditions are
  needed: \<open>wrapping_selection_misses\<close> below, and for selections that interleave
  \<open>contending_selections_miss\<close> in the theory \<^verbatim>\<open>Contention\<close>, where an odd pool's only healthy endpoint is
  missed.
\<close>

theorem pick_complete_odd:
  assumes "pool_inv u" and "odd (length (endpoints u))"
    and "unat (next_ctr u) + 2 * length (endpoints u) < 2 ^ 64"
    and "c < length (endpoints u)" and "healthy u ! c" and "\<And>i. fst (allow (clock i) (breakers u ! c))"
  shows "\<exists>target c' u'. pick clock u = Some ((target, c', True), u')"
proof -
  let ?n = "length (endpoints u)"
  obtain i where i: "i < ?n" "(unat (next_ctr u) + 1 + 2 * i) mod ?n = c"
    using odd_covers [OF assms(2,4)] by blast
  then have "candidate (next_ctr u) ?n i = c" using assms(3) by (simp add: candidate_no_wrap)
  then have "available (clock i) u (candidate (next_ctr u) ?n i)"
    using assms(5,6) by (simp add: available_def)
  then have "chosen clock u (next_ctr u) 0 \<noteq> None" using i(1) unfolding chosen_None by blast
  then show ?thesis using assms(1) by (auto simp: pick_eq pool_inv_def Let_def)
qed

theorem pick_complete_odd_witness:
  "\<exists>target c' u'. pick (\<lambda>_. 7) (sample_pool [False, False, True] 3) = Some ((target, c', True), u')"
  by (rule pick_complete_odd [where c = 2]) (simp_all add: sample_pool_inv)

text \<open>When the counter wraps around within a selection, an odd pool's only healthy endpoint can be missed.\<close>

lemma wrapping_selection_misses:
  "\<exists>u'. pick (\<lambda>_. 7) (sample_pool [False, False, True] (- 2)) = Some ((sample_url, 0, False), u')"
proof -
  have "map_option fst (pick (\<lambda>_. 7) (sample_pool [False, False, True] (- 2))) = Some (sample_url, 0, False)"
    by code_simp
  then show ?thesis by auto
qed

text \<open>
  Claim C27: in a pool with an even number of endpoints, one selection looks at every second
  endpoint only, and a selection that fails leaves the counter's parity as it was. So when the
  endpoints of one parity are unhealthy, the selection can fail for every request from then on,
  however many endpoints of the other parity are healthy.
\<close>

theorem pick_even_starves:
  assumes "pool_inv u" and "even (length (endpoints u))"
    and "\<And>c. c < length (endpoints u) \<Longrightarrow> even c \<longleftrightarrow> odd (unat (next_ctr u)) \<Longrightarrow> \<not> healthy u ! c"
  shows "\<exists>u'. foldl (\<lambda>s clock. Option.bind s (\<lambda>u. map_option snd (pick clock u))) (Some u) clocks = Some u' \<and>
    (\<exists>u''. pick clock u' = Some ((endpoints u ! 0, 0, False), u''))"
proof -
  define stuck where "stuck = (\<lambda>v. pool_inv v \<and> endpoints v = endpoints u \<and> healthy v = healthy u \<and>
    (even (unat (next_ctr v)) \<longleftrightarrow> even (unat (next_ctr u))))"
  have one: "\<exists>v'. pick clock v = Some ((endpoints u ! 0, 0, False), v') \<and> stuck v'" if v: "stuck v" for v clock
  proof -
    let ?n = "length (endpoints u)"
    have n: "0 < ?n" "?n < 2 ^ 64" using assms(1) by (simp_all add: pool_inv_def)
    have "\<not> healthy v ! candidate (next_ctr v) ?n i" for i
      using assms(3) [of "candidate (next_ctr v) ?n i"] candidate_less [OF n]
        candidate_parity [OF assms(2) n] v by (auto simp: stuck_def)
    then have none: "chosen clock v (next_ctr v) 0 = None"
      using v unfolding chosen_None by (auto simp: stuck_def available_def)
    have "unat (next_ctr v + of_nat ?n) = (unat (next_ctr v) + ?n) mod 2 ^ 64"
      using n(2) by (simp add: unat_word_ariths unat_of_nat)
    moreover have "even (m mod 2 ^ 64) = even (m :: nat)" for m
      by (metis dvd_mod_iff dvd_power zero_less_numeral)
    ultimately have "even (unat (next_ctr v + of_nat ?n)) = even (unat (next_ctr v))"
      using assms(2) by simp
    with v none n show ?thesis
      by (auto simp: pick_eq stuck_def pool_inv_def)
  qed
  have "\<exists>v. foldl (\<lambda>s clock. Option.bind s (\<lambda>u. map_option snd (pick clock u))) (Some w) clocks = Some v \<and> stuck v"
    if "stuck w" for w
    using that
  proof (induction clocks arbitrary: w)
    case Nil
    then show ?case by simp
  next
    case (Cons clock clocks)
    from one [OF Cons.prems, of clock] obtain w' where
      "pick clock w = Some ((endpoints u ! 0, 0, False), w')" "stuck w'" by blast
    with Cons.IH [OF this(2)] show ?case by simp
  qed
  moreover have "stuck u" using assms(1) by (simp add: stuck_def)
  ultimately show ?thesis using one by blast
qed

theorem pick_even_starves_witness:
  "\<exists>u'. foldl (\<lambda>s clock. Option.bind s (\<lambda>u. map_option snd (pick clock u)))
      (Some (sample_pool [False, True] 1)) [\<lambda>_. 7, \<lambda>_. 8] = Some u' \<and>
    (\<exists>u''. pick (\<lambda>_. 9) u' = Some ((sample_url, 0, False), u''))"
proof -
  have "endpoints (sample_pool [False, True] 1) ! 0 = sample_url" by (simp add: sample_pool_def)
  moreover have "\<not> [False, True] ! c" if "c < 2" "even c" for c :: nat
    using that by (cases c) auto
  ultimately show ?thesis
    using pick_even_starves [of "sample_pool [False, True] 1" "[\<lambda>_. 7, \<lambda>_. 8]" "\<lambda>_. 9"]
    by (simp add: sample_pool_inv)
qed

lemma checkHealth_spec:
  assumes "pool_inv u" and "length prs = length (endpoints u)" and "checkHealth sink prs u = (u', ev)"
  shows "pool_inv u' \<and> healthy u' = map probe_ok prs \<and>
    breakers u' = map2 (\<lambda>pr b. if probe_ok pr then success b else b) prs (breakers u) \<and>
    next_ctr u' = next_ctr u \<and> endpoints u' = endpoints u \<and>
    ev = (if sink then replicate (length (filter (\<lambda>pr. \<not> probe_ok pr) prs)) HealthFailure else [])"
proof -
  have len: "length prs = length (healthy u)" "length (breakers u) = length (healthy u)"
    using assms(1,2) by (simp_all add: pool_inv_def)
  note f = check_from_fields [OF assms(3) [unfolded checkHealth_def] _ len(2)]
  have h: "healthy u' = map probe_ok prs"
    using f len by (intro nth_equalityI) auto
  have b: "breakers u' = map2 (\<lambda>pr b. if probe_ok pr then success b else b) prs (breakers u)"
    using f len by (intro nth_equalityI) auto
  have "list_all breaker_inv (breakers u')"
    using assms(1) len by (auto simp: b pool_inv_def list_all_length breaker_inv_success)
  with f h b len assms(1) show ?thesis by (auto simp: pool_inv_def)
qed

text \<open>
  A round of health checks marks each endpoint healthy exactly when its probe was
  answered with a status from 200 to 399, closes the breakers of those endpoints and of no other,
  leaves the round-robin counter alone, and reports one failure event per endpoint that is not
  healthy.
\<close>

lemma checkHealth_correct:
  assumes "pool_inv u" and "length prs = length (endpoints u)" and "checkHealth sink prs u = (u', ev)"
  shows "pool_inv u' \<and> healthy u' = map probe_ok prs \<and>
    breakers u' = map2 (\<lambda>pr b. if probe_ok pr then success b else b) prs (breakers u) \<and>
    next_ctr u' = next_ctr u \<and> endpoints u' = endpoints u \<and>
    ev = (if sink then replicate (length (filter (\<lambda>pr. \<not> probe_ok pr) prs)) HealthFailure else [])"
  using assms by (rule checkHealth_spec)

end
