(* ===== verification/Strconv.thy ===== *)
theory Strconv imports GoText begin

text \<open>
  What the program uses of \<^verbatim>\<open>strconv\<close>: decimal \<^verbatim>\<open>FormatInt\<close> and \<^verbatim>\<open>ParseInt\<close> at 64 bits, with
  the round trip of numbers through their decimal form.
\<close>

definition digit :: "nat \<Rightarrow> char" where
  "digit n = char_of (48 + n)"

fun nat_digits :: "nat \<Rightarrow> string" where
  "nat_digits n = (if n < 10 then [digit n] else nat_digits (n div 10) @ [digit (n mod 10)])"

declare nat_digits.simps [simp del]

definition FormatInt :: "int \<Rightarrow> string" where
  "FormatInt i = (if i < 0 then ''-'' @ nat_digits (nat (- i)) else nat_digits (nat i))"

definition digits_value :: "string \<Rightarrow> nat" where
  "digits_value s = foldl (\<lambda>n c. 10 * n + (code c - 48)) 0 s"

text \<open>\<^verbatim>\<open>ParseInt(s, 10, 64)\<close>; \<open>None\<close> is a syntax or range error.\<close>

definition ParseInt :: "string \<Rightarrow> int option" where
  "ParseInt s =
     (let neg = has_prefix s ''-'';
          ds = (if has_prefix s ''-'' \<or> has_prefix s ''+'' then drop 1 s else s)
      in if ds = [] \<or> \<not> list_all is_digit ds then None
         else
           let v = int (digits_value ds) in
           if neg then (if v \<le> 2 ^ 63 then Some (- v) else None)
           else (if v < 2 ^ 63 then Some v else None))"

section \<open>The round trip\<close>

lemma code_digit: "n < 10 \<Longrightarrow> code (digit n) = 48 + n"
  by (simp add: digit_def)

lemma nat_digits_facts: "nat_digits n \<noteq> [] \<and> list_all is_digit (nat_digits n)"
proof (induction n rule: nat_digits.induct)
  case (1 n)
  have "is_digit (digit k)" if "k < 10" for k using that by (simp add: is_digit_def code_digit)
  with 1 show ?case by (auto simp: nat_digits.simps [of n])
qed

lemma digits_value_digits [simp]: "digits_value (nat_digits n) = n"
proof (induction n rule: nat_digits.induct)
  case (1 n)
  show ?case
  proof (cases "n < 10")
    case True
    then show ?thesis by (simp add: nat_digits.simps [of n] digits_value_def code_digit)
  next
    case False
    have "digits_value (s @ [c]) = 10 * digits_value s + (code c - 48)" for s c
      by (simp add: digits_value_def)
    with False 1 show ?thesis by (simp add: nat_digits.simps [of n] code_digit)
  qed
qed

lemma digits_unsigned:
  assumes "list_all is_digit s"
  shows "\<not> has_prefix s ''-''" "\<not> has_prefix s ''+''"
  using assms by (cases s; auto simp: is_digit_def code_def)+

lemma ParseInt_FormatInt:
  assumes "- (2 ^ 63) \<le> i" and "i < 2 ^ 63"
  shows "ParseInt (FormatInt i) = Some i"
proof (cases "i < 0")
  case True
  then have "ParseInt (FormatInt i) = (if int (nat (- i)) \<le> 2 ^ 63 then Some (- int (nat (- i))) else None)"
    using nat_digits_facts [of "nat (- i)"] by (simp add: ParseInt_def FormatInt_def Let_def)
  with True assms show ?thesis by simp
next
  case False
  note d = nat_digits_facts [of "nat i"]
  from False digits_unsigned [of "nat_digits (nat i)"] d
  have "ParseInt (FormatInt i) = (if int (nat i) < 2 ^ 63 then Some (int (nat i)) else None)"
    by (simp add: ParseInt_def FormatInt_def Let_def)
  with False assms show ?thesis by simp
qed

text \<open>A number's text has neither white space nor quotes at its ends.\<close>

lemma FormatInt_chars:
  assumes "c \<in> set (FormatInt i)"
  shows "is_digit c \<or> c = CHR ''-''"
  using assms nat_digits_facts by (auto simp: FormatInt_def list_all_iff split: if_splits)

lemma FormatInt_nonempty [simp]: "FormatInt i \<noteq> []"
  using nat_digits_facts by (simp add: FormatInt_def)

lemma FormatInt_free:
  assumes "d \<in> set ascii_space \<or> d = CHR 0x22"
  shows "d \<notin> set (FormatInt i)"
proof
  assume "d \<in> set (FormatInt i)"
  from FormatInt_chars [OF this] assms show False
    by (auto simp: ascii_space_def is_digit_def code_def)
qed

end
