(* ===== verification/Quote.thy ===== *)
theory Quote imports Strconv begin

text \<open>
  The verb \<^verbatim>\<open>%q\<close> of \<^verbatim>\<open>fmt\<close>, that is \<^verbatim>\<open>strconv.Quote\<close>: UTF-8 decoding, escapes, and the fact that a
  quoted text ends at its closing quote and stays on one line, whatever bytes it is made of.
\<close>

section \<open>Runes\<close>

definition byte_in :: "string \<Rightarrow> nat \<Rightarrow> nat \<Rightarrow> nat \<Rightarrow> bool" where
  "byte_in s i lo hi \<longleftrightarrow> i < length s \<and> lo \<le> code (s ! i) \<and> code (s ! i) \<le> hi"

text \<open>
  \<^verbatim>\<open>utf8.DecodeRuneInString\<close> on a text that is not empty: the first rune and its width in bytes;
  the rune 65533 with width 1 stands for an invalid encoding.
\<close>

definition decode_rune :: "string \<Rightarrow> nat \<times> nat" where
  "decode_rune s =
     (let b = (\<lambda>i. code (s ! i)) in
      if b 0 < 128 then (b 0, 1)
      else if byte_in s 0 194 223 \<and> byte_in s 1 128 191
        then ((b 0 - 192) * 64 + (b 1 - 128), 2)
      else if byte_in s 0 224 239 \<and> byte_in s 2 128 191 \<and>
          byte_in s 1 (if b 0 = 224 then 160 else 128) (if b 0 = 237 then 159 else 191)
        then ((b 0 - 224) * 4096 + (b 1 - 128) * 64 + (b 2 - 128), 3)
      else if byte_in s 0 240 244 \<and> byte_in s 2 128 191 \<and> byte_in s 3 128 191 \<and>
          byte_in s 1 (if b 0 = 240 then 144 else 128) (if b 0 = 244 then 143 else 191)
        then ((b 0 - 240) * 262144 + (b 1 - 128) * 4096 + (b 2 - 128) * 64 + (b 3 - 128), 4)
      else (65533, 1))"

lemma decode_rune_width: "snd (decode_rune s) \<noteq> 0"
  by (simp add: decode_rune_def Let_def)

text \<open>\<^verbatim>\<open>utf8.ValidString\<close>.\<close>

function valid_utf8 :: "string \<Rightarrow> bool" where
  "valid_utf8 s =
     (if s = [] then True else decode_rune s \<noteq> (65533, 1) \<and> valid_utf8 (drop (snd (decode_rune s)) s))"
  by pat_completeness auto
termination
  using decode_rune_width by (relation "measure length") auto

declare valid_utf8.simps [simp del]

lemma valid_utf8_simps [simp, code]:
  "valid_utf8 []"
  "valid_utf8 (c # cs) \<longleftrightarrow>
     decode_rune (c # cs) \<noteq> (65533, 1) \<and> valid_utf8 (drop (snd (decode_rune (c # cs))) (c # cs))"
  by (subst valid_utf8.simps; simp)+

text \<open>\<^verbatim>\<open>strconv.IsPrint\<close>; beyond Latin-1 it looks in a table of Unicode, which is the argument.\<close>

definition IsPrint :: "(nat \<Rightarrow> bool) \<Rightarrow> nat \<Rightarrow> bool" where
  "IsPrint table r \<longleftrightarrow>
     (if r \<le> 255 then 32 \<le> r \<and> r < 127 \<or> 161 \<le> r \<and> r \<noteq> 173 else table r)"

section \<open>Quoting\<close>

text \<open>The last \<open>n\<close> hexadecimal digits of a number.\<close>

fun hex_digits :: "nat \<Rightarrow> nat \<Rightarrow> string" where
  "hex_digits 0 r = []"
| "hex_digits (Suc n) r = hex_digits n (r div 16) @ [lower_hex_digit (r mod 16)]"

definition control_letter :: "nat \<Rightarrow> char option" where
  "control_letter r =
     (if r = 7 then Some (CHR ''a'') else if r = 8 then Some (CHR ''b'') else if r = 12 then Some (CHR ''f'')
      else if r = 10 then Some (CHR ''n'') else if r = 13 then Some (CHR ''r'') else if r = 9 then Some (CHR ''t'')
      else if r = 11 then Some (CHR ''v'') else None)"

text \<open>The first rune of a text as it appears between the quotes (a printable rune as its own bytes).\<close>

definition quote_rune :: "(nat \<Rightarrow> bool) \<Rightarrow> string \<Rightarrow> string" where
  "quote_rune table s =
     (case decode_rune s of
        (r, width) \<Rightarrow>
          if width = 1 \<and> r = 65533 then CHR 0x5C # CHR ''x'' # hex_digits 2 (code (hd s))
          else if r = 0x22 \<or> r = 0x5C then [CHR 0x5C, hd s]
          else if IsPrint table r then take width s
          else
            (case control_letter r of
               Some l \<Rightarrow> [CHR 0x5C, l]
             | None \<Rightarrow>
                 if r < 32 \<or> r = 127 then CHR 0x5C # CHR ''x'' # hex_digits 2 r
                 else if r < 65536 then CHR 0x5C # CHR ''u'' # hex_digits 4 r
                 else CHR 0x5C # CHR ''U'' # hex_digits 8 r))"

function quote_from :: "(nat \<Rightarrow> bool) \<Rightarrow> string \<Rightarrow> string" where
  "quote_from table s =
     (if s = [] then [] else quote_rune table s @ quote_from table (drop (snd (decode_rune s)) s))"
  by pat_completeness auto
termination
  using decode_rune_width by (relation "measure (\<lambda>(table, s). length s)") auto

declare quote_from.simps [simp del]

lemma quote_from_simps [simp]:
  "quote_from table [] = []"
  "quote_from table (c # cs) =
     quote_rune table (c # cs) @ quote_from table (drop (snd (decode_rune (c # cs))) (c # cs))"
  by (simp_all add: quote_from.simps [of table])

definition go_quote :: "(nat \<Rightarrow> bool) \<Rightarrow> string \<Rightarrow> string" where
  "go_quote table s = CHR 0x22 # quote_from table s @ [CHR 0x22]"

section \<open>Reading a quoted text\<close>

text \<open>What follows the first quote that no backslash precedes.\<close>

fun after_quote :: "string \<Rightarrow> string option" where
  "after_quote [] = None"
| "after_quote (c # cs) =
     (if c = CHR 0x22 then Some cs
      else if c = CHR 0x5C then (case cs of [] \<Rightarrow> None | d # ds \<Rightarrow> after_quote ds)
      else after_quote cs)"

definition inert :: "char \<Rightarrow> bool" where
  "inert c \<longleftrightarrow> c \<noteq> CHR 0x22 \<and> c \<noteq> CHR 0x5C \<and> c \<noteq> CHR 0x0A"

lemma after_quote_inert: "list_all inert u \<Longrightarrow> after_quote (u @ t) = after_quote t"
  by (induction u) (auto simp: inert_def)

lemma inert_code: "inert c \<longleftrightarrow> code c \<notin> {0x22, 0x5C, 0x0A}"
proof -
  have "c = d \<longleftrightarrow> code c = code d" for d by simp
  then show ?thesis by (simp only: inert_def) (simp add: code_def)
qed

lemma inert_hex [simp]: "list_all inert (hex_digits n r)"
  by (induction n arbitrary: r) (simp_all add: inert_code code_lower_hex)

text \<open>Either plain characters, or a backslash, an escaped character and plain ones.\<close>

lemma decoded_bytes:
  assumes "s \<noteq> []" and "decode_rune s = (r, width)" and "r \<noteq> 0x22" "r \<noteq> 0x5C" "r \<noteq> 0x0A"
  shows "list_all inert (take width s) \<or> width = 1 \<and> r = 65533"
proof -
  from assms(1) have hd0: "take 1 s = [s ! 0]" by (cases s) simp_all
  have two: "take 2 s = [s ! 0, s ! 1]" if "1 < length s" using that by (cases s; cases "tl s") auto
  have three: "take 3 s = [s ! 0, s ! 1, s ! 2]" if "2 < length s"
    using that by (cases s; cases "tl s"; cases "tl (tl s)") auto
  have four: "take 4 s = [s ! 0, s ! 1, s ! 2, s ! 3]" if "3 < length s"
    using that by (cases s; cases "tl s"; cases "tl (tl s)"; cases "tl (tl (tl s))") auto
  show ?thesis
    using assms(2-5) hd0 two three four
    by (auto simp: decode_rune_def Let_def byte_in_def inert_code split: if_splits)
qed
lemma quote_rune_shape:
  assumes "s \<noteq> []"
  obtains (plain) "list_all inert (quote_rune table s)"
  | (escaped) d u where "quote_rune table s = CHR 0x5C # d # u" and "d \<noteq> CHR 0x0A" and "list_all inert u"
proof -
  obtain r width where dec: "decode_rune s = (r, width)" by (cases "decode_rune s")
  have first: "hd s = char_of r" if "r < 128" "\<not> (width = 1 \<and> r = 65533)"
  proof -
    have "code (hd s) = r" using that dec assms
      by (auto simp: decode_rune_def Let_def byte_in_def hd_conv_nth split: if_splits)
    then show ?thesis by (auto simp: code_def)
  qed
  have hex: "quote_rune table s = CHR 0x5C # d # hex_digits n r' \<Longrightarrow> d \<noteq> CHR 0x0A \<Longrightarrow> thesis" for d n r'
    by (rule escaped [OF _ _ inert_hex])
  consider (bad) "width = 1" "r = 65533" | (quote) "r = 0x22 \<or> r = 0x5C" "\<not> (width = 1 \<and> r = 65533)"
    | (print) "IsPrint table r" "r \<noteq> 0x22" "r \<noteq> 0x5C" "\<not> (width = 1 \<and> r = 65533)"
    | (control) l where "control_letter r = Some l" "\<not> IsPrint table r" "r \<noteq> 0x22" "r \<noteq> 0x5C"
        "\<not> (width = 1 \<and> r = 65533)"
    | (other) "control_letter r = None" "\<not> IsPrint table r" "r \<noteq> 0x22" "r \<noteq> 0x5C" "\<not> (width = 1 \<and> r = 65533)"
    by (cases "control_letter r") auto
  then show thesis
  proof cases
    case bad
    then show ?thesis by (intro hex [of "CHR ''x''"]) (simp_all add: quote_rune_def dec del: hex_digits.simps)
  next
    case quote
    then have "hd s = char_of r" by (intro first) auto
    with quote have "hd s \<noteq> CHR 0x0A" by (auto simp: char_of_def)
    with quote show ?thesis by (intro escaped [of "hd s" "[]"]) (auto simp: quote_rune_def dec)
  next
    case print
    then have "r \<noteq> 0x0A" by (auto simp: IsPrint_def)
    with decoded_bytes [OF assms dec] print have "list_all inert (take width s)" by auto
    with print show ?thesis by (intro plain) (auto simp: quote_rune_def dec)
  next
    case control
    then have "l \<noteq> CHR 0x0A" by (auto simp: control_letter_def split: if_splits)
    with control show ?thesis by (intro escaped [of l "[]"]) (auto simp: quote_rune_def dec)
  next
    case other
    then have "\<exists>d n r'. quote_rune table s = CHR 0x5C # d # hex_digits n r' \<and> d \<noteq> CHR 0x0A"
      unfolding quote_rune_def dec by (simp split: if_split) blast
    with hex show ?thesis by blast
  qed
qed

lemma quote_rune_end: "s \<noteq> [] \<Longrightarrow> after_quote (quote_rune table s @ t) = after_quote t"
  by (erule quote_rune_shape [where table = table]) (simp_all add: after_quote_inert)

lemma quote_rune_line: "s \<noteq> [] \<Longrightarrow> CHR 0x0A \<notin> set (quote_rune table s)"
  by (erule quote_rune_shape [where table = table]) (auto simp: list_all_iff inert_def)

lemma go_quote_ends: "after_quote (quote_from table s @ CHR 0x22 # t) = Some t"
proof (induction table s rule: quote_from.induct)
  case (1 table s)
  then show ?case by (cases s) (simp_all add: quote_rune_end)
qed

lemma quote_from_line: "CHR 0x0A \<notin> set (quote_from table s)"
proof (induction table s rule: quote_from.induct)
  case (1 table s)
  then show ?case by (cases s) (simp_all add: quote_rune_line)
qed

lemma go_quote_line [simp]: "CHR 0x0A \<notin> set (go_quote table s)"
  using quote_from_line by (simp add: go_quote_def)

text \<open>Printable ASCII without quotes and backslashes is quoted as it is.\<close>

lemma go_quote_plain:
  assumes "list_all (\<lambda>c. 32 \<le> code c \<and> code c < 127 \<and> code c \<noteq> 0x22 \<and> code c \<noteq> 0x5C) s"
  shows "go_quote table s = CHR 0x22 # s @ [CHR 0x22]"
proof -
  have "quote_from table s = s" using assms
    by (induction s) (simp_all add: quote_rune_def decode_rune_def Let_def IsPrint_def)
  then show ?thesis by (simp add: go_quote_def)
qed

end
