(* ===== verification/Metrics.thy ===== *)
theory Metrics imports Http Upstream Quote "HOL-Library.AList" "HOL-Library.Multiset" begin

text \<open>
  The package \<^verbatim>\<open>internal/observability\<close>: the counters, the request signals that handlers set, the
  bounded set of labelled series and the middleware's bookkeeping around a request. Counters are
  atomic and wrap at 64 bits; the series map is an association list with distinct keys, updated
  under its mutex.
\<close>

section \<open>Labels and signals\<close>

definition boundedLabel :: "string \<Rightarrow> string" where
  "boundedLabel value =
     (let v = trim_space value in
      if v = [] then ''unknown'' else if length v > 64 then take 64 v else v)"

definition no_signals :: RequestSignals where
  "no_signals =
     \<lparr>sig_Route = [], sig_Upstream = [], sig_AuthOutcome = [], sig_Retries = 0, sig_Rejections = 0\<rparr>"

definition WithSignals :: "request \<Rightarrow> request" where
  "WithSignals req = req\<lparr>Signals := Some no_signals\<rparr>"

definition on_signals :: "(RequestSignals \<Rightarrow> RequestSignals) \<Rightarrow> request \<Rightarrow> request" where
  "on_signals f req = req\<lparr>Signals := map_option f (Signals req)\<rparr>"

definition SetRoute :: "string \<Rightarrow> string \<Rightarrow> request \<Rightarrow> request" where
  "SetRoute route upstream = on_signals (\<lambda>s. s\<lparr>sig_Route := route, sig_Upstream := upstream\<rparr>)"

definition SetAuthOutcome :: "string \<Rightarrow> request \<Rightarrow> request" where
  "SetAuthOutcome outcome = on_signals (\<lambda>s. s\<lparr>sig_AuthOutcome := outcome\<rparr>)"

definition AddRetry :: "request \<Rightarrow> request" where
  "AddRetry = on_signals (\<lambda>s. s\<lparr>sig_Retries := sig_Retries s + 1\<rparr>)"

definition AddRejection :: "request \<Rightarrow> request" where
  "AddRejection = on_signals (\<lambda>s. s\<lparr>sig_Rejections := sig_Rejections s + 1\<rparr>)"

definition label :: "RequestSignals option \<Rightarrow> bool \<Rightarrow> string" where
  "label signals route =
     (case signals of
        None \<Rightarrow> ''unknown''
      | Some s \<Rightarrow> boundedLabel (if route then sig_Route s else sig_Upstream s))"

lemma on_signals_frame [simp, frame_rules]:
  "Header (on_signals f req) = Header req" "Method (on_signals f req) = Method req"
  "req_URL (on_signals f req) = req_URL req" "req_Host (on_signals f req) = req_Host req"
  "RequestURI (on_signals f req) = RequestURI req" "RemoteAddr (on_signals f req) = RemoteAddr req"
  by (simp_all add: on_signals_def)

lemma signals_frame [simp, frame_rules]:
  "Header (AddRejection req) = Header req" "Method (AddRejection req) = Method req"
  "req_URL (AddRejection req) = req_URL req" "req_Host (AddRejection req) = req_Host req"
  "Header (SetRoute r u req) = Header req" "Method (SetRoute r u req) = Method req"
  "req_URL (SetRoute r u req) = req_URL req" "req_Host (SetRoute r u req) = req_Host req"
  "Header (SetAuthOutcome o' req) = Header req" "Method (SetAuthOutcome o' req) = Method req"
  "req_URL (SetAuthOutcome o' req) = req_URL req" "req_Host (SetAuthOutcome o' req) = req_Host req"
  by (simp_all add: AddRejection_def SetRoute_def SetAuthOutcome_def)

section \<open>Counters\<close>

definition maxMetricSeries :: nat where
  "maxMetricSeries = 256"

record requestSeries =
  ser_route :: string
  ser_upstream :: string
  ser_method :: string
  ser_status :: int

record Metrics =
  requests :: u64
  responses :: u64
  serverErrors :: u64
  activeRequests :: int
  retries :: u64
  rejections :: u64
  authOutcomes :: "(string \<times> u64) list"
  healthFailures :: u64
  circuitChanges :: u64
  activations :: u64
  configVersion :: int
  nodeIdentity :: string
  series :: "(requestSeries \<times> u64) list"

definition new_metrics :: Metrics where
  "new_metrics =
     \<lparr>requests = 0, responses = 0, serverErrors = 0, activeRequests = 0, retries = 0, rejections = 0,
      authOutcomes = [], healthFailures = 0, circuitChanges = 0, activations = 0, configVersion = 0,
      nodeIdentity = [], series = []\<rparr>"

definition SetConfigVersion :: "int \<Rightarrow> Metrics \<Rightarrow> Metrics" where
  "SetConfigVersion version m = m\<lparr>configVersion := version\<rparr>"

definition SetNodeIdentity :: "string \<Rightarrow> Metrics \<Rightarrow> Metrics" where
  "SetNodeIdentity identity m = m\<lparr>nodeIdentity := boundedLabel identity\<rparr>"

fun record_event :: "gateway_event \<Rightarrow> Metrics \<Rightarrow> Metrics" where
  "record_event HealthFailure m = m\<lparr>healthFailures := healthFailures m + 1\<rparr>"
| "record_event CircuitTransition m = m\<lparr>circuitChanges := circuitChanges m + 1\<rparr>"
| "record_event Activation m = m\<lparr>activations := activations m + 1\<rparr>"

definition count_of :: "'k \<Rightarrow> ('k \<times> u64) list \<Rightarrow> u64" where
  "count_of k al = (case map_of al k of None \<Rightarrow> 0 | Some n \<Rightarrow> n)"

definition bump :: "'k \<Rightarrow> ('k \<times> u64) list \<Rightarrow> ('k \<times> u64) list" where
  "bump k al = AList.update k (count_of k al + 1) al"

definition recordSeries :: "requestSeries \<Rightarrow> (requestSeries \<times> u64) list \<Rightarrow> (requestSeries \<times> u64) list" where
  "recordSeries s al =
     (if map_of al s = None \<and> maxMetricSeries \<le> length al then al else bump s al)"

section \<open>The middleware\<close>

definition request_started :: "Metrics \<Rightarrow> Metrics" where
  "request_started m = m\<lparr>requests := requests m + 1, activeRequests := i64 (activeRequests m + 1)\<rparr>"

text \<open>The deferred function: the request as the handler left it and the status the writer noted.\<close>

definition request_series :: "request \<Rightarrow> RequestSignals \<Rightarrow> int \<Rightarrow> requestSeries" where
  "request_series req s status =
     \<lparr>ser_route = boundedLabel (sig_Route s), ser_upstream = boundedLabel (sig_Upstream s),
      ser_method = boundedLabel (Method req), ser_status = status\<rparr>"

definition request_finished :: "request \<Rightarrow> int \<Rightarrow> Metrics \<Rightarrow> Metrics" where
  "request_finished req noted m =
     (let status = (if noted = 0 then 200 else noted);
          m1 = m\<lparr>activeRequests := i64 (activeRequests m - 1), responses := responses m + 1,
                 serverErrors := serverErrors m + (if 500 \<le> status then 1 else 0)\<rparr>
      in case Signals req of
           None \<Rightarrow> m1
         | Some s \<Rightarrow>
             m1\<lparr>series := recordSeries (request_series req s status) (series m1),
                retries := retries m1 + sig_Retries s,
                rejections := rejections m1 + sig_Rejections s,
                authOutcomes := (if sig_AuthOutcome s \<noteq> []
                  then bump (boundedLabel (sig_AuthOutcome s)) (authOutcomes m1) else authOutcomes m1)\<rparr>)"

text \<open>
  The middleware around a handler; \<open>get\<close> and \<open>put\<close> reach the metrics inside the program state.
\<close>

definition metrics_Middleware ::
  "('w \<Rightarrow> Metrics) \<Rightarrow> (Metrics \<Rightarrow> 'w \<Rightarrow> 'w) \<Rightarrow> 'w handler \<Rightarrow> 'w handler" where
  "metrics_Middleware get put next w req res =
     (let req1 = WithSignals req;
          w1 = put (request_started (get w)) w
      in case next w1 req1 res of
           (w2, req2, res2) \<Rightarrow> (put (request_finished req2 (resp_status res2) (get w2)) w2, req2, res2))"

section \<open>The endpoint\<close>

definition newline :: char where
  "newline = CHR 0x0A"

text \<open>A metric with its type line, as the page's format string has them.\<close>

definition typed_metric :: "string \<times> string \<times> int \<Rightarrow> string" where
  "typed_metric = (\<lambda>(name, kind, value).
     ''# TYPE '' @ name @ '' '' @ kind @ [newline] @ name @ '' '' @ FormatInt value @ [newline])"

definition totals :: "Metrics \<Rightarrow> (string \<times> string \<times> int) list" where
  "totals m =
     [(''go_serve_requests_total'', ''counter'', uint (requests m)),
      (''go_serve_responses_total'', ''counter'', uint (responses m)),
      (''go_serve_server_errors_total'', ''counter'', uint (serverErrors m)),
      (''go_serve_active_requests'', ''gauge'', activeRequests m),
      (''go_serve_retries_total'', ''counter'', uint (retries m)),
      (''go_serve_rejections_total'', ''counter'', uint (rejections m)),
      (''go_serve_health_failures_total'', ''counter'', uint (healthFailures m)),
      (''go_serve_circuit_transitions_total'', ''counter'', uint (circuitChanges m)),
      (''go_serve_config_activations_total'', ''counter'', uint (activations m))]"

definition series_line :: "(nat \<Rightarrow> bool) \<Rightarrow> requestSeries \<times> u64 \<Rightarrow> string" where
  "series_line table = (\<lambda>(s, n).
     ''go_serve_requests_by_route_total{route='' @ go_quote table (ser_route s) @
     '',upstream='' @ go_quote table (ser_upstream s) @ '',method='' @ go_quote table (ser_method s) @
     '',status='' @ go_quote table (FormatInt (ser_status s)) @ ''} '' @ FormatInt (uint n) @ [newline])"

definition outcome_line :: "(nat \<Rightarrow> bool) \<Rightarrow> string \<times> u64 \<Rightarrow> string" where
  "outcome_line table = (\<lambda>(outcome, n).
     ''go_serve_auth_outcomes_total{outcome='' @ go_quote table outcome @ ''} '' @ FormatInt (uint n) @ [newline])"

text \<open>
  The page. Go visits the entries of a map in any order: \<open>order\<close> and \<open>order'\<close> arrange the series and
  the outcomes. \<open>table\<close> is the Unicode table of \<^verbatim>\<open>strconv.IsPrint\<close>.
\<close>

type_synonym 'k visit = "('k \<times> u64) list \<Rightarrow> ('k \<times> u64) list"

definition metrics_text ::
  "(nat \<Rightarrow> bool) \<Rightarrow> requestSeries visit \<Rightarrow> string visit \<Rightarrow> Metrics \<Rightarrow> string" where
  "metrics_text table order order' m =
     concat (map typed_metric (totals m)) @ concat (map (series_line table) (order (series m))) @
     concat (map (outcome_line table) (order' (authOutcomes m)))"

definition metrics_Endpoint ::
  "(nat \<Rightarrow> bool) \<Rightarrow> requestSeries visit \<Rightarrow> string visit \<Rightarrow> ('w \<Rightarrow> Metrics) \<Rightarrow> 'w handler \<Rightarrow> 'w handler" where
  "metrics_Endpoint table order order' get next w req res =
     (if Path (req_URL req) \<noteq> ''/metrics'' then next w req res
      else
        (w, req,
         write_body (metrics_text table order order' (get w))
           (write_header 200 (set_header ''Content-Type'' ''text/plain; version=0.0.4'' res))))"

section \<open>Facts\<close>

lemma boundedLabel_bounds: "boundedLabel v \<noteq> [] \<and> length (boundedLabel v) \<le> 64"
  by (auto simp: boundedLabel_def Let_def)

lemma bump_keys: "distinct (map fst al) \<Longrightarrow> distinct (map fst (bump k al))"
  by (simp add: bump_def distinct_update)

lemma map_of_bump: "map_of (bump k al) = (map_of al)(k \<mapsto> count_of k al + 1)"
  by (simp add: bump_def update_conv')

lemma length_bump: "length (bump k al) = (if map_of al k = None then Suc (length al) else length al)"
proof -
  have "length (AList.update k v al) = (if map_of al k = None then Suc (length al) else length al)" for v
    by (induction al) auto
  then show ?thesis by (simp add: bump_def)
qed

text \<open>
  Over a sequence of recorded requests, a series that is present has counted every request of its
  kind: it entered at its first request or never.
\<close>

definition series_inv :: "requestSeries list \<Rightarrow> (requestSeries \<times> u64) list \<Rightarrow> bool" where
  "series_inv ks al \<longleftrightarrow>
     length al \<le> maxMetricSeries \<and> distinct (map fst al) \<and>
     (\<forall>k n. map_of al k = Some n \<longrightarrow> n = of_nat (count_list ks k)) \<and>
     (\<forall>k \<in> set ks. map_of al k = None \<longrightarrow> length al = maxMetricSeries)"

lemma series_inv_step:
  assumes "series_inv ks al"
  shows "series_inv (ks @ [s]) (recordSeries s al)"
proof (cases "map_of al s = None \<and> maxMetricSeries \<le> length al")
  case True
  then have "recordSeries s al = al" by (simp add: recordSeries_def)
  with True assms show ?thesis by (auto simp: series_inv_def)
next
  case False
  then have eq: "recordSeries s al = bump s al" by (auto simp: recordSeries_def)
  have count: "count_of s al = of_nat (count_list ks s)"
  proof (cases "map_of al s")
    case None
    with False assms have "s \<notin> set ks" by (auto simp: series_inv_def)
    with None show ?thesis by (simp add: count_of_def count_list_0_iff)
  next
    case (Some n)
    with assms show ?thesis by (simp add: count_of_def series_inv_def)
  qed
  have len: "length (bump s al) \<le> maxMetricSeries"
    using False assms by (auto simp: length_bump series_inv_def)
  have keys: "distinct (map fst (bump s al))"
    using assms by (simp add: bump_keys series_inv_def)
  have counts: "n = of_nat (count_list (ks @ [s]) k)" if "map_of (bump s al) k = Some n" for k n
    using that assms count by (auto simp: map_of_bump series_inv_def split: if_splits)
  have full: "length (bump s al) = maxMetricSeries" if "k \<in> set (ks @ [s])" "map_of (bump s al) k = None" for k
  proof -
    from that have "k \<noteq> s" "map_of al k = None" "k \<in> set ks" by (auto simp: map_of_bump split: if_splits)
    then have "length al = maxMetricSeries" using assms unfolding series_inv_def by blast
    with len show ?thesis by (simp add: length_bump split: if_splits)
  qed
  from len keys counts full show ?thesis unfolding eq series_inv_def by blast
qed

lemma series_inv_run: "series_inv ks (foldl (\<lambda>al s. recordSeries s al) [] ks)"
  by (induction ks rule: rev_induct) (simp_all add: series_inv_step, simp add: series_inv_def)

section \<open>Properties\<close>

text \<open>The middleware's two steps, interleaved over concurrent requests.\<close>

datatype metric_event = Started | Finished request int

fun metric_step :: "Metrics \<Rightarrow> metric_event \<Rightarrow> Metrics" where
  "metric_step m Started = request_started m"
| "metric_step m (Finished req noted) = request_finished req noted m"

definition starts :: "metric_event list \<Rightarrow> nat" where
  "starts es = length (filter (\<lambda>e. e = Started) es)"

lemma request_finished_counters [simp]:
  "requests (request_finished req noted m) = requests m"
  "responses (request_finished req noted m) = responses m + 1"
  "activeRequests (request_finished req noted m) = i64 (activeRequests m - 1)"
  by (simp_all add: request_finished_def Let_def split: option.split)

lemma request_started_counters [simp]:
  "requests (request_started m) = requests m + 1" "responses (request_started m) = responses m"
  "activeRequests (request_started m) = i64 (activeRequests m + 1)"
  "series (request_started m) = series m"
  by (simp_all add: request_started_def)

text \<open>
  However the requests interleave, the request and response counters are the numbers of
  requests started and finished (modulo 2 to the 64), and the active gauge is their difference.
\<close>

lemma counters_balance:
  "let m = foldl metric_step new_metrics es in
   requests m = of_nat (starts es) \<and> responses m = of_nat (length es - starts es) \<and>
   activeRequests m = i64 (int (starts es) - int (length es - starts es))"
proof (induction es rule: rev_induct)
  case Nil
  then show ?case by (simp add: new_metrics_def starts_def)
next
  case (snoc e es)
  have le: "starts es \<le> length es" by (simp add: starts_def)
  show ?case
  proof (cases e)
    case Started
    with snoc le show ?thesis by (simp add: Let_def starts_def algebra_simps)
  next
    case (Finished req noted)
    then have "starts (es @ [e]) = starts es" by (simp add: starts_def)
    moreover have "length (es @ [e]) - starts es = Suc (length es - starts es)" using le by simp
    ultimately show ?thesis using snoc Finished by (simp add: Let_def algebra_simps)
  qed
qed

text \<open>
  Claim C35: at most 256 labelled series are kept, and every series kept counts all requests of its
  route, upstream, method and status since the start: when the set is full, new series are dropped
  and none already shown loses a request.
\<close>

theorem series_bounded_and_exact:
  assumes "map_of (foldl (\<lambda>al s. recordSeries s al) [] ks) k = Some n"
  shows "n = of_nat (count_list ks k) \<and>
    length (foldl (\<lambda>al s. recordSeries s al) [] ks) \<le> maxMetricSeries"
  using series_inv_run [of ks] assms by (simp add: series_inv_def)

theorem series_bounded_and_exact_witness:
  "let k = \<lparr>ser_route = ''api'', ser_upstream = ''api'', ser_method = ''GET'', ser_status = 200\<rparr>;
       al = foldl (\<lambda>al s. recordSeries s al) [] [k, k\<lparr>ser_status := 502\<rparr>, k]
   in map_of al k = Some 2 \<and> length al \<le> maxMetricSeries"
proof -
  let ?k = "\<lparr>ser_route = ''api'', ser_upstream = ''api'', ser_method = ''GET'', ser_status = 200\<rparr>"
  let ?al = "foldl (\<lambda>al s. recordSeries s al) [] [?k, ?k\<lparr>ser_status := 502\<rparr>, ?k]"
  have "map_of ?al ?k = Some 2"
    by (simp add: recordSeries_def bump_def count_of_def maxMetricSeries_def)
  from this series_bounded_and_exact [OF this] show ?thesis by (simp only: Let_def simp_thms)
qed

section \<open>The page\<close>

lemma FormatInt_line [simp]: "newline \<notin> set (FormatInt i)"
  by (rule FormatInt_free) (simp add: newline_def ascii_space_def)

lemma go_quote_newline [simp]: "newline \<notin> set (go_quote table s)"
  by (simp add: newline_def)

lemma count_newline_free [simp]: "newline \<notin> set s \<Longrightarrow> count_list s newline = 0"
  by (simp add: count_list_0_iff)

lemma series_line_one: "count_list (series_line table x) newline = 1"
  by (cases x) (simp add: series_line_def, simp add: newline_def)

lemma outcome_line_one: "count_list (outcome_line table x) newline = 1"
  by (cases x) (simp add: outcome_line_def, simp add: newline_def)

lemma count_concat:
  assumes "\<And>x. x \<in> set xs \<Longrightarrow> count_list (f x) c = k"
  shows "count_list (concat (map f xs)) c = k * length xs"
  using assms by (induction xs) simp_all

lemma totals_plain: "x \<in> set (totals m) \<Longrightarrow> newline \<notin> set (fst x) \<and> newline \<notin> set (fst (snd x))"
  by (auto simp: totals_def newline_def)

lemma typed_metric_two:
  assumes "newline \<notin> set (fst x) \<and> newline \<notin> set (fst (snd x))"
  shows "count_list (typed_metric x) newline = 2"
proof -
  have "newline \<notin> set ''# TYPE ''" "newline \<noteq> CHR '' ''" by (simp_all add: newline_def)
  with assms show ?thesis by (cases x) (auto simp: typed_metric_def)
qed

lemma totals_lines: "count_list (concat (map typed_metric (totals m))) newline = 18"
proof -
  have "count_list (concat (map typed_metric (totals m))) newline = 2 * length (totals m)"
    by (rule count_concat) (rule typed_metric_two [OF totals_plain])
  then show ?thesis by (simp add: totals_def)
qed

lemma metrics_text_lines:
  assumes "length (order (series m)) = length (series m)"
    and "length (order' (authOutcomes m)) = length (authOutcomes m)"
  shows "count_list (metrics_text table order order' m) newline =
    18 + length (series m) + length (authOutcomes m)"
  by (simp add: metrics_text_def totals_lines count_concat [where k = 1] series_line_one outcome_line_one assms)

text \<open>Growth of the two tables over any interleaving of requests.\<close>

lemma length_recordSeries:
  "length al \<le> maxMetricSeries \<Longrightarrow> length (recordSeries s al) \<le> maxMetricSeries"
  by (auto simp: recordSeries_def length_bump)

lemma series_run: "length (series (foldl metric_step new_metrics es)) \<le> maxMetricSeries"
proof (induction es rule: rev_induct)
  case Nil
  then show ?case by (simp add: new_metrics_def)
next
  case (snoc e es)
  then show ?case
    by (cases e) (auto simp: request_finished_def Let_def length_recordSeries split: option.split)
qed

text \<open>The outcomes that the requests of a history left in their signals, as labels.\<close>

fun event_outcome :: "metric_event \<Rightarrow> string set" where
  "event_outcome Started = {}"
| "event_outcome (Finished req noted) =
     (case Signals req of None \<Rightarrow> {} | Some s \<Rightarrow> if sig_AuthOutcome s = [] then {} else {boundedLabel (sig_AuthOutcome s)})"

lemma outcomes_run:
  "distinct (map fst (authOutcomes (foldl metric_step new_metrics es))) \<and>
   set (map fst (authOutcomes (foldl metric_step new_metrics es))) = (\<Union>e \<in> set es. event_outcome e)"
proof (induction es rule: rev_induct)
  case Nil
  then show ?case by (simp add: new_metrics_def)
next
  case (snoc e es)
  have keys: "fst ` set (bump k al) = insert k (fst ` set al)" for k and al :: "(string \<times> u64) list"
    unfolding bump_def set_map [symmetric] update_keys by auto
  show ?case
    using snoc by (cases e) (simp_all add: request_finished_def request_started_def Let_def bump_keys keys
        split: option.split)
qed

text \<open>
  Claim C36: whatever the interleaving of requests, and whatever bytes are in the names of routes and
  methods, the metrics page has one line for each of its samples and no more: 18 for the totals, at
  most 256 for the series, and one for each authentication outcome that occurred.
\<close>

theorem metrics_page_bounded:
  assumes "m = foldl metric_step new_metrics es"
    and "mset (order (series m)) = mset (series m)" and "mset (order' (authOutcomes m)) = mset (authOutcomes m)"
  shows "count_list (metrics_text table order order' m) newline =
      18 + length (series m) + card (\<Union>e \<in> set es. event_outcome e) \<and>
    length (series m) \<le> maxMetricSeries"
proof -
  have "length (authOutcomes m) = card (\<Union>e \<in> set es. event_outcome e)"
    using outcomes_run [of es] distinct_card [of "map fst (authOutcomes m)"] by (simp add: assms(1))
  with metrics_text_lines [of order m order' table] mset_eq_length [OF assms(2)] mset_eq_length [OF assms(3)]
    series_run [of es] show ?thesis by (simp add: assms(1))
qed

definition sample_metric_request :: request where
  "sample_metric_request = \<lparr>Method = [newline], req_Host = [],
     req_URL = \<lparr>Scheme = [], Host = [], Path = ''/'', RawPath = [], RawQuery = []\<rparr>, RequestURI = ''/'',
     Header = Map.empty, RemoteAddr = [], ContentLength = 0,
     Signals = Some (no_signals\<lparr>sig_Route := ''a'' @ [newline] @ ''b'', sig_AuthOutcome := ''success''\<rparr>)\<rparr>"

theorem metrics_page_bounded_witness:
  "count_list (metrics_text (\<lambda>_. False) rev rev
     (foldl metric_step new_metrics [Started, Finished sample_metric_request 200])) newline = 20"
proof -
  let ?m = "foldl metric_step new_metrics [Started, Finished sample_metric_request 200]"
  have "count_list (metrics_text (\<lambda>_. False) rev rev ?m) newline =
      18 + length (series ?m) + card (\<Union>e \<in> set [Started, Finished sample_metric_request 200]. event_outcome e)"
    by (rule metrics_page_bounded [THEN conjunct1]) simp_all
  moreover have "length (series ?m) = 1"
    by (simp add: request_finished_def request_started_def sample_metric_request_def recordSeries_def
        new_metrics_def maxMetricSeries_def length_bump Let_def)
  moreover have "(\<Union>e \<in> set [Started, Finished sample_metric_request 200]. event_outcome e) = {boundedLabel ''success''}"
    by (simp add: sample_metric_request_def)
  ultimately show ?thesis by simp
qed

end
