(* ===== verification/UrlPath.thy ===== *)
theory UrlPath imports GoText begin

text \<open>
  Paths of proxied URLs: percent encoding as \<^verbatim>\<open>net/url\<close> does it for paths, and \<^verbatim>\<open>joinURLPath\<close> and
  \<^verbatim>\<open>joinProxyPath\<close> of \<^verbatim>\<open>internal/dataplane/server.go\<close>. The lemmas give the path that goes on the
  wire.
\<close>

section \<open>Percent encoding\<close>

definition hex_digit :: "nat \<Rightarrow> char" where
  "hex_digit n = char_of (if n < 10 then 48 + n else 55 + n)"

definition is_hex :: "char \<Rightarrow> bool" where
  "is_hex c \<longleftrightarrow> is_digit c \<or> 97 \<le> code c \<and> code c \<le> 102 \<or> 65 \<le> code c \<and> code c \<le> 70"

definition unhex :: "char \<Rightarrow> nat" where
  "unhex c = (if is_digit c then code c - 48 else if 97 \<le> code c then code c - 87 else code c - 55)"

text \<open>The bytes that \<^verbatim>\<open>escape\<close> leaves in a path.\<close>

definition plain_path_char :: "char \<Rightarrow> bool" where
  "plain_path_char c \<longleftrightarrow> is_lower c \<or> is_upper c \<or> is_digit c \<or>
     c \<in> set [CHR ''-'', CHR ''_'', CHR ''.'', CHR ''~'', CHR ''$'', CHR ''&'', CHR ''+'', CHR '','',
       CHR ''/'', CHR '':'', CHR '';'', CHR ''='', CHR ''@'']"

text \<open>The further bytes that \<^verbatim>\<open>validEncoded\<close> accepts in an encoded path.\<close>

definition extra_path_char :: "char \<Rightarrow> bool" where
  "extra_path_char c \<longleftrightarrow>
     c \<in> set [CHR ''!'', CHR 0x27, CHR ''('', CHR '')'', CHR ''*'', CHR ''['', CHR '']'', CHR ''%'']"

definition escape_char :: "char \<Rightarrow> string" where
  "escape_char c =
     (if plain_path_char c then [c]
      else [CHR ''%'', hex_digit (code c div 16), hex_digit (code c mod 16)])"

definition escape_path :: "string \<Rightarrow> string" where
  "escape_path s = concat (map escape_char s)"

definition valid_encoded :: "string \<Rightarrow> bool" where
  "valid_encoded s \<longleftrightarrow> (\<forall>c \<in> set s. plain_path_char c \<or> extra_path_char c)"

fun PathUnescape :: "string \<Rightarrow> string option" where
  "PathUnescape [] = Some []"
| "PathUnescape (c # s) =
     (if c = CHR ''%'' then
        (case s of
           a # b # r \<Rightarrow>
             if is_hex a \<and> is_hex b
             then map_option (Cons (char_of (16 * unhex a + unhex b))) (PathUnescape r) else None
         | _ \<Rightarrow> None)
      else map_option (Cons c) (PathUnescape s))"

definition EscapedPath :: "url \<Rightarrow> string" where
  "EscapedPath u =
     (if RawPath u \<noteq> [] \<and> valid_encoded (RawPath u) \<and> PathUnescape (RawPath u) = Some (Path u)
      then RawPath u
      else if Path u = ''*'' then ''*''
      else escape_path (Path u))"

section \<open>Joining paths\<close>

definition joinURLPath :: "string \<Rightarrow> string \<Rightarrow> string" where
  "joinURLPath base requestPath =
     (if base = [] then requestPath
      else if requestPath = [] then base
      else if has_suffix base ''/'' \<and> has_prefix requestPath ''/'' then base @ drop 1 requestPath
      else if \<not> has_suffix base ''/'' \<and> \<not> has_prefix requestPath ''/'' then base @ ''/'' @ requestPath
      else base @ requestPath)"

definition joinProxyPath :: "url \<Rightarrow> url \<Rightarrow> url" where
  "joinProxyPath target requestURL =
     (let joined = joinURLPath (EscapedPath target) (EscapedPath requestURL) in
      case PathUnescape joined of
        None \<Rightarrow> requestURL
      | Some decoded \<Rightarrow>
          requestURL\<lparr>Path := decoded, RawPath := (if decoded = joined then [] else joined)\<rparr>)"

section \<open>Decoding what was encoded\<close>

lemma char_of_code [simp]: "char_of (code c) = c"
  by (simp add: code_def)

lemma code_nibbles: "code c div 16 < 16" "code c mod 16 < 16"
  using code_less [of c] by (auto simp del: code_less)

lemma hex_digit_facts:
  assumes "n < 16"
  shows "is_hex (hex_digit n)" and "unhex (hex_digit n) = n"
    and "plain_path_char (hex_digit n)"
  using assms
  by (auto simp: hex_digit_def is_hex_def unhex_def is_digit_def plain_path_char_def is_upper_def)

lemma plain_not_percent: "plain_path_char c \<Longrightarrow> c \<noteq> CHR ''%''"
  by (auto simp: plain_path_char_def is_lower_def is_upper_def is_digit_def code_def)

lemma PathUnescape_escape_char:
  "PathUnescape (escape_char c @ s) = map_option (Cons c) (PathUnescape s)"
proof -
  note h = hex_digit_facts [OF code_nibbles(1)] hex_digit_facts [OF code_nibbles(2)]
  show ?thesis
    using plain_not_percent [of c] h by (auto simp: escape_char_def)
qed

lemma PathUnescape_escape [simp]: "PathUnescape (escape_path s) = Some s"
  by (induction s) (simp_all add: escape_path_def PathUnescape_escape_char)

lemma PathUnescape_append:
  "PathUnescape s = Some s' \<Longrightarrow> PathUnescape (s @ t) = map_option ((@) s') (PathUnescape t)"
proof (induction s arbitrary: s' rule: PathUnescape.induct)
  case 1
  then show ?case by (simp add: option.map_ident)
next
  case (2 c s)
  show ?case
  proof (cases "c = CHR ''%''")
    case True
    with "2.prems" obtain a b r r' where s: "s = a # b # r" "is_hex a" "is_hex b"
      and r: "PathUnescape r = Some r'" "s' = char_of (16 * unhex a + unhex b) # r'"
      by (auto split: list.splits if_splits)
    with "2.IH"(1) [OF True s(1) refl _ r(1)] True show ?thesis
      by (cases "PathUnescape t") auto
  next
    case False
    with "2.prems" obtain r' where "PathUnescape s = Some r'" "s' = c # r'" by auto
    with "2.IH"(2) [OF False] False show ?thesis
      by (cases "PathUnescape t") auto
  qed
qed

lemma PathUnescape_plain: "CHR ''%'' \<notin> set s \<Longrightarrow> PathUnescape s = Some s"
  by (induction s) auto

lemma PathUnescape_length: "PathUnescape s = Some s' \<Longrightarrow>
    length s' \<le> length s \<and> (CHR ''%'' \<in> set s \<longrightarrow> length s' < length s)"
proof (induction s arbitrary: s' rule: PathUnescape.induct)
  case 1
  then show ?case by simp
next
  case (2 c s)
  show ?case
  proof (cases "c = CHR ''%''")
    case True
    with "2.prems" obtain a b r r' where s: "s = a # b # r" "is_hex a" "is_hex b"
      and r: "PathUnescape r = Some r'" "s' = char_of (16 * unhex a + unhex b) # r'"
      by (auto split: list.splits if_splits)
    with "2.IH"(1) [OF True s(1) refl _ r(1)] show ?thesis by simp
  next
    case False
    with "2.prems" obtain r' where "PathUnescape s = Some r'" "s' = c # r'" by auto
    with "2.IH"(2) [OF False] False show ?thesis by simp
  qed
qed

lemma PathUnescape_fixed: "PathUnescape s = Some s \<longleftrightarrow> CHR ''%'' \<notin> set s"
  using PathUnescape_plain [of s] PathUnescape_length [of s s] by auto

lemma escape_path_valid: "valid_encoded (escape_path s)"
proof -
  have "plain_path_char d \<or> extra_path_char d" if "d \<in> set (escape_char c)" for c d
    using that code_nibbles [of c]
    by (auto simp: escape_char_def hex_digit_facts extra_path_char_def split: if_splits)
  then show ?thesis by (auto simp: valid_encoded_def escape_path_def)
qed

lemma EscapedPath_valid: "valid_encoded (EscapedPath u)"
proof -
  have "valid_encoded ''*''" by (simp add: valid_encoded_def extra_path_char_def)
  then show ?thesis unfolding EscapedPath_def using escape_path_valid by (simp only: split: if_split) blast
qed

lemma EscapedPath_decodes: "PathUnescape (EscapedPath u) = Some (Path u)"
  by (auto simp: EscapedPath_def)

section \<open>The joined path\<close>

lemma valid_encoded_append: "valid_encoded (s @ t) \<longleftrightarrow> valid_encoded s \<and> valid_encoded t"
  by (auto simp: valid_encoded_def)

lemma set_joinURLPath: "set (joinURLPath s t) \<subseteq> insert (CHR ''/'') (set s \<union> set t)"
  using set_drop_subset [of 1 t] by (auto simp: joinURLPath_def)

lemma joinURLPath_valid:
  assumes "valid_encoded s" and "valid_encoded t"
  shows "valid_encoded (joinURLPath s t)"
proof -
  have "plain_path_char (CHR ''/'')" by (simp add: plain_path_char_def)
  with assms set_joinURLPath [of s t] show ?thesis unfolding valid_encoded_def by blast
qed

lemma PathUnescape_append2:
  "PathUnescape s = Some s' \<Longrightarrow> PathUnescape t = Some t' \<Longrightarrow> PathUnescape (s @ t) = Some (s' @ t')"
  by (simp add: PathUnescape_append)

lemma PathUnescape_slash: "PathUnescape (''/'' @ t) = map_option (Cons (CHR ''/'')) (PathUnescape t)"
  by simp

text \<open>Joining encoded paths joins the decoded ones, up to the slash between them.\<close>

lemma joinURLPath_decodes:
  assumes s: "PathUnescape s = Some s'" and t: "PathUnescape t = Some t'"
  shows "\<exists>d. PathUnescape (joinURLPath s t) = Some d"
proof -
  have "\<exists>d. PathUnescape (drop 1 t) = Some d" if "has_prefix t ''/''"
  proof -
    from that obtain r where "t = ''/'' @ r" by (auto simp only: has_prefix_iff)
    with t show ?thesis by auto
  qed
  moreover have "PathUnescape (s @ ''/'' @ t) = Some (s' @ CHR ''/'' # t')"
    using s t by (intro PathUnescape_append2) (simp_all add: PathUnescape_slash)
  ultimately show ?thesis
    using s t PathUnescape_append2 [OF s] unfolding joinURLPath_def
    by (simp del: PathUnescape.simps) blast
qed

text \<open>
  The path of a proxied request on the wire: the joined path, unless it has no percent sign, when
  it is encoded afresh.
\<close>

lemma wire_path:
  defines "joined \<equiv> \<lambda>target req. joinURLPath (EscapedPath target) (EscapedPath req)"
  shows "EscapedPath (joinProxyPath target req) =
    (if CHR ''%'' \<in> set (joined target req) \<or> joined target req = ''*'' then joined target req
     else escape_path (joined target req))"
proof -
  let ?j = "joined target req"
  have valid: "valid_encoded ?j"
    unfolding joined_def by (intro joinURLPath_valid EscapedPath_valid)
  obtain d where d: "PathUnescape ?j = Some d"
    using joinURLPath_decodes EscapedPath_decodes unfolding joined_def by blast
  then have "d = ?j \<longleftrightarrow> CHR ''%'' \<notin> set ?j"
    using PathUnescape_fixed [of ?j] by auto
  moreover have "?j \<noteq> []" if "d \<noteq> ?j" using that d by auto
  moreover have "joinProxyPath target req = req\<lparr>Path := d, RawPath := (if d = ?j then [] else ?j)\<rparr>"
    using d unfolding joined_def joinProxyPath_def Let_def by simp
  ultimately show ?thesis
    using d valid by (cases "d = ?j") (simp_all add: EscapedPath_def)
qed

section \<open>Properties\<close>

lemma length_escape_char: "length (escape_char c) = (if plain_path_char c then 1 else 3)"
  by (simp add: escape_char_def)

lemma length_escape_path: "length s \<le> length (escape_path s)"
  by (induction s) (auto simp: escape_path_def length_escape_char)

lemma escape_path_fixed: "escape_path s = s \<longleftrightarrow> list_all plain_path_char s"
proof (induction s)
  case Nil
  then show ?case by (simp add: escape_path_def)
next
  case (Cons c s)
  have eq: "escape_path (c # s) = escape_char c @ escape_path s" by (simp add: escape_path_def)
  show ?case
  proof (cases "plain_path_char c")
    case True
    with Cons eq show ?thesis by (simp add: escape_char_def)
  next
    case False
    then have "length (c # s) < length (escape_path (c # s))"
      using length_escape_path [of s] by (simp add: eq length_escape_char)
    with False show ?thesis by auto
  qed
qed

text \<open>
  Claim C31: the proxied request's path goes out exactly as the upstream's and the client's encoded
  paths joined, when the joined path has a percent sign or consists of bytes that the encoder
  leaves alone; otherwise (a path with \<^verbatim>\<open>!\<close>, a quote, a parenthesis or a square bracket, and no
  percent sign) it is changed. In every case the decoded path is the joined path decoded.
\<close>

theorem proxied_path_preserved_iff:
  "(EscapedPath (joinProxyPath target req) = joinURLPath (EscapedPath target) (EscapedPath req) \<longleftrightarrow>
      CHR ''%'' \<in> set (joinURLPath (EscapedPath target) (EscapedPath req)) \<or>
      joinURLPath (EscapedPath target) (EscapedPath req) = ''*'' \<or>
      list_all plain_path_char (joinURLPath (EscapedPath target) (EscapedPath req))) \<and>
   PathUnescape (joinURLPath (EscapedPath target) (EscapedPath req)) = Some (Path (joinProxyPath target req))"
proof -
  obtain d where "PathUnescape (joinURLPath (EscapedPath target) (EscapedPath req)) = Some d"
    using joinURLPath_decodes EscapedPath_decodes by blast
  then have "PathUnescape (joinURLPath (EscapedPath target) (EscapedPath req)) =
      Some (Path (joinProxyPath target req))"
    by (simp add: joinProxyPath_def Let_def)
  then show ?thesis
    by (simp only: wire_path escape_path_fixed split: if_split) blast
qed

end
