(* ===== verification/Query.thy ===== *)
theory Query imports UrlPath begin

text \<open>
  What the program uses of \<^verbatim>\<open>net/url\<close> for queries: \<^verbatim>\<open>QueryEscape\<close>, \<^verbatim>\<open>URL.Query().Get\<close> and
  \<^verbatim>\<open>URL.RequestURI\<close>, with the round trip of a value through a query string.
\<close>

section \<open>Encoding\<close>

definition plain_query_char :: "char \<Rightarrow> bool" where
  "plain_query_char c \<longleftrightarrow> is_lower c \<or> is_upper c \<or> is_digit c \<or>
     c \<in> set [CHR ''-'', CHR ''_'', CHR ''.'', CHR ''~'']"

definition query_escape_char :: "char \<Rightarrow> string" where
  "query_escape_char c =
     (if c = CHR '' '' then ''+'' else if plain_query_char c then [c]
      else [CHR ''%'', hex_digit (code c div 16), hex_digit (code c mod 16)])"

definition QueryEscape :: "string \<Rightarrow> string" where
  "QueryEscape s = concat (map query_escape_char s)"

fun QueryUnescape :: "string \<Rightarrow> string option" where
  "QueryUnescape [] = Some []"
| "QueryUnescape (c # s) =
     (if c = CHR ''%'' then
        (case s of
           a # b # r \<Rightarrow>
             if is_hex a \<and> is_hex b
             then map_option (Cons (char_of (16 * unhex a + unhex b))) (QueryUnescape r) else None
         | _ \<Rightarrow> None)
      else map_option (Cons (if c = CHR ''+'' then CHR '' '' else c)) (QueryUnescape s))"

section \<open>Reading a query\<close>

text \<open>\<^verbatim>\<open>strings.Split\<close> by one byte, and \<^verbatim>\<open>strings.Cut\<close> at its first occurrence.\<close>

fun split_on :: "char \<Rightarrow> string \<Rightarrow> string list" where
  "split_on d [] = [[]]"
| "split_on d (c # s) =
     (if c = d then [] # split_on d s
      else case split_on d s of [] \<Rightarrow> [[c]] | w # ws \<Rightarrow> (c # w) # ws)"

definition cut :: "char \<Rightarrow> string \<Rightarrow> string \<times> string" where
  "cut d s = (takeWhile (\<lambda>c. c \<noteq> d) s, drop 1 (dropWhile (\<lambda>c. c \<noteq> d) s))"

text \<open>The pairs that \<^verbatim>\<open>parseQuery\<close> keeps; those it reports as errors are dropped by \<^verbatim>\<open>Query()\<close>.\<close>

definition parse_pair :: "string \<Rightarrow> (string \<times> string) list" where
  "parse_pair s =
     (if CHR '';'' \<in> set s \<or> s = [] then []
      else case cut (CHR ''='') s of
        (k, v) \<Rightarrow>
          (case (QueryUnescape k, QueryUnescape v) of
             (Some k', Some v') \<Rightarrow> [(k', v')]
           | _ \<Rightarrow> []))"

definition query_pairs :: "string \<Rightarrow> (string \<times> string) list" where
  "query_pairs q = concat (map parse_pair (split_on (CHR ''&'') q))"

definition query_get :: "string \<Rightarrow> string \<Rightarrow> string" where
  "query_get q key = (case map_of (query_pairs q) key of None \<Rightarrow> [] | Some v \<Rightarrow> v)"

definition url_RequestURI :: "url \<Rightarrow> string" where
  "url_RequestURI u =
     (let path = EscapedPath u in
      (if path = [] then ''/'' else path) @ (if RawQuery u \<noteq> [] then ''?'' @ RawQuery u else []))"

section \<open>The round trip\<close>

lemma plain_query_marks:
  "plain_query_char c \<Longrightarrow> c \<noteq> CHR ''%'' \<and> c \<noteq> CHR ''+'' \<and> c \<noteq> CHR ''&'' \<and> c \<noteq> CHR '';'' \<and> c \<noteq> CHR ''='' \<and>
     c \<noteq> CHR ''?'' \<and> c \<noteq> CHR '' ''"
  by (auto simp: plain_query_char_def is_lower_def is_upper_def is_digit_def code_def)

lemma hex_digit_plain: "n < 16 \<Longrightarrow> plain_query_char (hex_digit n)"
  by (auto simp: hex_digit_def plain_query_char_def is_digit_def is_upper_def)

lemma QueryUnescape_escape_char:
  "QueryUnescape (query_escape_char c @ s) = map_option (Cons c) (QueryUnescape s)"
proof -
  note h = hex_digit_facts [OF code_nibbles(1)] hex_digit_facts [OF code_nibbles(2)]
  show ?thesis
    using plain_query_marks [of c] h by (auto simp: query_escape_char_def)
qed

lemma QueryUnescape_escape [simp]: "QueryUnescape (QueryEscape s) = Some s"
  by (induction s) (simp_all add: QueryEscape_def QueryUnescape_escape_char)

lemma QueryEscape_chars:
  "c \<in> set (QueryEscape s) \<Longrightarrow> plain_query_char c \<or> c = CHR ''%'' \<or> c = CHR ''+''"
  using hex_digit_plain [OF code_nibbles(1)] hex_digit_plain [OF code_nibbles(2)]
  by (auto simp: QueryEscape_def query_escape_char_def split: if_splits)

lemma QueryEscape_no_marks:
  "CHR ''&'' \<notin> set (QueryEscape s)" "CHR '';'' \<notin> set (QueryEscape s)" "CHR ''='' \<notin> set (QueryEscape s)"
  "CHR ''?'' \<notin> set (QueryEscape s)"
  by (auto dest: QueryEscape_chars plain_query_marks)

lemma split_on_none: "d \<notin> set s \<Longrightarrow> split_on d s = [s]"
  by (induction s) auto

lemma split_on_free: "w \<in> set (split_on d s) \<Longrightarrow> d \<notin> set w"
  by (induction s arbitrary: w) (auto split: list.splits if_splits)

lemma query_get_single:
  assumes "CHR ''&'' \<notin> set k" and "CHR '';'' \<notin> set k" and "CHR ''='' \<notin> set k" and "CHR ''%'' \<notin> set k"
    and "CHR ''+'' \<notin> set k"
  shows "query_get (k @ ''='' @ QueryEscape v) k = v"
proof -
  let ?q = "k @ ''='' @ QueryEscape v"
  have plain: "QueryUnescape k = Some k" using assms(4,5) by (induction k) auto
  have "split_on (CHR ''&'') ?q = [?q]"
    using assms by (intro split_on_none) (auto simp: QueryEscape_no_marks)
  moreover have "cut (CHR ''='') ?q = (k, QueryEscape v)"
  proof -
    have "takeWhile (\<lambda>c. c \<noteq> CHR ''='') ?q = k" using assms(3) by (subst takeWhile_append2) auto
    moreover have "dropWhile (\<lambda>c. c \<noteq> CHR ''='') ?q = ''='' @ QueryEscape v"
      using assms(3) by (subst dropWhile_append2) auto
    ultimately show ?thesis by (simp add: cut_def)
  qed
  moreover have "CHR '';'' \<notin> set ?q" using assms(2) by (simp add: QueryEscape_no_marks)
  ultimately have "query_pairs ?q = [(k, v)]"
    by (simp add: query_pairs_def parse_pair_def plain)
  then show ?thesis by (simp add: query_get_def)
qed

end
