(* ===== verification/Redirect.thy ===== *)
theory Redirect imports Http Query begin

text \<open>
  \<^verbatim>\<open>http.Redirect\<close> with the statuses 302 (the login flow) and 301 (the multiplexer), and the \<^verbatim>\<open>path.Clean\<close> it applies to
  a relative target. The lemmas bound where such a redirect can lead. \<^verbatim>\<open>url.Parse\<close> is an argument
  and its result is read through its scheme and host.
\<close>

section \<open>path.Clean\<close>

text \<open>The elements kept so far are in reverse in \<open>out\<close>.\<close>

fun clean_elems :: "bool \<Rightarrow> string list \<Rightarrow> string list \<Rightarrow> string list" where
  "clean_elems rooted out [] = rev out"
| "clean_elems rooted out (s # ss) =
     (if s = [] \<or> s = ''.'' then clean_elems rooted out ss
      else if s = ''..'' then
        (case out of
           [] \<Rightarrow> clean_elems rooted (if rooted then [] else [s]) ss
         | o1 # os \<Rightarrow> clean_elems rooted (if o1 = ''..'' then s # out else os) ss)
      else clean_elems rooted (s # out) ss)"

definition path_Clean :: "string \<Rightarrow> string" where
  "path_Clean p =
     (if p = [] then ''.''
      else
        let rooted = (hd p = CHR ''/'');
            body = join ''/'' (clean_elems rooted [] (split_on (CHR ''/'') p))
        in if rooted then CHR ''/'' # body else if body = [] then ''.'' else body)"

text \<open>The directory part of \<^verbatim>\<open>path.Split\<close>.\<close>

definition path_dir :: "string \<Rightarrow> string" where
  "path_dir p = rev (dropWhile (\<lambda>c. c \<noteq> CHR ''/'') (rev p))"

section \<open>http.Redirect\<close>

definition redirect_target :: "(string \<Rightarrow> url option) \<Rightarrow> string \<Rightarrow> string \<Rightarrow> string" where
  "redirect_target parse oldpath target =
     (case parse target of
        None \<Rightarrow> target
      | Some u \<Rightarrow>
          if Scheme u \<noteq> [] \<or> Host u \<noteq> [] then target
          else
            let old = (if oldpath = [] then ''/'' else oldpath);
                t = (if target = [] \<or> hd target \<noteq> CHR ''/'' then path_dir old @ target else target);
                p = takeWhile (\<lambda>c. c \<noteq> CHR ''?'') t;
                q = dropWhile (\<lambda>c. c \<noteq> CHR ''?'') t;
                p' = path_Clean p
            in (if has_suffix p ''/'' \<and> \<not> has_suffix p' ''/'' then p' @ ''/'' else p') @ q)"

definition hex_escape_non_ascii :: "string \<Rightarrow> string" where
  "hex_escape_non_ascii s =
     concat (map (\<lambda>c. if code c < 128 then [c]
       else [CHR ''%'', lower_hex_digit (code c div 16), lower_hex_digit (code c mod 16)]) s)"

definition html_escape_char :: "char \<Rightarrow> string" where
  "html_escape_char c =
     (if c = CHR ''&'' then ''&amp;'' else if c = CHR ''<'' then ''&lt;'' else if c = CHR ''>'' then ''&gt;''
      else if c = CHR 0x22 then ''&#34;'' else if c = CHR 0x27 then ''&#39;'' else [c])"

text \<open>The status and its text are 302 and "Found", or 301 and "Moved Permanently".\<close>

definition redirect_with ::
  "int \<Rightarrow> string \<Rightarrow> (string \<Rightarrow> url option) \<Rightarrow> request \<Rightarrow> string \<Rightarrow> response \<Rightarrow> response" where
  "redirect_with status txt parse req target w =
     (let url = redirect_target parse (Path (req_URL req)) target;
          hadCT = (resp_header w ''Content-Type'' \<noteq> None);
          w1 = set_header ''Location'' (hex_escape_non_ascii url) w;
          w2 = (if \<not> hadCT \<and> (Method req = ''GET'' \<or> Method req = ''HEAD'')
                then set_header ''Content-Type'' ''text/html; charset=utf-8'' w1 else w1);
          w3 = write_header status w2
      in if \<not> hadCT \<and> Method req = ''GET''
         then write_body (''<a href='' @ [CHR 0x22] @ concat (map html_escape_char url) @ [CHR 0x22] @
                ''>'' @ txt @ ''</a>.'' @ [CHR 0x0A, CHR 0x0A]) w3
         else w3)"

definition http_Redirect ::
  "(string \<Rightarrow> url option) \<Rightarrow> request \<Rightarrow> string \<Rightarrow> response \<Rightarrow> response" where
  "http_Redirect = redirect_with 302 ''Found''"

text \<open>The \<^verbatim>\<open>Location\<close> that was sent.\<close>

definition sent_location :: "response \<Rightarrow> string" where
  "sent_location w = (case resp_sent w of None \<Rightarrow> [] | Some (status, h) \<Rightarrow> header_get h ''Location'')"

section \<open>Facts\<close>

lemma clean_elems_kept:
  assumes "list_all (\<lambda>s. s \<noteq> [] \<and> CHR ''/'' \<notin> set s) out" and "list_all (\<lambda>s. CHR ''/'' \<notin> set s) ss"
  shows "list_all (\<lambda>s. s \<noteq> [] \<and> CHR ''/'' \<notin> set s) (clean_elems rooted out ss)"
  using assms by (induction rooted out ss rule: clean_elems.induct) (auto split: list.split)

lemma hd_join: "xs \<noteq> [] \<Longrightarrow> hd xs \<noteq> [] \<Longrightarrow> hd (join sep xs) = hd (hd xs) \<and> join sep xs \<noteq> []"
  by (cases xs; cases "tl xs") auto

text \<open>A path as the code checks it: it starts with one slash, not two.\<close>

definition local_path :: "string \<Rightarrow> bool" where
  "local_path s \<longleftrightarrow> has_prefix s ''/'' \<and> \<not> has_prefix s ''//''"

lemma local_path_Cons: "local_path (CHR ''/'' # s) \<longleftrightarrow> \<not> has_prefix s ''/''"
  by (simp add: local_path_def)

lemma local_path_append: "local_path s \<Longrightarrow> t = [] \<or> hd t \<noteq> CHR ''/'' \<or> 1 < length s \<Longrightarrow> local_path (s @ t)"
  by (cases s rule: remdups_adj.cases; cases t) (auto simp: local_path_def)

lemma path_Clean_rooted:
  assumes "has_prefix p ''/''"
  shows "local_path (path_Clean p)"
proof -
  have p: "p \<noteq> []" "hd p = CHR ''/''" using assms by (cases p; simp)+
  let ?xs = "clean_elems True [] (split_on (CHR ''/'') p)"
  have xs: "list_all (\<lambda>s. s \<noteq> [] \<and> CHR ''/'' \<notin> set s) ?xs"
    by (rule clean_elems_kept) (auto simp: list_all_iff dest: split_on_free)
  have "\<not> has_prefix (join ''/'' ?xs) ''/''"
  proof (cases ?xs)
    case Nil
    then show ?thesis by simp
  next
    case (Cons x ys)
    with xs have x: "x \<noteq> []" "CHR ''/'' \<notin> set x" by auto
    then have hd: "hd (join ''/'' ?xs) = hd x" "join ''/'' ?xs \<noteq> []" using hd_join [of ?xs "''/''"] Cons by auto
    moreover have "hd x \<noteq> CHR ''/''" using x by (metis list.set_sel(1))
    ultimately show ?thesis by (cases "join ''/'' ?xs") auto
  qed
  with p show ?thesis by (simp add: path_Clean_def local_path_Cons)
qed

lemma hex_escape_Cons:
  "hex_escape_non_ascii (c # s) = (if code c < 128 then c # hex_escape_non_ascii s
     else CHR ''%'' # lower_hex_digit (code c div 16) # lower_hex_digit (code c mod 16) #
       hex_escape_non_ascii s)"
  by (simp add: hex_escape_non_ascii_def)

lemma hex_escape_local: "local_path (hex_escape_non_ascii s) = local_path s"
proof (cases s rule: remdups_adj.cases)
  case 1
  then show ?thesis by (simp add: hex_escape_non_ascii_def)
next
  case (2 a)
  then show ?thesis
    by (auto simp: hex_escape_non_ascii_def local_path_def code_def)
next
  case (3 a b t)
  then show ?thesis
    by (auto simp: hex_escape_Cons local_path_def code_def)
qed

lemma hex_escape_ascii: "list_all (\<lambda>c. code c < 128) s \<Longrightarrow> hex_escape_non_ascii s = s"
proof (induction s)
  case Nil
  then show ?case by (simp add: hex_escape_non_ascii_def)
qed (simp add: hex_escape_Cons)

lemma status_http_Redirect [simp]:
  "status_of (http_Redirect parse req target w) =
     (case status_of w of None \<Rightarrow> Some 302 | Some s \<Rightarrow> Some s)"
  by (auto simp: http_Redirect_def redirect_with_def Let_def write_body_def write_header_def status_of_def set_header_def
      split: option.split)

lemma location_http_Redirect:
  assumes "resp_sent w = None"
  shows "sent_location (http_Redirect parse req target w) =
    hex_escape_non_ascii (redirect_target parse (Path (req_URL req)) target)"
proof -
  have "header_get (header_set ''Content-Type'' v (header_set ''Location'' l h)) ''Location'' = l"
    "header_get (header_set ''Location'' l h) ''Location'' = l" for v l h
    by (simp_all add: header_get_set)
  with assms show ?thesis
    by (simp add: sent_location_def http_Redirect_def redirect_with_def Let_def write_body_def write_header_def set_header_def)
qed

lemma redirect_target_query:
  assumes "has_prefix p ''/''" and "CHR ''?'' \<notin> set p" and "path_Clean p = p" and "\<not> has_suffix p ''/''"
  shows "redirect_target parse old (p @ ''?'' @ q) = p @ ''?'' @ q"
proof -
  let ?t = "p @ ''?'' @ q"
  have "p \<noteq> []" "hd p = CHR ''/''" using assms(1) by (cases p; simp)+
  then have rooted: "?t \<noteq> []" "hd ?t = CHR ''/''" by simp_all
  have "takeWhile (\<lambda>c. c \<noteq> CHR ''?'') ?t = p" "dropWhile (\<lambda>c. c \<noteq> CHR ''?'') ?t = ''?'' @ q"
    using assms(2) by (subst takeWhile_append2 dropWhile_append2; auto)+
  with assms(3,4) rooted show ?thesis
    by (simp add: redirect_target_def Let_def del: takeWhile_append dropWhile_append split: option.split)
qed

text \<open>A redirect to a local path stays local, whatever \<^verbatim>\<open>url.Parse\<close> makes of it.\<close>

lemma redirect_target_local:
  assumes "local_path t"
  shows "local_path (redirect_target parse old t)"
proof -
  let ?p = "takeWhile (\<lambda>c. c \<noteq> CHR ''?'') t" and ?q = "dropWhile (\<lambda>c. c \<noteq> CHR ''?'') t"
  from assms obtain t' where t: "t = CHR ''/'' # t'" by (cases t) (auto simp: local_path_def)
  have clean: "local_path (path_Clean ?p)" by (rule path_Clean_rooted) (simp add: t)
  have q: "?q = [] \<or> hd ?q = CHR ''?''" using hd_dropWhile [of "\<lambda>c. c \<noteq> CHR ''?''" t] by auto
  have ext: "local_path (s @ ''/'' @ ?q)" if "local_path s" "\<not> has_suffix s ''/''" for s
  proof -
    from that have "1 < length s" by (cases s rule: remdups_adj.cases) (auto simp: local_path_def has_suffix_single)
    with that(1) show ?thesis by (simp add: local_path_append)
  qed
  have "local_path (path_Clean ?p @ ?q)" using clean q by (intro local_path_append) auto
  with assms clean ext show ?thesis
    by (auto simp: redirect_target_def Let_def t split: option.split)
qed

section \<open>How a browser reads a location\<close>

text \<open>
  By the URL standard a browser drops tabs and line ends from a \<^verbatim>\<open>Location\<close> and takes a backslash for a
  slash; of one that starts with a slash it stays on the host unless a second one follows then.
\<close>

definition reread :: "char \<Rightarrow> bool" where
  "reread c \<longleftrightarrow> c \<in> {CHR 0x5C, CHR 0x09, CHR 0x0A, CHR 0x0D}"

definition browser_slash :: "char \<Rightarrow> bool" where
  "browser_slash c \<longleftrightarrow> c = CHR ''/'' \<or> c = CHR 0x5C"

definition stays_here :: "string \<Rightarrow> bool" where
  "stays_here s \<longleftrightarrow>
     (case filter (\<lambda>c. c \<notin> {CHR 0x09, CHR 0x0A, CHR 0x0D}) s of
        [] \<Rightarrow> False
      | [a] \<Rightarrow> browser_slash a
      | a # b # t \<Rightarrow> browser_slash a \<and> \<not> browser_slash b)"

abbreviation plain :: "string \<Rightarrow> bool" where
  "plain \<equiv> list_all (\<lambda>c. \<not> reread c)"

lemma plain_subset: "plain s \<Longrightarrow> set t \<subseteq> set s \<Longrightarrow> plain t"
  by (auto simp: list_all_iff)

text \<open>On plain text the browser's reading is the code's.\<close>

lemma plain_stays: "plain s \<Longrightarrow> local_path s \<Longrightarrow> stays_here s"
proof -
  assume "plain s" and loc: "local_path s"
  then have "filter (\<lambda>c. c \<notin> {CHR 0x09, CHR 0x0A, CHR 0x0D}) s = s"
    by (auto simp: filter_id_conv list_all_iff reread_def)
  with \<open>plain s\<close> loc show "stays_here s"
    by (cases s rule: remdups_adj.cases) (auto simp: stays_here_def local_path_def browser_slash_def reread_def)
qed

lemma plain_join: "list_all plain xs \<Longrightarrow> plain sep \<Longrightarrow> plain (join sep xs)"
  by (induction sep xs rule: join.induct) simp_all

lemma plain_clean_elems: "list_all plain out \<Longrightarrow> list_all plain ss \<Longrightarrow> list_all plain (clean_elems rooted out ss)"
  by (induction rooted out ss rule: clean_elems.induct) (auto split: list.split)

lemma plain_path_Clean:
  assumes "plain p"
  shows "plain (path_Clean p)"
proof -
  have "list_all plain (split_on (CHR ''/'') p)"
    using assms by (induction p) (auto simp: reread_def split: list.split)
  then have "plain (join ''/'' (clean_elems rooted [] (split_on (CHR ''/'') p)))" for rooted
    by (intro plain_join plain_clean_elems) (simp_all add: reread_def)
  then show ?thesis by (simp add: path_Clean_def Let_def reread_def)
qed

lemma plain_redirect_target:
  assumes "plain old" and "plain t"
  shows "plain (redirect_target parse old t)"
proof -
  have "plain (path_dir u)" if "plain u" for u
    by (rule plain_subset [OF that]) (auto simp: path_dir_def dest: set_dropWhileD)
  moreover have "plain (takeWhile P u)" "plain (dropWhile P u)" if "plain u" for P u
    using that by (auto intro: plain_subset dest: set_takeWhileD set_dropWhileD)
  ultimately show ?thesis
    using assms plain_path_Clean by (auto simp: redirect_target_def Let_def reread_def split: option.split)
qed

lemma plain_hex_escape: "plain s \<Longrightarrow> plain (hex_escape_non_ascii s)"
proof (induction s)
  case (Cons c s)
  have "\<not> reread (lower_hex_digit n)" if "n < 16" for n
    using lower_hex_neq [OF _ that] by (auto simp: reread_def code_def)
  moreover have "code c div 16 < 16" by (simp add: less_mult_imp_div_less)
  ultimately show ?case using Cons by (simp add: hex_escape_Cons reread_def)
qed (simp add: hex_escape_non_ascii_def)

end
