(* ===== verification/Routing.thy ===== *)
theory Routing imports Http UrlPath begin

text \<open>
  Route selection of \<^verbatim>\<open>internal/dataplane/server.go\<close>: \<^verbatim>\<open>normalizeHost\<close>, \<^verbatim>\<open>pathMatches\<close> and \<^verbatim>\<open>match\<close>,
  the route headers (\<^verbatim>\<open>applyRouteHeaders\<close>, \<^verbatim>\<open>stripTrustedHeaders\<close>), and the specification that
  \<^verbatim>\<open>match\<close> computes: the first of the longest matching prefixes.
\<close>

section \<open>Hosts\<close>

definition index_of :: "char \<Rightarrow> string \<Rightarrow> nat option" where
  "index_of c s = (if c \<in> set s then Some (length (takeWhile (\<lambda>d. d \<noteq> c) s)) else None)"

definition last_index_of :: "char \<Rightarrow> string \<Rightarrow> nat option" where
  "last_index_of c s =
     (if c \<in> set s then Some (length s - 1 - length (takeWhile (\<lambda>d. d \<noteq> c) (rev s))) else None)"

text \<open>The host of \<^verbatim>\<open>net.SplitHostPort\<close>; \<open>None\<close> is its error.\<close>

definition SplitHost :: "string \<Rightarrow> string option" where
  "SplitHost s =
     (case last_index_of (CHR '':'') s of
        None \<Rightarrow> None
      | Some i \<Rightarrow>
          if hd s = CHR ''['' then
            (case index_of (CHR '']'') s of
               None \<Rightarrow> None
             | Some e \<Rightarrow>
                 if e + 1 \<noteq> i then None
                 else if CHR ''['' \<in> set (drop 1 s) \<or> CHR '']'' \<in> set (drop (e + 1) s) then None
                 else Some (take (e - 1) (drop 1 s)))
          else if CHR '':'' \<in> set (take i s) then None
          else if CHR ''['' \<in> set s \<or> CHR '']'' \<in> set s then None
          else Some (take i s))"

definition normalizeHost :: "string \<Rightarrow> string" where
  "normalizeHost value =
     (let value' = (case SplitHost value of Some host \<Rightarrow> host | None \<Rightarrow> value)
      in to_lower (trim_suffix value' ''.''))"

section \<open>Routes\<close>

text \<open>
  A compiled route. Its upstream is a pointer to the pool, here the pool's name: the map of pools
  that \<^verbatim>\<open>ReconfigureWithAuthorizer\<close> builds has one pool per name.
\<close>

record compiledRoute =
  cr_name :: string
  cr_host :: string
  cr_pathPrefix :: string
  cr_methods :: "string set"
  cr_headers :: "string \<rightharpoonup> string"
  cr_requireAuth :: bool
  cr_scopes :: "string list"
  cr_upstream :: string

definition pathMatches :: "string \<Rightarrow> string \<Rightarrow> bool" where
  "pathMatches prefix requestPath \<longleftrightarrow>
     prefix = ''/'' \<or> requestPath = prefix \<or> has_prefix requestPath (trim_suffix prefix ''/'' @ ''/'')"

text \<open>\<open>best\<close> and \<open>allowed\<close> are the loop's variables \<^verbatim>\<open>best\<close> and \<^verbatim>\<open>methodAllowed\<close>.\<close>

fun match_from ::
  "compiledRoute list \<Rightarrow> string \<Rightarrow> string \<Rightarrow> string \<Rightarrow> compiledRoute option \<Rightarrow> bool \<Rightarrow>
   compiledRoute option \<times> bool" where
  "match_from [] host path meth best allowed = (best, allowed)"
| "match_from (r # rs) host path meth best allowed =
     (if cr_host r \<noteq> [] \<and> cr_host r \<noteq> host then match_from rs host path meth best allowed
      else if \<not> pathMatches (cr_pathPrefix r) path then match_from rs host path meth best allowed
      else if cr_methods r \<noteq> {} \<and> meth \<notin> cr_methods r then match_from rs host path meth best True
      else
        (case best of
           None \<Rightarrow> match_from rs host path meth (Some r) allowed
         | Some b \<Rightarrow>
             if length (cr_pathPrefix b) < length (cr_pathPrefix r)
             then match_from rs host path meth (Some r) allowed
             else match_from rs host path meth best allowed))"

definition match :: "compiledRoute list \<Rightarrow> request \<Rightarrow> compiledRoute option \<times> bool" where
  "match routes req =
     match_from routes (normalizeHost (req_Host req)) (Path (req_URL req)) (Method req) None False"

section \<open>Route headers\<close>

definition trusted_headers :: "string list" where
  "trusted_headers =
     [''X-Authenticated-Subject'', ''X-Authenticated-Email'', ''X-Authenticated-Scopes'']"

definition stripTrustedHeaders :: "header \<Rightarrow> header" where
  "stripTrustedHeaders h =
     header_del ''X-Authenticated-Scopes''
       (header_del ''X-Authenticated-Email'' (header_del ''X-Authenticated-Subject'' h))"

definition protected_header :: "string \<Rightarrow> bool" where
  "protected_header canonical \<longleftrightarrow>
     canonical = ''X-Authenticated-Subject'' \<or> canonical = ''X-Authenticated-Email'' \<or>
     canonical = ''X-Authenticated-Scopes'' \<or> canonical = ''Authorization'' \<or> canonical = ''Cookie''"

text \<open>
  Go ranges over a map in an unspecified order: \<open>order\<close> is the order taken, an enumeration of the
  map's keys.
\<close>

fun applyRouteHeaders :: "string list \<Rightarrow> (string \<rightharpoonup> string) \<Rightarrow> header \<Rightarrow> header" where
  "applyRouteHeaders [] headers h = h"
| "applyRouteHeaders (key # order) headers h =
     applyRouteHeaders order headers
       (case headers key of
          None \<Rightarrow> h
        | Some value \<Rightarrow>
            let canonical = CanonicalHeaderKey key in
            if protected_header canonical then h else header_set canonical value h)"

section \<open>What \<open>match\<close> computes\<close>

definition reaches :: "string \<Rightarrow> string \<Rightarrow> compiledRoute \<Rightarrow> bool" where
  "reaches host path r \<longleftrightarrow> (cr_host r = [] \<or> cr_host r = host) \<and> pathMatches (cr_pathPrefix r) path"

definition accepts :: "string \<Rightarrow> compiledRoute \<Rightarrow> bool" where
  "accepts meth r \<longleftrightarrow> cr_methods r = {} \<or> meth \<in> cr_methods r"

text \<open>The first of the routes with the longest prefix.\<close>

definition longest_in :: "compiledRoute list \<Rightarrow> compiledRoute \<Rightarrow> bool" where
  "longest_in rs r \<longleftrightarrow> (\<forall>r' \<in> set rs. length (cr_pathPrefix r') \<le> length (cr_pathPrefix r))"

definition first_longest :: "compiledRoute list \<Rightarrow> compiledRoute option" where
  "first_longest rs = find (longest_in rs) rs"

definition route_spec :: "compiledRoute list \<Rightarrow> request \<Rightarrow> compiledRoute option" where
  "route_spec routes req =
     first_longest (filter (\<lambda>r. reaches (normalizeHost (req_Host req)) (Path (req_URL req)) r \<and>
       accepts (Method req) r) routes)"

lemma first_longest_Cons:
  "first_longest (b # r # rs) =
     (if length (cr_pathPrefix b) < length (cr_pathPrefix r)
      then first_longest (r # rs) else first_longest (b # rs))"
proof (cases "length (cr_pathPrefix b) < length (cr_pathPrefix r)")
  case True
  then have "longest_in (b # r # rs) = longest_in (r # rs)" and "\<not> longest_in (b # r # rs) b"
    by (fastforce simp: longest_in_def)+
  with True show ?thesis by (simp add: first_longest_def)
next
  case False
  then have *: "longest_in (b # r # rs) = longest_in (b # rs)"
    by (fastforce simp: longest_in_def)
  have "longest_in (b # rs) r \<Longrightarrow> longest_in (b # rs) b"
    using False by (fastforce simp: longest_in_def)
  with False show ?thesis by (auto simp: first_longest_def *)
qed

lemma match_from_best:
  "fst (match_from rs host path meth best allowed) =
     first_longest (case_option [] (\<lambda>b. [b]) best @
       filter (\<lambda>r. reaches host path r \<and> accepts meth r) rs)"
proof (induction rs arbitrary: best allowed)
  case Nil
  then show ?case by (simp add: first_longest_def longest_in_def split: option.split)
next
  case (Cons r rs)
  then show ?case
    by (auto simp: reaches_def accepts_def first_longest_Cons split: option.split)
qed

lemma match_from_allowed:
  "snd (match_from rs host path meth best allowed) \<longleftrightarrow>
     allowed \<or> (\<exists>r \<in> set rs. reaches host path r \<and> \<not> accepts meth r)"
proof (induction rs arbitrary: best allowed)
  case Nil
  then show ?case by simp
next
  case (Cons r rs)
  then show ?case by (auto simp: reaches_def accepts_def split: option.split)
qed

lemma match_spec:
  "match routes req =
     (route_spec routes req,
      \<exists>r \<in> set routes. reaches (normalizeHost (req_Host req)) (Path (req_URL req)) r \<and>
        \<not> accepts (Method req) r)"
  by (simp add: match_def route_spec_def prod_eq_iff match_from_best match_from_allowed)

lemma longest_exists:
  assumes "rs \<noteq> []"
  shows "\<exists>r \<in> set rs. longest_in rs r"
proof -
  let ?L = "(\<lambda>r. length (cr_pathPrefix r)) ` set rs"
  from assms have "Max ?L \<in> ?L" by (intro Max_in) auto
  then obtain r where "r \<in> set rs" "length (cr_pathPrefix r) = Max ?L" by auto
  then show ?thesis by (auto intro!: bexI [of _ r] simp: longest_in_def)
qed

lemma first_longest_None: "first_longest rs = None \<longleftrightarrow> rs = []"
  using longest_exists [of rs] by (auto simp: first_longest_def find_None_iff)

lemma first_longest_Some: "first_longest rs = Some r \<Longrightarrow> r \<in> set rs \<and> longest_in rs r"
  by (auto simp: first_longest_def find_Some_iff)

section \<open>Facts about hosts\<close>

definition plain_host :: "string \<Rightarrow> bool" where
  "plain_host s \<longleftrightarrow> CHR '':'' \<notin> set s \<and> CHR ''['' \<notin> set s \<and> CHR '']'' \<notin> set s"

lemma SplitHost_plain: "plain_host h \<Longrightarrow> SplitHost h = None"
  by (simp add: SplitHost_def last_index_of_def plain_host_def)

lemma last_index_of_append:
  "c \<notin> set t \<Longrightarrow> last_index_of c (s @ c # t) = Some (length s)"
proof -
  assume "c \<notin> set t"
  then have "takeWhile (\<lambda>d. d \<noteq> c) (rev t @ c # rev s) = rev t"
    by (subst takeWhile_append2) auto
  then show ?thesis by (simp add: last_index_of_def)
qed

lemma SplitHost_port:
  assumes "plain_host h" and "plain_host p"
  shows "SplitHost (h @ CHR '':'' # p) = Some h"
proof -
  have "hd (h @ CHR '':'' # p) \<noteq> CHR ''[''"
    using assms(1) by (cases h) (auto simp: plain_host_def)
  moreover have "last_index_of (CHR '':'') (h @ CHR '':'' # p) = Some (length h)"
    using assms(2) by (intro last_index_of_append) (simp add: plain_host_def)
  ultimately show ?thesis
    using assms unfolding SplitHost_def by (simp add: plain_host_def)
qed

lemma normalizeHost_plain: "plain_host h \<Longrightarrow> normalizeHost h = to_lower (trim_suffix h ''.'')"
  by (simp add: normalizeHost_def SplitHost_plain)

lemma normalizeHost_port:
  "plain_host h \<Longrightarrow> plain_host p \<Longrightarrow> normalizeHost (h @ CHR '':'' # p) = normalizeHost h"
  by (simp add: normalizeHost_def SplitHost_port SplitHost_plain)

lemma lower_char_marks [simp]:
  "lower_char c = CHR '':'' \<longleftrightarrow> c = CHR '':''" "lower_char c = CHR ''['' \<longleftrightarrow> c = CHR ''[''"
  "lower_char c = CHR '']'' \<longleftrightarrow> c = CHR '']''" "lower_char c = CHR ''.'' \<longleftrightarrow> c = CHR ''.''"
  by (rule lower_char_keeps; simp add: is_upper_def is_lower_def code_def)+

lemma mem_to_lower: "(\<And>c. lower_char c = d \<longleftrightarrow> c = d) \<Longrightarrow> d \<in> set (to_lower s) \<longleftrightarrow> d \<in> set s"
  unfolding to_lower_def set_map image_iff by metis

lemma plain_host_to_lower [simp]: "plain_host (to_lower h) = plain_host h"
  by (simp add: plain_host_def mem_to_lower)

lemma has_suffix_dot_lower [simp]: "has_suffix (to_lower h) ''.'' = has_suffix h ''.''"
  by (cases "h = []") (simp_all add: has_suffix_single to_lower_def last_map)

lemma normalizeHost_case:
  assumes "plain_host h"
  shows "normalizeHost (to_lower h) = normalizeHost h"
proof -
  have "to_lower (trim_suffix (to_lower h) ''.'') = to_lower (trim_suffix h ''.'')"
    by (simp add: trim_suffix_def) (simp add: to_lower_def take_map comp_def)
  with assms show ?thesis by (simp add: normalizeHost_plain)
qed

lemma normalizeHost_dot:
  assumes "plain_host h" and "\<not> has_suffix h ''.''"
  shows "normalizeHost (h @ ''.'') = normalizeHost h"
proof -
  have "plain_host (h @ ''.'')" using assms(1) by (simp add: plain_host_def)
  with assms show ?thesis by (simp add: normalizeHost_plain trim_suffix_none)
qed

section \<open>Facts about headers\<close>

lemma stripTrustedHeaders_eq:
  "stripTrustedHeaders h k = (if k \<in> set trusted_headers then None else h k)"
  by (simp add: stripTrustedHeaders_def header_del_def trusted_headers_def)

lemma trusted_protected: "k \<in> set trusted_headers \<Longrightarrow> protected_header k"
  by (auto simp: trusted_headers_def protected_header_def)

lemma applyRouteHeaders_protected:
  assumes "protected_header k"
  shows "applyRouteHeaders order headers h k = h k"
  using assms
proof (induction order arbitrary: h)
  case Nil
  then show ?case by simp
next
  case (Cons key order)
  have "header_set (CanonicalHeaderKey key) v h k = h k" if "\<not> protected_header (CanonicalHeaderKey key)" for v
    using that Cons.prems by (auto simp: header_set_def)
  with Cons show ?case by (auto simp: Let_def split: option.split)
qed

text \<open>
  When no two keys of the map are spelled alike, the headers set do not depend on the order in
  which Go ranges over the map.
\<close>

lemma applyRouteHeaders_order:
  assumes "inj_on CanonicalHeaderKey (set order)" and "distinct order" and "set order \<subseteq> dom headers"
  shows "applyRouteHeaders order headers h k =
    (if \<not> protected_header k \<and> (\<exists>key \<in> set order. CanonicalHeaderKey key = k)
     then Some [the (headers (THE key. key \<in> set order \<and> CanonicalHeaderKey key = k))] else h k)"
  using assms
proof (induction order arbitrary: h)
  case Nil
  then show ?case by simp
next
  case (Cons key order)
  then obtain v where v: "headers key = Some v" by auto
  let ?h = "if protected_header (CanonicalHeaderKey key) then h else header_set (CanonicalHeaderKey key) v h"
  have IH: "applyRouteHeaders order headers ?h k =
    (if \<not> protected_header k \<and> (\<exists>key \<in> set order. CanonicalHeaderKey key = k)
     then Some [the (headers (THE key. key \<in> set order \<and> CanonicalHeaderKey key = k))] else ?h k)"
    using Cons.prems by (intro Cons.IH) (auto simp: inj_on_def)
  have step: "applyRouteHeaders (key # order) headers h k = applyRouteHeaders order headers ?h k"
    using v by (simp add: Let_def)
  show ?case
  proof (cases "CanonicalHeaderKey key = k")
    case True
    have "\<not> (\<exists>key' \<in> set order. CanonicalHeaderKey key' = k)"
      using Cons.prems True by (auto simp: inj_on_def)
    moreover from this True have "(THE key'. key' \<in> set (key # order) \<and> CanonicalHeaderKey key' = k) = key"
      by (intro the_equality) auto
    ultimately show ?thesis
      unfolding step IH using True v by (auto simp: header_set_def)
  next
    case False
    then have "(key' \<in> set (key # order) \<and> CanonicalHeaderKey key' = k) =
        (key' \<in> set order \<and> CanonicalHeaderKey key' = k)" for key'
      by auto
    with False show ?thesis
      unfolding step IH by (auto simp: header_set_def)
  qed
qed

lemma applyRouteHeaders_two_orders:
  assumes "inj_on CanonicalHeaderKey (dom headers)" and "distinct o1" and "distinct o2"
    and "set o1 = dom headers" and "set o2 = dom headers"
  shows "applyRouteHeaders o1 headers h = applyRouteHeaders o2 headers h"
  using assms by (intro ext) (simp add: applyRouteHeaders_order)

section \<open>Properties\<close>

text \<open>
  Claim C8: \<^verbatim>\<open>match\<close> returns the first of the routes with the longest prefix among those that serve
  the request's host, path and method, and nothing when there is none; its flag says whether some
  route serves the host and path with other methods only.
\<close>

theorem match_first_longest:
  "match routes req =
     (first_longest (filter (\<lambda>r. reaches (normalizeHost (req_Host req)) (Path (req_URL req)) r \<and>
        accepts (Method req) r) routes),
      \<exists>r \<in> set routes. reaches (normalizeHost (req_Host req)) (Path (req_URL req)) r \<and>
        \<not> accepts (Method req) r)"
  by (simp add: match_spec route_spec_def)

text \<open>
  A request is routed alike whatever the port, the letter case and a final dot of its
  host name.
\<close>

lemma match_ignores_port_case_dot:
  assumes "plain_host h" and "plain_host port" and "\<not> has_suffix h ''.''"
  shows "match routes (req\<lparr>req_Host := h @ ''.'' @ CHR '':'' # port\<rparr>) =
    match routes (req\<lparr>req_Host := to_lower h\<rparr>)"
proof -
  have "plain_host (h @ ''.'')" using assms(1) by (simp add: plain_host_def)
  then have "normalizeHost (h @ ''.'' @ CHR '':'' # port) = normalizeHost (to_lower h)"
    using assms normalizeHost_port [of "h @ ''.''" port]
    by (simp add: normalizeHost_dot normalizeHost_case)
  then show ?thesis by (simp add: match_def)
qed

definition sample_request :: request where
  "sample_request =
     \<lparr>Method = ''GET'', req_Host = ''Api.Example.com'',
      req_URL = \<lparr>Scheme = [], Host = [], Path = ''/api/items'', RawPath = [], RawQuery = []\<rparr>,
      RequestURI = ''/api/items'', Header = Map.empty, RemoteAddr = ''192.0.2.1:5000'',
      ContentLength = 0, Signals = None\<rparr>"

definition sample_route :: compiledRoute where
  "sample_route =
     \<lparr>cr_name = ''api'', cr_host = ''api.example.com'', cr_pathPrefix = ''/api'', cr_methods = {''GET''},
      cr_headers = Map.empty, cr_requireAuth = False, cr_scopes = [], cr_upstream = ''api''\<rparr>"

text \<open>
  After trusted headers are stripped and route headers applied, whatever the route's
  configuration and the order of its map, the identity headers are absent and the client's
  credentials are the ones it sent.
\<close>

lemma route_headers_never_forge_identity:
  assumes "protected_header k"
  shows "applyRouteHeaders order headers (stripTrustedHeaders h) k =
    (if k \<in> set trusted_headers then None else h k)"
  using assms by (simp add: applyRouteHeaders_protected stripTrustedHeaders_eq)

text \<open>Two spellings of one header: the last one visited wins.\<close>

lemma route_headers_order_matters:
  "applyRouteHeaders [''x-a'', ''X-A''] [''x-a'' \<mapsto> ''1'', ''X-A'' \<mapsto> ''2''] Map.empty ''X-A'' = Some [''2''] \<and>
   applyRouteHeaders [''X-A'', ''x-a''] [''x-a'' \<mapsto> ''1'', ''X-A'' \<mapsto> ''2''] Map.empty ''X-A'' = Some [''1'']"
proof -
  have "CanonicalHeaderKey ''x-a'' = ''X-A''" "CanonicalHeaderKey ''X-A'' = ''X-A''" by code_simp+
  then show ?thesis by (simp add: protected_header_def header_set_def)
qed

end
