(* ===== verification/Authorizer.thy ===== *)
theory Authorizer imports Routing begin

text \<open>
  The interface \<^verbatim>\<open>Authorizer\<close> of \<^verbatim>\<open>internal/dataplane/server.go\<close>: what the data plane calls, and what
  it relies on. An authorizer is called with the clock of the request, the scopes of the route, the
  request and the response.
\<close>

type_synonym authorize = "(nat \<Rightarrow> time) \<Rightarrow> string list \<Rightarrow> request \<Rightarrow> response \<Rightarrow> bool \<times> request \<times> response"

definition untrusted_headers_kept :: "header \<Rightarrow> header \<Rightarrow> bool" where
  "untrusted_headers_kept h h' \<longleftrightarrow> (\<forall>k. k \<notin> set trusted_headers \<longrightarrow> h' k = h k)"

locale authorizer =
  fixes authorize :: authorize
    and identity :: "(nat \<Rightarrow> time) \<Rightarrow> string list \<Rightarrow> request \<Rightarrow> header \<Rightarrow> bool"
  assumes denied: "authorize clock scopes req w = (False, req', w') \<Longrightarrow> status_of w = None \<Longrightarrow>
      status_of w' \<in> {Some 302, Some 401, Some 403}"
    and granted: "authorize clock scopes req w = (True, req', w') \<Longrightarrow>
      w' = w \<and> identity clock scopes req (Header req') \<and> untrusted_headers_kept (Header req) (Header req')"
    and same_target: "authorize clock scopes req w = (b, req', w') \<Longrightarrow>
      Method req' = Method req \<and> req_URL req' = req_URL req \<and> req_Host req' = req_Host req"
begin

lemma answered: "authorize clock scopes req w = (False, req', w') \<Longrightarrow> status_of w = None \<Longrightarrow> status_of w' \<noteq> None"
  using denied by fastforce

lemma silent: "authorize clock scopes req w = (True, req', w') \<Longrightarrow> w' = w"
  using granted by blast

end

end
