(* ===== verification/Auth.thy ===== *)
theory Auth imports Config Metrics Redirect Authorizer begin

text \<open>
  The package \<^verbatim>\<open>internal/auth\<close>: sealed session cookies, bearer tokens, scopes, the OpenID Connect
  login flow with its one-time login states, and the handlers around them. Cryptography, cookie
  and JSON encodings and the identity provider are the fields of \<open>auth_lib\<close>; random tokens and
  the clock are arguments.
\<close>

section \<open>State\<close>

record Claims =
  Subject :: string
  Email :: string
  Scopes :: "string list"
  Expiry :: time
  Nonce :: string

record oauth_config =
  oauth_ClientID :: string
  oauth_ClientSecret :: string
  oauth_RedirectURL :: string
  oauth_Scopes :: "string list"

record login_state =
  returnPath :: string
  state_verifier :: string
  state_nonce :: string
  expires :: time

text \<open>
  The verifier is an interface value, \<open>None\<close> when nil; what it returns for a raw token is \<open>None\<close>
  for an error. Without \<open>oauth\<close> there is no login flow.
\<close>

record Middleware =
  mw_mode :: string
  mw_verifier :: "(string \<Rightarrow> Claims option) option"
  mw_oauth :: "oauth_config option"
  cookieName :: string
  cookieKey :: string
  secureCookie :: bool
  states :: "string \<rightharpoonup> login_state"

record cookie =
  ck_Name :: string
  ck_Value :: string
  ck_Path :: string
  ck_Expires :: "time option"
  ck_MaxAge :: int
  ck_HttpOnly :: bool
  ck_Secure :: bool
  ck_SameSiteLax :: bool

text \<open>
  Reading a cookie of the request and printing one; unpadded URL-safe base 64; SHA-256; AES-GCM
  sealing and opening under a key and a nonce; the JSON form of claims; the provider's
  authorization URL (configuration, state, PKCE verifier, nonce) and code exchange (configuration,
  code, PKCE verifier), whose token has an \<^verbatim>\<open>id_token\<close> or not; \<^verbatim>\<open>url.Parse\<close>.
\<close>

record auth_lib =
  lib_cookie :: "header \<Rightarrow> string \<Rightarrow> string option"
  lib_cookie_text :: "cookie \<Rightarrow> string"
  lib_b64 :: "string \<Rightarrow> string"
  lib_unb64 :: "string \<Rightarrow> string option"
  lib_sha256 :: "string \<Rightarrow> string"
  lib_seal :: "string \<Rightarrow> string \<Rightarrow> string \<Rightarrow> string"
  lib_open :: "string \<Rightarrow> string \<Rightarrow> string \<Rightarrow> string option"
  lib_marshal :: "Claims \<Rightarrow> string option"
  lib_unmarshal :: "string \<Rightarrow> Claims option"
  lib_auth_url :: "oauth_config \<Rightarrow> string \<Rightarrow> string \<Rightarrow> string \<Rightarrow> string"
  lib_exchange :: "oauth_config \<Rightarrow> string \<Rightarrow> string \<Rightarrow> string option option"
  lib_parse :: "string \<Rightarrow> url option"

section \<open>Construction\<close>

datatype auth_error =
  Discovery | ReadSecret | ShortSecret | CreateKey | ReadClientSecret | AuthRedirectNotAbsolute | AuthRedirectNotHTTPS

definition newMiddleware ::
  "string \<Rightarrow> (string \<Rightarrow> Claims option) option \<Rightarrow> string \<Rightarrow> string \<Rightarrow> Middleware" where
  "newMiddleware mode v key name =
     \<lparr>mw_mode = mode, mw_verifier = v, mw_oauth = None, cookieName = name, cookieKey = key,
      secureCookie = False, states = Map.empty\<rparr>"

text \<open>
  \<open>discover\<close> is the provider's verifier for the client (\<open>None\<close>: discovery failed), \<open>read\<close> reads a
  file, \<open>fresh\<close> is what the random source yields for a bearer key.
\<close>

definition session_key ::
  "(string \<Rightarrow> string option) \<Rightarrow> string option \<Rightarrow> AuthConfig \<Rightarrow> auth_error + string" where
  "session_key read fresh cfg =
     (if Mode cfg = ''oidc'' then
        (case read (SessionSecretFile cfg) of
           None \<Rightarrow> Inl ReadSecret
         | Some key \<Rightarrow> if length key < 32 then Inl ShortSecret else Inr key)
      else (case fresh of None \<Rightarrow> Inl CreateKey | Some key \<Rightarrow> Inr key))"

definition configure_login ::
  "(string \<Rightarrow> url option) \<Rightarrow> (string \<Rightarrow> string option) \<Rightarrow> AuthConfig \<Rightarrow> Middleware \<Rightarrow>
   auth_error + Middleware" where
  "configure_login parse read cfg m =
     (case read (ClientSecretFile cfg) of
        None \<Rightarrow> Inl ReadClientSecret
      | Some secret \<Rightarrow>
          let m1 = m\<lparr>mw_oauth := Some \<lparr>oauth_ClientID = ClientID cfg, oauth_ClientSecret = trim_space secret,
                oauth_RedirectURL = RedirectURL cfg, oauth_Scopes = elems (AllowedScopes cfg)\<rparr>\<rparr>
          in (case parse (RedirectURL cfg) of
                None \<Rightarrow> Inl AuthRedirectNotAbsolute
              | Some u \<Rightarrow>
                  if Scheme u = [] \<or> Host u = [] then Inl AuthRedirectNotAbsolute
                  else if Scheme u \<noteq> ''https'' \<and> \<not> AllowInsecureRedirect cfg
                    then Inl AuthRedirectNotHTTPS
                  else Inr (m1\<lparr>secureCookie := (Scheme u = ''https'')\<rparr>)))"

definition auth_New ::
  "(string \<Rightarrow> url option) \<Rightarrow> (string \<Rightarrow> string \<Rightarrow> (string \<Rightarrow> Claims option) option) \<Rightarrow>
   (string \<Rightarrow> string option) \<Rightarrow> string option \<Rightarrow> AuthConfig \<Rightarrow> auth_error + Middleware" where
  "auth_New parse discover read fresh cfg =
     (case discover (IssuerURL cfg) (ClientID cfg) of
        None \<Rightarrow> Inl Discovery
      | Some v \<Rightarrow>
          and_then (session_key read fresh cfg)
            (\<lambda>key.
              let m = newMiddleware (Mode cfg) (Some v) key (SessionCookieName cfg) in
              if Mode cfg = ''oidc'' then configure_login parse read cfg m else Inr m))"

text \<open>
  \<^verbatim>\<open>oidcVerifier.Verify\<close>: the provider's verifier checks the raw token (\<open>None\<close>: refused), then its
  claims are decoded (\<open>None\<close>: not the expected JSON) as subject, email, scope, expiry in seconds
  since 1970 and nonce.
\<close>

definition unix_time :: "int \<Rightarrow> time" where
  "unix_time s = i64 (s + 62135596800) * second"

definition oidc_Verify ::
  "(string \<Rightarrow> 't option) \<Rightarrow> ('t \<Rightarrow> (string \<times> string \<times> string \<times> int \<times> string) option) \<Rightarrow>
   string \<Rightarrow> Claims option" where
  "oidc_Verify check decode raw =
     (case check raw of
        None \<Rightarrow> None
      | Some token \<Rightarrow>
          (case decode token of
             None \<Rightarrow> None
           | Some (subj, mail, scope, expiry, nonce) \<Rightarrow>
               Some \<lparr>Subject = subj, Email = mail, Scopes = GoText.fields scope, Expiry = unix_time expiry,
                 Nonce = nonce\<rparr>))"

section \<open>Checks\<close>

definition validClaims :: "Claims \<Rightarrow> time \<Rightarrow> bool" where
  "validClaims c now \<longleftrightarrow> Subject c \<noteq> [] \<and> now < Expiry c"

definition validNonce :: "string \<Rightarrow> string \<Rightarrow> bool" where
  "validNonce actual expected \<longleftrightarrow> expected \<noteq> [] \<and> actual \<noteq> [] \<and> actual = expected"

definition hasScopes :: "string list \<Rightarrow> string list \<Rightarrow> bool" where
  "hasScopes granted required \<longleftrightarrow> (\<forall>s \<in> set required. s \<in> set granted)"

definition safeReturnPath :: "string \<Rightarrow> bool" where
  "safeReturnPath value \<longleftrightarrow> value = [] \<or> has_prefix value ''/'' \<and> \<not> has_prefix value ''//''"

definition acceptsHTML :: "request \<Rightarrow> bool" where
  "acceptsHTML req \<longleftrightarrow> contains (header_get (Header req) ''Accept'') ''text/html''"

section \<open>Sessions\<close>

definition gcm_nonce_size :: nat where
  "gcm_nonce_size = 12"

definition keyBytes :: "auth_lib \<Rightarrow> string \<Rightarrow> string" where
  "keyBytes lib value = lib_sha256 lib value"

text \<open>\<open>fresh\<close> is what the random source yields for the nonce.\<close>

definition sealSession :: "auth_lib \<Rightarrow> Middleware \<Rightarrow> string option \<Rightarrow> Claims \<Rightarrow> string option" where
  "sealSession lib m fresh claims =
     (case lib_marshal lib claims of
        None \<Rightarrow> None
      | Some payload \<Rightarrow>
          (case fresh of
             None \<Rightarrow> None
           | Some nonce \<Rightarrow>
               Some (lib_b64 lib (nonce @ lib_seal lib (keyBytes lib (cookieKey m)) nonce payload))))"

definition openSession :: "auth_lib \<Rightarrow> Middleware \<Rightarrow> time \<Rightarrow> string \<Rightarrow> Claims option" where
  "openSession lib m now value =
     (case lib_unb64 lib value of
        None \<Rightarrow> None
      | Some sealed \<Rightarrow>
          if length sealed < gcm_nonce_size then None
          else
            (case lib_open lib (keyBytes lib (cookieKey m)) (take gcm_nonce_size sealed)
                    (drop gcm_nonce_size sealed) of
               None \<Rightarrow> None
             | Some payload \<Rightarrow>
                 (case lib_unmarshal lib payload of
                    None \<Rightarrow> None
                  | Some claims \<Rightarrow> if validClaims claims now then Some claims else None)))"

section \<open>Authorization\<close>

text \<open>\<open>clock 0\<close> is the time read for the cookie, \<open>clock 1\<close> the time read for the bearer token.\<close>

definition bearer_claims :: "Middleware \<Rightarrow> time \<Rightarrow> string \<Rightarrow> Claims option" where
  "bearer_claims m now hdr =
     (case mw_verifier m of
        None \<Rightarrow> None
      | Some verify \<Rightarrow>
          if \<not> has_prefix hdr ''Bearer '' then None
          else
            (case verify (trim_space (trim_prefix hdr ''Bearer '')) of
               None \<Rightarrow> None
             | Some claims \<Rightarrow> if validClaims claims now then Some claims else None))"

definition authenticate :: "auth_lib \<Rightarrow> Middleware \<Rightarrow> (nat \<Rightarrow> time) \<Rightarrow> request \<Rightarrow> Claims option" where
  "authenticate lib m clock req =
     (let hdr = header_get (Header req) ''Authorization'';
          session = (case lib_cookie lib (Header req) (cookieName m) of
            None \<Rightarrow> None | Some value \<Rightarrow> openSession lib m (clock 0) value)
      in case session of
           Some claims \<Rightarrow> Some claims
         | None \<Rightarrow>
             if mw_mode m = ''bearer'' \<or> hdr \<noteq> [] then bearer_claims m (clock 1) hdr else None)"

definition stripIdentityHeaders :: "request \<Rightarrow> request" where
  "stripIdentityHeaders req =
     req\<lparr>Header := header_del ''X-Authenticated-Scopes''
       (header_del ''X-Authenticated-Email'' (header_del ''X-Authenticated-Subject'' (Header req)))\<rparr>"

definition writeUnauthorized :: "response \<Rightarrow> response" where
  "writeUnauthorized w =
     http_error ''authentication required'' 401
       (set_header ''WWW-Authenticate''
         (''Bearer realm='' @ [CHR 0x22] @ ''go-serve'' @ [CHR 0x22]) w)"

definition redirectToLogin :: "auth_lib \<Rightarrow> request \<Rightarrow> response \<Rightarrow> response" where
  "redirectToLogin lib req w =
     http_Redirect (lib_parse lib) req (''/oauth2/login?return='' @ QueryEscape (url_RequestURI (req_URL req))) w"

definition identify :: "Claims \<Rightarrow> header \<Rightarrow> header" where
  "identify c h =
     (let h1 = header_set ''X-Authenticated-Subject'' (Subject c) h;
          h2 = (if Email c \<noteq> [] then header_set ''X-Authenticated-Email'' (Email c) h1 else h1)
      in header_set ''X-Authenticated-Scopes'' (join '' '' (Scopes c)) h2)"

definition Authorize ::
  "auth_lib \<Rightarrow> Middleware \<Rightarrow> (nat \<Rightarrow> time) \<Rightarrow> string list \<Rightarrow> request \<Rightarrow> response \<Rightarrow>
   bool \<times> request \<times> response" where
  "Authorize lib m clock required req w =
     (case authenticate lib m clock req of
        None \<Rightarrow>
          let req1 = SetAuthOutcome ''failure'' req in
          (False, req1,
            if mw_mode m = ''oidc'' \<and> Method req = ''GET'' \<and> acceptsHTML req
            then redirectToLogin lib req1 w else writeUnauthorized w)
      | Some claims \<Rightarrow>
          if \<not> hasScopes (Scopes claims) required then
            (False, SetAuthOutcome ''forbidden'' req, http_error ''insufficient scope'' 403 w)
          else
            let req1 = SetAuthOutcome ''success'' (stripIdentityHeaders req) in
            (True, req1\<lparr>Header := identify claims (Header req1)\<rparr>, w))"

section \<open>The login flow\<close>

text \<open>\<open>rand i\<close> is the outcome of the \<open>i\<close>-th \<^verbatim>\<open>randomToken\<close> call: the token, or the source's failure.\<close>

definition login ::
  "auth_lib \<Rightarrow> time \<Rightarrow> (nat \<Rightarrow> string option) \<Rightarrow> Middleware \<Rightarrow> request \<Rightarrow> response \<Rightarrow>
   Middleware \<times> response" where
  "login lib now rand m req w =
     (case mw_oauth m of
        None \<Rightarrow> (m, http_error ''OIDC login is not configured'' 404 w)
      | Some oauth \<Rightarrow>
          (case rand 0 of
             None \<Rightarrow> (m, http_error ''unable to create login state'' 500 w)
           | Some stateToken \<Rightarrow>
               (case rand 1 of
                  None \<Rightarrow> (m, http_error ''unable to create PKCE verifier'' 500 w)
                | Some verif \<Rightarrow>
                    (case rand 2 of
                       None \<Rightarrow> (m, http_error ''unable to create OIDC nonce'' 500 w)
                     | Some nonce \<Rightarrow>
                         let asked = query_get (RawQuery (req_URL req)) ''return'';
                             path = (if safeReturnPath asked then asked else ''/'');
                             st = \<lparr>returnPath = path, state_verifier = verif, state_nonce = nonce,
                               expires = now + 10 * minute\<rparr>
                         in (m\<lparr>states := (states m)(stateToken \<mapsto> st)\<rparr>,
                             http_Redirect (lib_parse lib) req
                               (lib_auth_url lib oauth stateToken verif nonce) w)))))"

text \<open>\<^verbatim>\<open>http.SetCookie\<close>: a cookie that prints as nothing (an invalid name) is not sent.\<close>

definition SetCookie :: "auth_lib \<Rightarrow> cookie \<Rightarrow> response \<Rightarrow> response" where
  "SetCookie lib c w =
     (let v = lib_cookie_text lib c in
      if v \<noteq> [] then w\<lparr>resp_header := header_add ''Set-Cookie'' v (resp_header w)\<rparr> else w)"

definition session_cookie :: "Middleware \<Rightarrow> string \<Rightarrow> Claims \<Rightarrow> cookie" where
  "session_cookie m value claims =
     \<lparr>ck_Name = cookieName m, ck_Value = value, ck_Path = ''/'', ck_Expires = Some (Expiry claims),
      ck_MaxAge = 0, ck_HttpOnly = True, ck_Secure = secureCookie m, ck_SameSiteLax = True\<rparr>"

text \<open>
  The session that a callback creates, apart from the response: the login state it consumed and
  the sealed claims, or the status and message of its refusal. \<open>None\<close> is the panic of a nil
  verifier. \<open>clock 0\<close> and \<open>clock 1\<close> are read for the state's expiry and for the claims.
\<close>

definition callback_session ::
  "auth_lib \<Rightarrow> (nat \<Rightarrow> time) \<Rightarrow> string option \<Rightarrow> Middleware \<Rightarrow> oauth_config \<Rightarrow> string \<Rightarrow>
   ((int \<times> string) + login_state \<times> string \<times> Claims) option" where
  "callback_session lib clock fresh m oauth q =
     (case states m (query_get q ''state'') of
        None \<Rightarrow> Some (Inl (400, ''invalid login state''))
      | Some st \<Rightarrow>
          if expires st < clock 0 then Some (Inl (400, ''invalid login state''))
          else
            (case lib_exchange lib oauth (query_get q ''code'') (state_verifier st) of
               None \<Rightarrow> Some (Inl (401, ''authorization code exchange failed''))
             | Some None \<Rightarrow> Some (Inl (401, ''identity token missing''))
             | Some (Some raw) \<Rightarrow>
                 (case mw_verifier m of
                    None \<Rightarrow> None
                  | Some verify \<Rightarrow>
                      Some
                        (case verify raw of
                           None \<Rightarrow> Inl (401, ''identity token invalid'')
                         | Some claims \<Rightarrow>
                             if \<not> validClaims claims (clock 1) \<or> \<not> validNonce (Nonce claims) (state_nonce st)
                             then Inl (401, ''identity token invalid'')
                             else
                               (case sealSession lib m fresh claims of
                                  None \<Rightarrow> Inl (500, ''unable to create session'')
                                | Some value \<Rightarrow> Inr (st, value, claims))))))"

definition callback_answer ::
  "auth_lib \<Rightarrow> Middleware \<Rightarrow> request \<Rightarrow> (int \<times> string) + login_state \<times> string \<times> Claims \<Rightarrow>
   response \<Rightarrow> response" where
  "callback_answer lib m req r w =
     (case r of
        Inl (status, msg) \<Rightarrow> http_error msg status w
      | Inr (st, value, claims) \<Rightarrow>
          http_Redirect (lib_parse lib) req (returnPath st)
            (SetCookie lib (session_cookie m value claims) w))"

definition callback ::
  "auth_lib \<Rightarrow> (nat \<Rightarrow> time) \<Rightarrow> string option \<Rightarrow> Middleware \<Rightarrow> request \<Rightarrow> response \<Rightarrow>
   (Middleware \<times> response) option" where
  "callback lib clock fresh m req w =
     (case mw_oauth m of
        None \<Rightarrow> Some (m, http_error ''OIDC login is not configured'' 404 w)
      | Some oauth \<Rightarrow>
          let q = RawQuery (req_URL req);
              m1 = m\<lparr>states := (states m)(query_get q ''state'' := None)\<rparr>
          in map_option (\<lambda>r. (m1, callback_answer lib m req r w))
               (callback_session lib clock fresh m oauth q))"

definition logout :: "auth_lib \<Rightarrow> Middleware \<Rightarrow> request \<Rightarrow> response \<Rightarrow> response" where
  "logout lib m req w =
     http_Redirect (lib_parse lib) req ''/''
       (SetCookie lib
         \<lparr>ck_Name = cookieName m, ck_Value = [], ck_Path = ''/'', ck_Expires = None, ck_MaxAge = -1,
          ck_HttpOnly = True, ck_Secure = secureCookie m, ck_SameSiteLax = True\<rparr> w)"

section \<open>The handlers\<close>

text \<open>
  What one request draws from the clock and the random source. The program state of the next
  handler is \<open>'w\<close>.
\<close>

record auth_env =
  env_clock :: "nat \<Rightarrow> time"
  env_rand :: "nat \<Rightarrow> string option"

definition auth_Handler ::
  "auth_lib \<Rightarrow> auth_env \<Rightarrow> 'w handler \<Rightarrow> Middleware \<Rightarrow> 'w \<Rightarrow> request \<Rightarrow> response \<Rightarrow>
   (Middleware \<times> 'w \<times> request \<times> response) option" where
  "auth_Handler lib e next m s req w =
     (let path = Path (req_URL req) in
      if path = ''/oauth2/login'' then
        (case login lib (env_clock e 0) (env_rand e) m req w of (m', w') \<Rightarrow> Some (m', s, req, w'))
      else if path = ''/oauth2/callback'' then
        map_option (\<lambda>(m', w'). (m', s, req, w')) (callback lib (env_clock e) (env_rand e 0) m req w)
      else if path = ''/oauth2/logout'' then Some (m, s, req, logout lib m req w)
      else (case next s req w of (s', req', w') \<Rightarrow> Some (m, s', req', w')))"

definition Protect ::
  "auth_lib \<Rightarrow> auth_env \<Rightarrow> 'w handler \<Rightarrow> Middleware \<Rightarrow> 'w \<Rightarrow> request \<Rightarrow> response \<Rightarrow>
   (Middleware \<times> 'w \<times> request \<times> response) option" where
  "Protect lib e next m s req w =
     (let path = Path (req_URL req) in
      if path = ''/oauth2/login'' \<or> path = ''/oauth2/callback'' \<or> path = ''/oauth2/logout''
      then auth_Handler lib e next m s req w
      else
        (case Authorize lib m (env_clock e) [] req w of
           (True, req1, w1) \<Rightarrow> (case next s req1 w1 of (s', req', w') \<Rightarrow> Some (m, s', req', w'))
         | (False, req1, w1) \<Rightarrow> Some (m, s, req1, w1)))"

section \<open>Facts about sessions and claims\<close>

lemma openSession_valid: "openSession lib m now v = Some c \<Longrightarrow> validClaims c now"
  by (auto simp: openSession_def split: option.splits if_splits)

lemma bearer_claims_Some:
  "bearer_claims m now hdr = Some c \<longleftrightarrow>
     (\<exists>verify. mw_verifier m = Some verify \<and> has_prefix hdr ''Bearer '' \<and>
        verify (trim_space (trim_prefix hdr ''Bearer '')) = Some c \<and> validClaims c now)"
  by (auto simp: bearer_claims_def split: option.splits if_splits)

text \<open>Where accepted claims come from: a session cookie that opens, or a bearer token that verifies.\<close>

definition session_credential ::
  "auth_lib \<Rightarrow> Middleware \<Rightarrow> time \<Rightarrow> request \<Rightarrow> Claims \<Rightarrow> bool" where
  "session_credential lib m now req c \<longleftrightarrow>
     (\<exists>v. lib_cookie lib (Header req) (cookieName m) = Some v \<and> openSession lib m now v = Some c) \<and>
     now < Expiry c"

definition bearer_credential :: "Middleware \<Rightarrow> time \<Rightarrow> request \<Rightarrow> Claims \<Rightarrow> bool" where
  "bearer_credential m now req c \<longleftrightarrow>
     (let hdr = header_get (Header req) ''Authorization'' in
      \<exists>verify. mw_verifier m = Some verify \<and> has_prefix hdr ''Bearer '' \<and>
        verify (trim_space (trim_prefix hdr ''Bearer '')) = Some c) \<and>
     now < Expiry c"

lemma authenticate_Some:
  assumes "authenticate lib m clock req = Some c"
  shows "Subject c \<noteq> [] \<and>
    (session_credential lib m (clock 0) req c \<or> bearer_credential m (clock 1) req c)"
proof -
  let ?session = "case lib_cookie lib (Header req) (cookieName m) of
    None \<Rightarrow> None | Some value \<Rightarrow> openSession lib m (clock 0) value"
  show ?thesis
  proof (cases ?session)
    case (Some c')
    with assms have "?session = Some c" by (simp add: authenticate_def Let_def)
    then obtain v where v: "lib_cookie lib (Header req) (cookieName m) = Some v"
      "openSession lib m (clock 0) v = Some c" by (auto split: option.splits)
    with openSession_valid [OF v(2)] show ?thesis
      by (auto simp: session_credential_def validClaims_def)
  next
    case None
    with assms have "bearer_claims m (clock 1) (header_get (Header req) ''Authorization'') = Some c"
      by (auto simp: authenticate_def Let_def split: if_splits)
    then show ?thesis by (auto simp: bearer_claims_Some bearer_credential_def validClaims_def)
  qed
qed

lemma identify_get:
  assumes "header_get h ''X-Authenticated-Email'' = []"
  shows "header_get (identify c h) ''X-Authenticated-Subject'' = Subject c"
    "header_get (identify c h) ''X-Authenticated-Scopes'' = join '' '' (Scopes c)"
    "header_get (identify c h) ''X-Authenticated-Email'' = Email c"
  using assms by (auto simp: identify_def Let_def header_get_set)

lemma identify_other:
  "k \<noteq> ''X-Authenticated-Subject'' \<Longrightarrow> k \<noteq> ''X-Authenticated-Scopes'' \<Longrightarrow> k \<noteq> ''X-Authenticated-Email'' \<Longrightarrow>
     identify c h k = h k"
  by (auto simp: identify_def Let_def header_set_def)

lemma stripIdentity_other:
  "k \<noteq> ''X-Authenticated-Subject'' \<Longrightarrow> k \<noteq> ''X-Authenticated-Scopes'' \<Longrightarrow> k \<noteq> ''X-Authenticated-Email'' \<Longrightarrow>
     Header (stripIdentityHeaders req) k = Header req k"
  by (simp add: stripIdentityHeaders_def header_del_def)

lemma stripIdentity_frame [simp, frame_rules]:
  "Method (stripIdentityHeaders req) = Method req" "req_URL (stripIdentityHeaders req) = req_URL req"
  "req_Host (stripIdentityHeaders req) = req_Host req"
  by (simp_all add: stripIdentityHeaders_def)

lemma stripIdentity_email: "header_get (Header (stripIdentityHeaders req)) ''X-Authenticated-Email'' = []"
  by (simp add: stripIdentityHeaders_def header_get_del)

lemma Authorize_granted:
  assumes "Authorize lib m clock required req w = (True, req', w')"
  obtains c where "authenticate lib m clock req = Some c" "set required \<subseteq> set (Scopes c)" "w' = w"
    "Header req' = identify c (Header (stripIdentityHeaders req))"
    "Method req' = Method req" "req_URL req' = req_URL req" "req_Host req' = req_Host req"
  using assms by (auto simp: Authorize_def Let_def hasScopes_def subset_iff split: option.splits if_splits)

lemma sent_body [simp]: "resp_sent (write_body s w) \<noteq> None \<longleftrightarrow> resp_sent w \<noteq> None \<or> resp_status w = 0"
  by (auto simp: write_body_def write_header_def Let_def split: option.split)

lemma status_Unauthorized [simp]:
  "status_of (writeUnauthorized w) = (case status_of w of None \<Rightarrow> Some 401 | Some s \<Rightarrow> Some s)"
  by (simp add: writeUnauthorized_def)

lemma status_redirectToLogin [simp]:
  "status_of (redirectToLogin lib req w) = (case status_of w of None \<Rightarrow> Some 302 | Some s \<Rightarrow> Some s)"
  by (simp add: redirectToLogin_def)

lemma Authorize_denied:
  assumes "Authorize lib m clock required req w = (False, req', w')" and "status_of w = None"
  shows "status_of w' \<in> {Some 302, Some 401, Some 403} \<and> Header req' = Header req \<and>
    Method req' = Method req \<and> req_URL req' = req_URL req \<and> req_Host req' = req_Host req"
  using assms by (auto simp: Authorize_def Let_def split: option.splits if_splits)

section \<open>Properties of authorization\<close>

text \<open>
  Claim C7: a request is let through only with the identity of an unexpired session cookie or of an
  unexpired bearer token that verifies, which holds every scope the route requires; the identity
  headers it carries on are that identity's whatever the client sent, and every other header and
  the response are untouched.
\<close>

theorem granted_identity_is_authenticated:
  assumes "Authorize lib m clock required req w = (True, req', w')"
  shows "w' = w \<and>
    (\<exists>c. (session_credential lib m (clock 0) req c \<or> bearer_credential m (clock 1) req c) \<and>
       Subject c \<noteq> [] \<and> set required \<subseteq> set (Scopes c) \<and>
       header_get (Header req') ''X-Authenticated-Subject'' = Subject c \<and>
       header_get (Header req') ''X-Authenticated-Email'' = Email c \<and>
       header_get (Header req') ''X-Authenticated-Scopes'' = join '' '' (Scopes c)) \<and>
    (\<forall>k. k \<notin> {''X-Authenticated-Subject'', ''X-Authenticated-Email'', ''X-Authenticated-Scopes''} \<longrightarrow>
       Header req' k = Header req k)"
  using assms
proof (rule Authorize_granted)
  fix c
  assume c: "authenticate lib m clock req = Some c" "set required \<subseteq> set (Scopes c)" "w' = w"
    and h: "Header req' = identify c (Header (stripIdentityHeaders req))"
  from authenticate_Some [OF c(1)] c(2,3) identify_get [OF stripIdentity_email] show ?thesis
    unfolding h by (auto simp: identify_other stripIdentity_other)
qed

definition sample_claims :: Claims where
  "sample_claims = \<lparr>Subject = ''alice'', Email = ''a@example.com'', Scopes = [''read''], Expiry = 1000, Nonce = ''n''\<rparr>"

definition sample_lib :: auth_lib where
  "sample_lib =
     \<lparr>lib_cookie = (\<lambda>h name. (case h ''Cookie'' of Some (v # _) \<Rightarrow>
           (if has_prefix v (name @ ''='') then Some (trim_prefix v (name @ ''='')) else None) | _ \<Rightarrow> None)),
      lib_cookie_text = (\<lambda>c. ck_Name c @ ''='' @ ck_Value c), lib_b64 = (\<lambda>s. s), lib_unb64 = Some,
      lib_sha256 = (\<lambda>s. s), lib_seal = (\<lambda>k n p. k @ n @ p),
      lib_open = (\<lambda>k n s. if has_prefix s (k @ n) then Some (drop (length k + length n) s) else None),
      lib_marshal = (\<lambda>c. if c = sample_claims then Some ''alice'' else None),
      lib_unmarshal = (\<lambda>s. if s = ''alice'' then Some sample_claims else None),
      lib_auth_url = (\<lambda>oauth st v n. ''https://idp.example/auth?state='' @ st),
      lib_exchange = (\<lambda>oauth c v. if c = ''code'' then Some (Some ''token'') else None),
      lib_parse = (\<lambda>s. Some \<lparr>Scheme = (if has_prefix s ''https:'' then ''https'' else []), Host = [],
        Path = s, RawPath = [], RawQuery = []\<rparr>)\<rparr>"

definition sample_middleware :: Middleware where
  "sample_middleware =
     \<lparr>mw_mode = ''oidc'', mw_verifier = Some (\<lambda>raw. if raw = ''token'' then Some sample_claims else None),
      mw_oauth = Some \<lparr>oauth_ClientID = ''id'', oauth_ClientSecret = ''secret'', oauth_RedirectURL = [], oauth_Scopes = []\<rparr>,
      cookieName = ''s'', cookieKey = ''key'', secureCookie = True, states = Map.empty\<rparr>"

definition bare_request :: "string \<Rightarrow> string \<Rightarrow> header \<Rightarrow> request" where
  "bare_request path q h =
     \<lparr>Method = ''GET'', req_Host = ''example.com'',
      req_URL = \<lparr>Scheme = [], Host = [], Path = path, RawPath = [], RawQuery = q\<rparr>,
      RequestURI = path, Header = h, RemoteAddr = ''192.0.2.1:5000'', ContentLength = 0, Signals = None\<rparr>"

theorem granted_identity_is_authenticated_witness:
  "let req = bare_request ''/api'' [] [''Authorization'' \<mapsto> [''Bearer token''], ''X-Authenticated-Subject'' \<mapsto> [''root'']];
       (ok, req', w') = Authorize sample_lib sample_middleware (\<lambda>_. 5) [''read''] req new_response
   in ok \<and> header_get (Header req') ''X-Authenticated-Subject'' = ''alice'' \<and> w' = new_response \<and>
      Header req' ''Authorization'' = Some [''Bearer token'']"
proof -
  let ?req = "bare_request ''/api'' [] [''Authorization'' \<mapsto> [''Bearer token''], ''X-Authenticated-Subject'' \<mapsto> [''root'']]"
  let ?run = "Authorize sample_lib sample_middleware (\<lambda>_. 5) [''read''] ?req new_response"
  have auth: "authenticate sample_lib sample_middleware (\<lambda>_. 5) ?req = Some sample_claims"
    by code_simp
  have "fst ?run" by (simp add: Authorize_def auth hasScopes_def sample_claims_def)
  moreover have subj: "header_get (Header (fst (snd ?run))) ''X-Authenticated-Subject'' = ''alice''"
    by (simp add: Authorize_def auth hasScopes_def sample_claims_def identify_def header_get_set)
  ultimately have run: "?run = (True, fst (snd ?run), snd (snd ?run))" by (simp add: prod_eq_iff)
  have "Header ?req ''Authorization'' = Some [''Bearer token'']" by (simp add: bare_request_def)
  with granted_identity_is_authenticated [OF run] \<open>fst ?run\<close> subj show ?thesis
    by (simp add: split_def)
qed

text \<open>
  Claim C19: a sealed session cookie opens to the very claims it was made of until their expiry, and
  to nothing from then on, given that decoding undoes encoding for the base 64, JSON and AES-GCM
  functions.
\<close>

theorem session_opens_until_expiry:
  assumes "sealSession lib m (Some nonce) c = Some v" and "length nonce = gcm_nonce_size"
    and "Subject c \<noteq> []"
    and "\<And>s. lib_unb64 lib (lib_b64 lib s) = Some s"
    and "\<And>k n p. lib_open lib k n (lib_seal lib k n p) = Some p"
    and "\<And>p. lib_marshal lib c = Some p \<Longrightarrow> lib_unmarshal lib p = Some c"
  shows "openSession lib m now v = (if now < Expiry c then Some c else None)"
proof -
  from assms(1) obtain p where p: "lib_marshal lib c = Some p"
    and v: "v = lib_b64 lib (nonce @ lib_seal lib (keyBytes lib (cookieKey m)) nonce p)"
    by (auto simp: sealSession_def split: option.splits)
  from assms(6) [OF p] assms(2-5) show ?thesis
    by (simp add: openSession_def v validClaims_def)
qed

theorem session_opens_until_expiry_witness:
  "openSession sample_lib sample_middleware 999 (''0123456789ab'' @ ''key0123456789abalice'') = Some sample_claims \<and>
   openSession sample_lib sample_middleware 1000 (''0123456789ab'' @ ''key0123456789abalice'') = None"
proof -
  let ?v = "''0123456789ab'' @ ''key0123456789abalice''"
  have seal: "sealSession sample_lib sample_middleware (Some ''0123456789ab'') sample_claims = Some ?v"
    by code_simp
  have "openSession sample_lib sample_middleware now ?v = (if now < Expiry sample_claims then Some sample_claims else None)" for now
    by (rule session_opens_until_expiry [OF seal]) (simp_all add: gcm_nonce_size_def sample_lib_def sample_claims_def has_prefix_iff)
  from this [of 999] this [of 1000] show ?thesis by (simp add: sample_claims_def)
qed

section \<open>Properties of the login flow\<close>

lemma QueryEscape_ascii: "list_all (\<lambda>c. code c < 128) (QueryEscape s)"
proof -
  have "code c < 128" if "c \<in> set (QueryEscape s)" for c
    using QueryEscape_chars [OF that] by (auto simp: plain_query_char_def is_lower_def is_upper_def is_digit_def code_def)
  then show ?thesis by (simp add: list_all_iff)
qed

lemma path_Clean_login: "path_Clean ''/oauth2/login'' = ''/oauth2/login''"
  by code_simp

lemma login_location:
  assumes "resp_sent w = None"
  shows "sent_location (redirectToLogin lib req w) =
    ''/oauth2/login?'' @ ''return='' @ QueryEscape (url_RequestURI (req_URL req))"
proof -
  let ?e = "QueryEscape (url_RequestURI (req_URL req))"
  let ?t = "''/oauth2/login'' @ ''?'' @ ''return='' @ ?e"
  have "redirect_target (lib_parse lib) (Path (req_URL req)) ?t = ?t"
    by (rule redirect_target_query) (simp_all add: path_Clean_login has_suffix_single)
  moreover have "hex_escape_non_ascii ?t = ?t"
    by (rule hex_escape_ascii) (simp add: QueryEscape_ascii [unfolded code_def] code_def)
  ultimately show ?thesis using location_http_Redirect [OF assms, of "lib_parse lib" req ?t]
    by (simp add: redirectToLogin_def)
qed

text \<open>
  A browser that is sent to the login page and follows the redirect comes to a login whose
  state remembers the page it had asked for, path and query, for 10 minutes (the root page when the
  request's path starts with two slashes).
\<close>

lemma login_remembers_page:
  assumes "resp_sent w = None"
    and "''/oauth2/login?'' @ RawQuery (req_URL req2) = sent_location (redirectToLogin lib req w)"
    and "mw_oauth m = Some oauth" and "rand 0 = Some t" and "rand 1 = Some v" and "rand 2 = Some n"
  shows "states (fst (login lib now rand m req2 w2)) t = Some
    \<lparr>returnPath = (if safeReturnPath (url_RequestURI (req_URL req)) then url_RequestURI (req_URL req) else ''/''),
     state_verifier = v, state_nonce = n, expires = now + 10 * minute\<rparr>"
proof -
  have "RawQuery (req_URL req2) = ''return'' @ ''='' @ QueryEscape (url_RequestURI (req_URL req))"
    using assms(2) unfolding login_location [OF assms(1)] by simp
  then have "query_get (RawQuery (req_URL req2)) ''return'' = url_RequestURI (req_URL req)"
    using query_get_single [of "''return''"] by simp
  with assms(3-6) show ?thesis by (simp add: login_def Let_def)
qed

section \<open>Login states over time\<close>

text \<open>
  The login flow as a step relation: any interleaving of logins and callbacks, each with its own
  clock, random draws, library answers and request. Ghost fields collect the state tokens handed
  out and the sessions created, with the login state each consumed. A new random token differs
  from all earlier ones.
\<close>

record flow =
  flow_mw :: Middleware
  flow_tokens :: "string set"
  flow_sessions :: "(string \<times> login_state) list"

definition callback_token :: "request \<Rightarrow> string" where
  "callback_token req = query_get (RawQuery (req_URL req)) ''state''"

text \<open>The login state for which a callback created a session.\<close>

definition session_created ::
  "auth_lib \<Rightarrow> (nat \<Rightarrow> time) \<Rightarrow> string option \<Rightarrow> Middleware \<Rightarrow> request \<Rightarrow> login_state option" where
  "session_created lib clock fresh m req =
     (case mw_oauth m of
        None \<Rightarrow> None
      | Some oauth \<Rightarrow>
          (case callback_session lib clock fresh m oauth (RawQuery (req_URL req)) of
             Some (Inr (st, value, claims)) \<Rightarrow> Some st
           | _ \<Rightarrow> None))"

inductive flow_step :: "flow \<Rightarrow> flow \<Rightarrow> bool" where
  Login: "login lib now rand (flow_mw f) req w = (m', w') \<Longrightarrow> set_option (rand 0) \<inter> flow_tokens f = {} \<Longrightarrow>
    flow_step f (f\<lparr>flow_mw := m', flow_tokens := flow_tokens f \<union> set_option (rand 0)\<rparr>)"
| Callback: "callback lib clock fresh (flow_mw f) req w = Some (m', w') \<Longrightarrow>
    session_created lib clock fresh (flow_mw f) req = created \<Longrightarrow>
    flow_step f (f\<lparr>flow_mw := m', flow_sessions :=
      (case created of None \<Rightarrow> flow_sessions f | Some st \<Rightarrow> (callback_token req, st) # flow_sessions f)\<rparr>)"

inductive flow_reachable :: "flow \<Rightarrow> bool" where
  Init: "states m = Map.empty \<Longrightarrow> flow_reachable \<lparr>flow_mw = m, flow_tokens = {}, flow_sessions = []\<rparr>"
| Step: "flow_reachable f \<Longrightarrow> flow_step f f' \<Longrightarrow> flow_reachable f'"

inductive_cases flow_stepE: "flow_step f f'"

definition flow_inv :: "flow \<Rightarrow> bool" where
  "flow_inv f \<longleftrightarrow>
     distinct (map fst (flow_sessions f)) \<and> fst ` set (flow_sessions f) \<subseteq> flow_tokens f \<and>
     dom (states (flow_mw f)) \<subseteq> flow_tokens f - fst ` set (flow_sessions f) \<and>
     (\<forall>st \<in> ran (states (flow_mw f)). safeReturnPath (returnPath st))"

lemma login_states:
  "states (fst (login lib now rand m req w)) = states m \<or>
   (\<exists>t st. rand 0 = Some t \<and> safeReturnPath (returnPath st) \<and>
      states (fst (login lib now rand m req w)) = (states m)(t \<mapsto> st))"
proof (cases "mw_oauth m = None \<or> rand 0 = None \<or> rand 1 = None \<or> rand 2 = None")
  case True
  then show ?thesis by (auto simp: login_def split: option.split)
next
  case False
  then obtain oauth t v n where draws: "mw_oauth m = Some oauth" "rand 0 = Some t" "rand 1 = Some v" "rand 2 = Some n"
    by auto
  let ?asked = "query_get (RawQuery (req_URL req)) ''return''"
  let ?st = "\<lparr>returnPath = (if safeReturnPath ?asked then ?asked else ''/''), state_verifier = v,
    state_nonce = n, expires = now + 10 * minute\<rparr>"
  from draws have "states (fst (login lib now rand m req w)) = (states m)(t \<mapsto> ?st)"
    by (simp add: login_def Let_def)
  moreover have "safeReturnPath (returnPath ?st)" by (simp add: safeReturnPath_def)
  ultimately show ?thesis using draws by blast
qed

lemma session_created_Some:
  assumes "session_created lib clock fresh m req = Some st"
  shows "states m (callback_token req) = Some st"
  using assms by (auto simp: session_created_def callback_session_def callback_token_def Let_def
      split: option.splits sum.splits if_splits)

lemma callback_states:
  assumes "callback lib clock fresh m req w = Some (m', w')"
  shows "mw_oauth m = None \<and> m' = m \<or> mw_oauth m \<noteq> None \<and> m' = m\<lparr>states := (states m)(callback_token req := None)\<rparr>"
  using assms by (auto simp: callback_def callback_token_def Let_def split: option.splits)

lemma flow_inv_login:
  assumes inv: "flow_inv f" and run: "login lib now rand (flow_mw f) req w = (m', w')"
    and fresh: "set_option (rand 0) \<inter> flow_tokens f = {}"
  shows "flow_inv (f\<lparr>flow_mw := m', flow_tokens := flow_tokens f \<union> set_option (rand 0)\<rparr>)"
proof -
  from login_states [of lib now rand "flow_mw f" req w] run
  consider "states m' = states (flow_mw f)"
    | t st where "rand 0 = Some t" "safeReturnPath (returnPath st)" "states m' = (states (flow_mw f))(t \<mapsto> st)"
    by auto
  then show ?thesis
  proof cases
    case 1
    with inv show ?thesis by (auto simp: flow_inv_def)
  next
    case 2
    with inv fresh show ?thesis by (auto simp: flow_inv_def ran_def)
  qed
qed

lemma flow_inv_forget:
  assumes "flow_inv f" and sub: "states m' \<subseteq>\<^sub>m states (flow_mw f)"
  shows "flow_inv (f\<lparr>flow_mw := m'\<rparr>)"
proof -
  from sub have "dom (states m') \<subseteq> dom (states (flow_mw f))" by (rule map_le_implies_dom_le)
  moreover have "ran (states m') \<subseteq> ran (states (flow_mw f))"
  proof
    fix st
    assume "st \<in> ran (states m')"
    then obtain t where "states m' t = Some st" by (auto simp: ran_def)
    with sub have "states (flow_mw f) t = Some st" by (metis domI map_le_def)
    then show "st \<in> ran (states (flow_mw f))" by (rule ranI)
  qed
  ultimately show ?thesis using assms(1) unfolding flow_inv_def by simp blast
qed

lemma flow_inv_callback:
  assumes inv: "flow_inv f" and run: "callback lib clock fresh (flow_mw f) req w = Some (m', w')"
    and created: "session_created lib clock fresh (flow_mw f) req = created"
  shows "flow_inv (f\<lparr>flow_mw := m', flow_sessions :=
      (case created of None \<Rightarrow> flow_sessions f | Some st \<Rightarrow> (callback_token req, st) # flow_sessions f)\<rparr>)"
proof (cases created)
  case None
  from callback_states [OF run] have "states m' \<subseteq>\<^sub>m states (flow_mw f)"
    by (auto simp: map_le_def split: if_splits)
  from flow_inv_forget [OF inv this] None show ?thesis by simp
next
  case (Some st)
  with created have st: "states (flow_mw f) (callback_token req) = Some st"
    by (auto dest: session_created_Some)
  have "mw_oauth (flow_mw f) \<noteq> None" using Some created by (auto simp: session_created_def split: option.splits)
  with callback_states [OF run]
  have m': "states m' = (states (flow_mw f))(callback_token req := None)" by auto
  from st inv have "callback_token req \<in> flow_tokens f - fst ` set (flow_sessions f)"
    by (auto simp: flow_inv_def)
  with inv Some show ?thesis by (auto simp: flow_inv_def m' ran_def split: if_splits)
qed

lemma flow_reachable_inv: "flow_reachable f \<Longrightarrow> flow_inv f"
proof (induction rule: flow_reachable.induct)
  case (Init m)
  then show ?case by (simp add: flow_inv_def)
next
  case (Step f f')
  from Step.hyps(2) Step.IH show ?case
    by (cases rule: flow_stepE) (auto intro: flow_inv_login flow_inv_callback)
qed

text \<open>
  Claim C17: over any history of logins and callbacks, every session created consumed a login state
  that this gateway handed out, and no login state gave two sessions.
\<close>

theorem login_state_used_once:
  assumes "flow_reachable f"
  shows "distinct (map fst (flow_sessions f)) \<and> fst ` set (flow_sessions f) \<subseteq> flow_tokens f"
  using flow_reachable_inv [OF assms] by (simp add: flow_inv_def)

text \<open>A history with one login and its callback.\<close>

definition sample_login_request :: request where
  "sample_login_request = bare_request ''/oauth2/login'' ''return=/api'' Map.empty"

definition sample_callback_request :: request where
  "sample_callback_request = bare_request ''/oauth2/callback'' ''state=n&code=code'' Map.empty"

definition sample_rand :: "nat \<Rightarrow> string option" where
  "sample_rand i = Some ''n''"

definition sample_waiting :: Middleware where
  "sample_waiting = fst (login sample_lib 7 sample_rand sample_middleware sample_login_request new_response)"

definition sample_state :: login_state where
  "sample_state = \<lparr>returnPath = ''/api'', state_verifier = ''n'', state_nonce = ''n'', expires = 7 + 10 * minute\<rparr>"

lemma sample_waiting_states: "states sample_waiting = [''n'' \<mapsto> sample_state]"
proof -
  have "query_get ''return=/api'' ''return'' = ''/api''" by code_simp
  then show ?thesis
    by (simp add: sample_waiting_def login_def sample_middleware_def sample_rand_def Let_def
        sample_login_request_def bare_request_def safeReturnPath_def sample_state_def)
qed

lemma sample_waiting_fields [simp]:
  "mw_oauth sample_waiting = mw_oauth sample_middleware" "mw_verifier sample_waiting = mw_verifier sample_middleware"
  "cookieKey sample_waiting = ''key''" "cookieName sample_waiting = ''s''"
  by (simp_all add: sample_waiting_def login_def sample_middleware_def sample_rand_def Let_def)

lemma sample_queries:
  "query_get ''state=n&code=code'' ''state'' = ''n''" "query_get ''state=n&code=code'' ''code'' = ''code''"
  by code_simp+

lemma sample_created:
  "session_created sample_lib (\<lambda>_. 9) (Some ''0123456789ab'') sample_waiting sample_callback_request = Some sample_state"
  by (simp add: session_created_def callback_session_def sample_waiting_states sample_callback_request_def
      bare_request_def sample_queries sample_middleware_def sample_state_def sample_lib_def sealSession_def
      sample_claims_def validClaims_def validNonce_def minute_def second_def)

lemma sample_waiting_reachable:
  "flow_reachable \<lparr>flow_mw = sample_waiting, flow_tokens = {''n''}, flow_sessions = []\<rparr>"
proof -
  let ?f0 = "\<lparr>flow_mw = sample_middleware, flow_tokens = {}, flow_sessions = []\<rparr>"
  have "flow_reachable ?f0" by (rule Init) (simp add: sample_middleware_def)
  moreover have "flow_step ?f0 \<lparr>flow_mw = sample_waiting, flow_tokens = {''n''}, flow_sessions = []\<rparr>"
    using Login [of sample_lib 7 sample_rand ?f0 sample_login_request new_response sample_waiting
      "snd (login sample_lib 7 sample_rand sample_middleware sample_login_request new_response)"]
    by (simp add: sample_waiting_def sample_rand_def)
  ultimately show ?thesis by (rule Step)
qed

lemma sample_callback:
  "\<exists>m' w'. callback sample_lib (\<lambda>_. 9) (Some ''0123456789ab'') sample_waiting sample_callback_request new_response = Some (m', w')"
  using sample_created by (auto simp: callback_def session_created_def Let_def split: option.splits)

lemma sample_history:
  "\<exists>m'. flow_reachable \<lparr>flow_mw = m', flow_tokens = {''n''}, flow_sessions = [(''n'', sample_state)]\<rparr>"
proof -
  let ?f1 = "\<lparr>flow_mw = sample_waiting, flow_tokens = {''n''}, flow_sessions = []\<rparr>"
  from sample_callback obtain m' w' where
    run: "callback sample_lib (\<lambda>_. 9) (Some ''0123456789ab'') sample_waiting sample_callback_request new_response = Some (m', w')"
    by blast
  have "callback_token sample_callback_request = ''n''"
    by (simp add: callback_token_def sample_callback_request_def bare_request_def sample_queries)
  with Callback [of sample_lib "\<lambda>_. 9" "Some ''0123456789ab''" ?f1 sample_callback_request new_response m' w' "Some sample_state"]
    run sample_created
  have "flow_step ?f1 \<lparr>flow_mw = m', flow_tokens = {''n''}, flow_sessions = [(''n'', sample_state)]\<rparr>"
    by simp
  with sample_waiting_reachable
  have "flow_reachable \<lparr>flow_mw = m', flow_tokens = {''n''}, flow_sessions = [(''n'', sample_state)]\<rparr>"
    by (rule Step)
  then show ?thesis ..
qed

theorem login_state_used_once_witness:
  "\<exists>f :: flow. flow_sessions f = [(''n'', sample_state)] \<and> distinct (map fst (flow_sessions f)) \<and>
     fst ` set (flow_sessions f) \<subseteq> flow_tokens f"
proof -
  from sample_history obtain m' where
    "flow_reachable \<lparr>flow_mw = m', flow_tokens = {''n''}, flow_sessions = [(''n'', sample_state)]\<rparr>" ..
  note used = login_state_used_once [OF this]
  show ?thesis
    by (rule exI [of _ "\<lparr>flow_mw = m', flow_tokens = {''n''}, flow_sessions = [(''n'', sample_state)]\<rparr>"])
      (use used in simp)
qed

lemma callback_location:
  assumes "callback lib clock fresh m req w = Some (m', w')"
    and "session_created lib clock fresh m req = Some st" and "resp_sent w = None"
  shows "sent_location w' =
    hex_escape_non_ascii (redirect_target (lib_parse lib) (Path (req_URL req)) (returnPath st))"
proof -
  have "resp_sent (SetCookie lib c w) = None" for c using assms(3) by (simp add: SetCookie_def Let_def)
  with assms(1,2) show ?thesis
    by (auto simp: callback_def session_created_def callback_answer_def Let_def location_http_Redirect
        split: option.splits sum.splits)
qed

text \<open>A login without a return path comes back to the callback's own directory.\<close>

lemma empty_return_target:
  assumes "parse [] = Some u" and "Scheme u = []" and "Host u = []"
  shows "redirect_target parse ''/oauth2/callback'' [] = ''/oauth2/''"
proof -
  have "path_dir ''/oauth2/callback'' = ''/oauth2/''" "path_Clean ''/oauth2/'' = ''/oauth2''" by code_simp+
  with assms show ?thesis by (simp add: redirect_target_def has_suffix_single)
qed

text \<open>
  Claim C18: the session cookie is set only for a login state that is registered and has not expired,
  with an identity token that the provider returned for the code and the state's PKCE verifier,
  that verifies, has not expired and carries the state's nonce.
\<close>

theorem callback_session_sound:
  assumes "session_created lib clock fresh m req = Some st"
  shows "states m (callback_token req) = Some st \<and> clock 0 \<le> expires st \<and>
    (\<exists>oauth raw verify c. mw_oauth m = Some oauth \<and> mw_verifier m = Some verify \<and>
       lib_exchange lib oauth (query_get (RawQuery (req_URL req)) ''code'') (state_verifier st) = Some (Some raw) \<and>
       verify raw = Some c \<and> Subject c \<noteq> [] \<and> clock 1 < Expiry c \<and>
       Nonce c = state_nonce st \<and> state_nonce st \<noteq> [])"
  using assms session_created_Some [OF assms]
  by (auto simp: session_created_def callback_session_def validClaims_def validNonce_def
      split: option.splits sum.splits if_splits)

theorem callback_session_sound_witness:
  "states sample_waiting ''n'' = Some sample_state \<and> (9::int) \<le> expires sample_state \<and>
   (\<exists>oauth raw verify c. mw_oauth sample_waiting = Some oauth \<and> mw_verifier sample_waiting = Some verify \<and>
      lib_exchange sample_lib oauth ''code'' ''n'' = Some (Some raw) \<and> verify raw = Some c \<and> 9 < Expiry c \<and>
      Nonce c = ''n'')"
proof -
  have "callback_token sample_callback_request = ''n''" "RawQuery (req_URL sample_callback_request) = ''state=n&code=code''"
    "state_verifier sample_state = ''n''" "state_nonce sample_state = ''n''"
    by (simp_all add: callback_token_def sample_callback_request_def bare_request_def sample_queries sample_state_def)
  with callback_session_sound [OF sample_created] show ?thesis by (simp add: sample_queries) blast
qed

text \<open>
  Claim C40: after any history, the \<^verbatim>\<open>Location\<close> of a completed login starts with one slash that no second
  one follows; and a browser stays on this host with it, unless the return path has a backslash, a
  tab or a line end (which browsers take for a slash or drop, and the code does not look at:
  \<open>backslash_leaves\<close> below is a case in which they leave).
\<close>

theorem login_returns_locally:
  assumes "flow_reachable f" and "callback lib clock fresh (flow_mw f) req w = Some (m', w')"
    and "session_created lib clock fresh (flow_mw f) req = Some st"
    and "Path (req_URL req) = ''/oauth2/callback''" and "resp_sent w = None"
    and "lib_parse lib [] = Some u" and "Scheme u = []" and "Host u = []"
  shows "local_path (sent_location w') \<and> (plain (returnPath st) \<longrightarrow> stays_here (sent_location w'))"
proof -
  from assms(3) have "states (flow_mw f) (callback_token req) = Some st" by (rule session_created_Some)
  with flow_reachable_inv [OF assms(1)] have safe: "safeReturnPath (returnPath st)"
    by (auto simp: flow_inv_def ran_def)
  have "local_path (redirect_target (lib_parse lib) ''/oauth2/callback'' (returnPath st))"
  proof (cases "returnPath st")
    case Nil
    with empty_return_target [of "lib_parse lib", OF assms(6-8)] show ?thesis by (simp add: local_path_def)
  next
    case (Cons a as)
    with safe show ?thesis by (intro redirect_target_local) (simp add: safeReturnPath_def local_path_def)
  qed
  with assms(4) have loc: "local_path (sent_location w')"
    by (simp add: callback_location [OF assms(2,3,5)] hex_escape_local)
  have "plain ''/oauth2/callback''" by (simp add: reread_def)
  then have "plain (sent_location w')" if "plain (returnPath st)"
    using that by (simp add: callback_location [OF assms(2,3,5)] assms(4) plain_hex_escape plain_redirect_target)
  with loc show ?thesis using plain_stays by blast
qed

theorem login_returns_locally_witness:
  "\<exists>m' w'. callback sample_lib (\<lambda>_. 9) (Some ''0123456789ab'') sample_waiting sample_callback_request new_response = Some (m', w') \<and>
     stays_here (sent_location w')"
proof -
  obtain m' w' where run: "callback sample_lib (\<lambda>_. 9) (Some ''0123456789ab'') sample_waiting sample_callback_request new_response = Some (m', w')"
    using sample_callback by blast
  have "plain (returnPath sample_state)" by (simp add: sample_state_def reread_def)
  moreover have "local_path (sent_location w') \<and> (plain (returnPath sample_state) \<longrightarrow> stays_here (sent_location w'))"
    by (rule login_returns_locally [OF sample_waiting_reachable, of sample_lib "\<lambda>_. 9" "Some ''0123456789ab''" sample_callback_request
          new_response m' w' sample_state "\<lparr>Scheme = [], Host = [], Path = [], RawPath = [], RawQuery = []\<rparr>"])
      (use run sample_created in \<open>simp_all add: sample_callback_request_def bare_request_def new_response_def sample_lib_def\<close>)
  ultimately show ?thesis using run by blast
qed

text \<open>
  The check on return paths is about slashes only: browsers read a backslash as a slash, and drop a
  tab, in a \<^verbatim>\<open>Location\<close>.
\<close>

lemma safeReturnPath_backslash:
  "safeReturnPath (''/'' @ [CHR 0x5C] @ ''evil.example'') \<and> safeReturnPath (''/'' @ [CHR 0x09] @ ''/evil.example'')"
  by (simp add: safeReturnPath_def)

lemma backslash_leaves:
  assumes "parse (''/'' @ [CHR 0x5C] @ ''evil.example'') = Some u" and "Scheme u = []" and "Host u = []"
  shows "redirect_target parse old (''/'' @ [CHR 0x5C] @ ''evil.example'') = ''/'' @ [CHR 0x5C] @ ''evil.example'' \<and>
    \<not> stays_here (''/'' @ [CHR 0x5C] @ ''evil.example'')"
proof -
  have "path_Clean (''/'' @ [CHR 0x5C] @ ''evil.example'') = ''/'' @ [CHR 0x5C] @ ''evil.example''" by code_simp
  with assms show ?thesis by (simp add: redirect_target_def has_suffix_single stays_here_def browser_slash_def)
qed

text \<open>
  As the code is, a login is not bound to the browser that began it: the callback reads nothing of the
  request but its URL, so whoever opens a callback's address, with or without cookies of its own,
  gets the session.
\<close>

lemma callback_ignores_browser:
  "callback lib clock fresh m (req\<lparr>Header := h, RemoteAddr := addr\<rparr>) w = callback lib clock fresh m req w"
  by (simp add: callback_def callback_answer_def http_Redirect_def redirect_with_def redirect_target_def Let_def
      cong: option.case_cong sum.case_cong)

text \<open>Nothing removes a login state but its callback: logins only add states, expired ones stay.\<close>

lemma login_keeps_states: "t \<in> dom (states m) \<Longrightarrow> t \<in> dom (states (fst (login lib now rand m req w)))"
  using login_states [of lib now rand m req w] by auto

text \<open>What a construction gives: a middleware with a login flow has a verifier, so no callback panics.\<close>

lemma session_key_length: "session_key read fresh cfg = Inr key \<Longrightarrow> Mode cfg = ''oidc'' \<Longrightarrow> 32 \<le> length key"
  by (auto simp: session_key_def split: option.splits if_splits)

lemma configure_login_ok:
  "configure_login parse read cfg m = Inr m' \<Longrightarrow>
     mw_oauth m' \<noteq> None \<and> states m' = states m \<and> mw_verifier m' = mw_verifier m \<and> mw_mode m' = mw_mode m \<and>
     cookieKey m' = cookieKey m"
  by (auto simp: configure_login_def Let_def split: option.splits if_splits)

lemma auth_New_flow:
  assumes "auth_New parse discover read fresh cfg = Inr m"
  shows "states m = Map.empty" and "mw_verifier m \<noteq> None"
    and "mw_oauth m \<noteq> None \<longleftrightarrow> mw_mode m = ''oidc''"
    and "mw_mode m = ''oidc'' \<Longrightarrow> 32 \<le> length (cookieKey m)"
proof -
  from assms obtain v key where key: "session_key read fresh cfg = Inr key"
    and m: "(if Mode cfg = ''oidc'' then configure_login parse read cfg (newMiddleware (Mode cfg) (Some v) key (SessionCookieName cfg))
       else Inr (newMiddleware (Mode cfg) (Some v) key (SessionCookieName cfg))) = Inr m"
    by (auto simp: auth_New_def and_then_eq_Inr Let_def split: option.splits)
  have "states m = Map.empty \<and> mw_verifier m \<noteq> None \<and> (mw_oauth m \<noteq> None \<longleftrightarrow> mw_mode m = ''oidc'') \<and>
    (mw_mode m = ''oidc'' \<longrightarrow> 32 \<le> length (cookieKey m))"
  proof (cases "Mode cfg = ''oidc''")
    case True
    with m configure_login_ok [of parse read cfg "newMiddleware (Mode cfg) (Some v) key (SessionCookieName cfg)" m]
      session_key_length [OF key True]
    show ?thesis by (simp add: newMiddleware_def)
  next
    case False
    with m show ?thesis by (auto simp: newMiddleware_def)
  qed
  then show "states m = Map.empty" and "mw_verifier m \<noteq> None"
    and "mw_oauth m \<noteq> None \<longleftrightarrow> mw_mode m = ''oidc''"
    and "mw_mode m = ''oidc'' \<Longrightarrow> 32 \<le> length (cookieKey m)" by blast+
qed

lemma callback_no_panic:
  assumes "mw_verifier m \<noteq> None"
  shows "callback lib clock fresh m req w \<noteq> None"
  using assms by (auto simp: callback_def callback_session_def Let_def split: option.splits)

section \<open>The authorizer of the data plane\<close>

text \<open>What the headers of an admitted request say: claims whose credential the request carried.\<close>

definition identified ::
  "auth_lib \<Rightarrow> Middleware \<Rightarrow> (nat \<Rightarrow> time) \<Rightarrow> string list \<Rightarrow> request \<Rightarrow> header \<Rightarrow> bool" where
  "identified lib m clock scopes req h \<longleftrightarrow>
     (\<exists>c. (session_credential lib m (clock 0) req c \<or> bearer_credential m (clock 1) req c) \<and>
        Subject c \<noteq> [] \<and> set scopes \<subseteq> set (Scopes c) \<and>
        h ''X-Authenticated-Subject'' = Some [Subject c] \<and>
        h ''X-Authenticated-Email'' = (if Email c = [] then None else Some [Email c]) \<and>
        h ''X-Authenticated-Scopes'' = Some [join '' '' (Scopes c)])"

lemma identify_at:
  assumes "h ''X-Authenticated-Email'' = None"
  shows "identify c h ''X-Authenticated-Subject'' = Some [Subject c]"
    "identify c h ''X-Authenticated-Email'' = (if Email c = [] then None else Some [Email c])"
    "identify c h ''X-Authenticated-Scopes'' = Some [join '' '' (Scopes c)]"
  using assms by (auto simp: identify_def Let_def header_set_def)

lemma Authorize_identified:
  assumes "Authorize lib m clock scopes req w = (True, req', w')"
  shows "w' = w \<and> identified lib m clock scopes req (Header req') \<and> untrusted_headers_kept (Header req) (Header req')"
  using assms
proof (rule Authorize_granted)
  fix c
  assume c: "authenticate lib m clock req = Some c" "set scopes \<subseteq> set (Scopes c)" "w' = w"
    and h: "Header req' = identify c (Header (stripIdentityHeaders req))"
  have none: "Header (stripIdentityHeaders req) ''X-Authenticated-Email'' = None"
    by (simp add: stripIdentityHeaders_def header_del_def)
  note identify_at [of "Header (stripIdentityHeaders req)" c, OF none]
  moreover have "untrusted_headers_kept (Header req) (Header req')"
    unfolding h untrusted_headers_kept_def trusted_headers_def
    by (simp add: identify_other stripIdentity_other)
  moreover have "Subject c \<noteq> [] \<and> (session_credential lib m (clock 0) req c \<or> bearer_credential m (clock 1) req c)"
    using c(1) by (rule authenticate_Some)
  ultimately show ?thesis
    using c(2,3) unfolding identified_def h by blast
qed

lemma Authorize_target:
  assumes "Authorize lib m clock scopes req w = (b, req', w')"
  shows "Method req' = Method req \<and> req_URL req' = req_URL req \<and> req_Host req' = req_Host req"
  using assms by (auto simp: Authorize_def Let_def split: option.splits if_splits)

interpretation oidc: authorizer "Authorize lib m" "identified lib m" for lib m
proof (unfold_locales, goal_cases)
  case (1 clock scopes req req' w' w)
  then show ?case by (auto dest: Authorize_denied)
next
  case (2 clock scopes req req' w' w)
  then show ?case by (rule Authorize_identified)
next
  case (3 clock scopes req b req' w' w)
  then show ?case by (rule Authorize_target)
qed

end
