(* ===== verification/Transport.thy ===== *)
theory Transport imports Upstream begin

text \<open>
  \<^verbatim>\<open>retryTransport.RoundTrip\<close> of \<^verbatim>\<open>internal/dataplane/server.go\<close>: the guard on the endpoint's
  breaker, the retry loop for idempotent methods and the breaker's bookkeeping. The base
  transport is an argument: what it returns on each attempt.
\<close>

section \<open>Requests and results\<close>

text \<open>
  The request's body as the loop sees it: none (nil or \<^verbatim>\<open>http.NoBody\<close>), one that cannot be read
  again (\<^verbatim>\<open>GetBody\<close> is nil), or one whose \<^verbatim>\<open>GetBody\<close> fails after the attempts in the set.
\<close>

datatype body = NoBody | OneShot | Rewindable "nat \<Rightarrow> bool"

datatype transport_error = CircuitOpen | BaseError | BodyError

text \<open>A response is its status; Go returns a response, an error, both or neither.\<close>

type_synonym result = "int option \<times> transport_error option"

record attempt =
  attempt_response :: "int option"
  attempt_failed :: bool

definition attempt_error :: "attempt \<Rightarrow> transport_error option" where
  "attempt_error a = (if attempt_failed a then Some BaseError else None)"

text \<open>
  What a call changes: the breaker of its endpoint, the circuit transitions reported to the event
  sink, the retries counted for the request, the response bodies closed and the attempts made.
\<close>

record trip =
  trip_breaker :: circuitBreaker
  trip_transitions :: nat
  trip_retries :: nat
  trip_closed :: nat
  trip_calls :: nat

definition safe_method :: "string \<Rightarrow> bool" where
  "safe_method m \<longleftrightarrow>
     m = ''GET'' \<or> m = ''HEAD'' \<or> m = ''OPTIONS'' \<or> m = ''PUT'' \<or> m = ''DELETE''"

definition attempt_ok :: "attempt \<Rightarrow> bool" where
  "attempt_ok a \<longleftrightarrow> \<not> attempt_failed a \<and>
     (case attempt_response a of None \<Rightarrow> False | Some status \<Rightarrow> status < 500)"

definition note_success :: "trip \<Rightarrow> trip" where
  "note_success t = t\<lparr>trip_breaker := success (trip_breaker t)\<rparr>"

definition note_failure :: "bool \<Rightarrow> time \<Rightarrow> trip \<Rightarrow> trip" where
  "note_failure sink now t =
     (let b = failure now (trip_breaker t) in
      t\<lparr>trip_breaker := b,
        trip_transitions := trip_transitions t + (if sink \<and> isOpen b then 1 else 0)\<rparr>)"

definition note_retry :: "bool \<Rightarrow> trip \<Rightarrow> trip" where
  "note_retry has_response t =
     t\<lparr>trip_retries := trip_retries t + 1,
       trip_closed := trip_closed t + (if has_response then 1 else 0)\<rparr>"

section \<open>The loop\<close>

text \<open>\<open>attempts\<close> is the pool's \<^verbatim>\<open>retryAttempts\<close>; \<open>clock n\<close> the time \<^verbatim>\<open>failure\<close> reads in attempt \<open>n\<close>.\<close>

function retry_loop ::
  "bool \<Rightarrow> bool \<Rightarrow> int \<Rightarrow> body \<Rightarrow> (nat \<Rightarrow> attempt) \<Rightarrow> (nat \<Rightarrow> time) \<Rightarrow> nat \<Rightarrow> trip \<Rightarrow> result \<times> trip" where
  "retry_loop sink safe attempts bdy base clock n t =
     (let a = base n; t1 = t\<lparr>trip_calls := trip_calls t + 1\<rparr> in
      if attempt_ok a then ((attempt_response a, None), note_success t1)
      else
        let t2 = note_failure sink (clock n) t1 in
        if attempts \<le> int n \<or> \<not> safe then ((attempt_response a, attempt_error a), t2)
        else
          let t3 = note_retry (attempt_response a \<noteq> None) t2 in
          (case bdy of
             NoBody \<Rightarrow> retry_loop sink safe attempts bdy base clock (Suc n) t3
           | OneShot \<Rightarrow> ((None, attempt_error a), t3)
           | Rewindable fails \<Rightarrow>
               if fails n then ((None, Some BodyError), t3)
               else retry_loop sink safe attempts bdy base clock (Suc n) t3))"
  by pat_completeness auto
termination
  by (relation "measure (\<lambda>(sink, safe, attempts, bdy, base, clock, n, t). nat (attempts - int n))") auto

declare retry_loop.simps [simp del]

text \<open>
  The call: \<open>index\<close> and \<open>permit\<close> are the values \<^verbatim>\<open>newProxy\<close>'s director stored in the request's
  context (\<open>None\<close> when absent), \<open>guard_now\<close> the time the guard's \<^verbatim>\<open>allow\<close> reads.
\<close>

definition RoundTrip ::
  "bool \<Rightarrow> int \<Rightarrow> circuitBreaker list \<Rightarrow> int option \<Rightarrow> bool option \<Rightarrow> string \<Rightarrow> body \<Rightarrow>
   (nat \<Rightarrow> attempt) \<Rightarrow> time \<Rightarrow> (nat \<Rightarrow> time) \<Rightarrow> result \<times> circuitBreaker list \<times> trip option" where
  "RoundTrip sink attempts bs index permit meth bdy base guard_now clock =
     (case index of
        None \<Rightarrow> ((None, Some CircuitOpen), bs, None)
      | Some i \<Rightarrow>
          if i < 0 \<or> int (length bs) \<le> i then ((None, Some CircuitOpen), bs, None)
          else
            let j = nat i;
                (admitted, b) = (if permit = Some True then (True, bs ! j) else allow guard_now (bs ! j))
            in if \<not> admitted then ((None, Some CircuitOpen), bs[j := b], None)
               else
                 case retry_loop sink (safe_method meth) attempts bdy base clock 0
                   \<lparr>trip_breaker = b, trip_transitions = 0, trip_retries = 0, trip_closed = 0,
                    trip_calls = 0\<rparr> of
                   (r, t) \<Rightarrow> (r, bs[j := trip_breaker t], Some t))"

section \<open>Facts about the loop\<close>

lemma note_fields [simp]:
  "trip_calls (note_success t) = trip_calls t" "trip_calls (note_failure s now t) = trip_calls t"
  "trip_calls (note_retry h t) = trip_calls t" "trip_retries (note_success t) = trip_retries t"
  "trip_retries (note_failure s now t) = trip_retries t" "trip_retries (note_retry h t) = trip_retries t + 1"
  "trip_breaker (note_success t) = success (trip_breaker t)"
  "trip_breaker (note_failure s now t) = failure now (trip_breaker t)"
  "trip_breaker (note_retry h t) = trip_breaker t"
  "trip_transitions (note_success t) = trip_transitions t"
  "trip_transitions (note_retry h t) = trip_transitions t"
  by (simp_all add: note_success_def note_failure_def note_retry_def Let_def)

abbreviation called :: "trip \<Rightarrow> trip" where
  "called t \<equiv> t\<lparr>trip_calls := trip_calls t + 1\<rparr>"

text \<open>Whether the loop can send the body again after attempt \<open>n\<close>.\<close>

definition can_resend :: "body \<Rightarrow> nat \<Rightarrow> bool" where
  "can_resend bdy n = (case bdy of NoBody \<Rightarrow> True | OneShot \<Rightarrow> False | Rewindable fails \<Rightarrow> \<not> fails n)"

text \<open>The error returned when it cannot.\<close>

definition resend_error :: "body \<Rightarrow> attempt \<Rightarrow> transport_error option" where
  "resend_error bdy a = (if bdy = OneShot then attempt_error a else Some BodyError)"

text \<open>
  Induction along the loop: an attempt succeeds, is the last one, cannot be repeated for its
  body, or is followed by another.
\<close>

lemma retry_loop_induct [consumes 1, case_names success last body again]:
  assumes run: "retry_loop sink safe attempts bdy base clock n t = (r, t')"
    and success: "\<And>n t. attempt_ok (base n) \<Longrightarrow>
      P n t (attempt_response (base n), None) (note_success (called t))"
    and last: "\<And>n t. \<not> attempt_ok (base n) \<Longrightarrow> attempts \<le> int n \<or> \<not> safe \<Longrightarrow>
      P n t (attempt_response (base n), attempt_error (base n)) (note_failure sink (clock n) (called t))"
    and body: "\<And>n t. \<not> attempt_ok (base n) \<Longrightarrow> int n < attempts \<Longrightarrow> safe \<Longrightarrow> \<not> can_resend bdy n \<Longrightarrow>
      P n t (None, resend_error bdy (base n))
        (note_retry (attempt_response (base n) \<noteq> None) (note_failure sink (clock n) (called t)))"
    and again: "\<And>n t r t'. \<not> attempt_ok (base n) \<Longrightarrow> int n < attempts \<Longrightarrow> safe \<Longrightarrow> can_resend bdy n \<Longrightarrow>
      P (Suc n) (note_retry (attempt_response (base n) \<noteq> None) (note_failure sink (clock n) (called t))) r t' \<Longrightarrow>
      P n t r t'"
  shows "P n t r t'"
  using run
proof (induction "nat (attempts - int n)" arbitrary: n t rule: less_induct)
  case less
  let ?t2 = "note_failure sink (clock n) (called t)"
  let ?t3 = "note_retry (attempt_response (base n) \<noteq> None) ?t2"
  consider (ok) "attempt_ok (base n)"
    | (final) "\<not> attempt_ok (base n)" "attempts \<le> int n \<or> \<not> safe"
    | (stop) "\<not> attempt_ok (base n)" "int n < attempts" "safe" "\<not> can_resend bdy n"
    | (resend) "\<not> attempt_ok (base n)" "int n < attempts" "safe" "can_resend bdy n"
    by fastforce
  then show ?case
  proof cases
    case ok
    with less.prems success [OF ok, of t] show ?thesis
      by (simp add: retry_loop.simps [of _ _ _ _ _ _ n] Let_def)
  next
    case final
    have "r = (attempt_response (base n), attempt_error (base n))" "t' = ?t2"
      using less.prems final by (auto simp: retry_loop.simps [of _ _ _ _ _ _ n] Let_def)
    with last [OF final, of t] show ?thesis by simp
  next
    case stop
    have "r = (None, resend_error bdy (base n))" "t' = ?t3"
      using less.prems stop
      by (auto simp: retry_loop.simps [of _ _ _ _ _ _ n] Let_def can_resend_def resend_error_def
          split: body.splits if_splits)
    with body [OF stop, of t] show ?thesis by simp
  next
    case resend
    have "retry_loop sink safe attempts bdy base clock (Suc n) ?t3 = (r, t')"
      using less.prems resend
      by (auto simp: retry_loop.simps [of _ _ _ _ _ _ n] Let_def can_resend_def split: body.splits if_splits)
    then have "P (Suc n) ?t3 r t'" using resend by (intro less.hyps) auto
    with again [OF resend] show ?thesis by blast
  qed
qed

text \<open>How many retries the loop may make.\<close>

definition budget :: "bool \<Rightarrow> int \<Rightarrow> nat" where
  "budget safe attempts = (if safe then nat attempts else 0)"

lemma retry_loop_calls:
  assumes "retry_loop sink safe attempts bdy base clock n t = (r, t')" and "n \<le> budget safe attempts"
  shows "trip_calls t < trip_calls t' \<and>
    trip_calls t' + n \<le> trip_calls t + budget safe attempts + 1"
  using assms
  by (induction rule: retry_loop_induct)
    (auto simp: budget_def Suc_le_eq zless_nat_eq_int_zless split: if_splits)

lemma retry_loop_success:
  assumes "retry_loop sink safe attempts bdy base clock n t = (r, t')"
    and "r = (Some status, None)" and "status < 500"
  shows "failures (trip_breaker t') = 0 \<and> openUntil (trip_breaker t') = 0 \<and> \<not> halfOpen (trip_breaker t')"
  using assms
  by (induction rule: retry_loop_induct)
    (auto simp: success_def attempt_ok_def attempt_error_def split: if_splits)

lemma retry_loop_nothing:
  assumes "retry_loop sink safe attempts bdy base clock n t = (r, t')"
    and "r = (None, None)" and "\<And>i. attempt_failed (base i) \<or> attempt_response (base i) \<noteq> None"
  shows "bdy = OneShot \<and> safe \<and> int n < attempts \<and> \<not> attempt_failed (base n)"
  using assms
proof (induction rule: retry_loop_induct)
  case (success n t)
  then show ?case by (auto simp: attempt_ok_def)
next
  case (last n t)
  from last.prems(2) [of n] last.prems(1) show ?case
    by (auto simp: attempt_error_def split: if_splits)
next
  case (body n t)
  then show ?case by (auto simp: resend_error_def attempt_error_def split: if_splits)
next
  case (again n t r t')
  then show ?case by (auto simp: can_resend_def)
qed

lemma retry_loop_oneshot:
  assumes "\<not> attempt_ok (base n)" and "safe" and "int n < attempts"
  shows "fst (retry_loop sink safe attempts OneShot base clock n t) = (None, attempt_error (base n))"
  using assms by (simp add: retry_loop.simps [of _ _ _ _ _ _ n] Let_def)

text \<open>When the loop returns neither a response nor an error.\<close>

lemma retry_loop_nothing_iff:
  assumes "\<And>i. attempt_failed (base i) \<or> attempt_response (base i) \<noteq> None"
  shows "fst (retry_loop sink safe attempts bdy base clock 0 t) = (None, None) \<longleftrightarrow>
    safe \<and> bdy = OneShot \<and> 0 < attempts \<and> \<not> attempt_ok (base 0) \<and> \<not> attempt_failed (base 0)"
proof
  assume "fst (retry_loop sink safe attempts bdy base clock 0 t) = (None, None)"
  then obtain t' where t': "retry_loop sink safe attempts bdy base clock 0 t = ((None, None), t')"
    by (cases "retry_loop sink safe attempts bdy base clock 0 t") auto
  from retry_loop_nothing [OF t' refl assms]
  have "bdy = OneShot" "safe" "0 < attempts" "\<not> attempt_failed (base 0)" by auto
  moreover have "\<not> attempt_ok (base 0)"
  proof
    assume "attempt_ok (base 0)"
    with t' show False by (auto simp: retry_loop.simps Let_def attempt_ok_def)
  qed
  ultimately show "safe \<and> bdy = OneShot \<and> 0 < attempts \<and> \<not> attempt_ok (base 0) \<and> \<not> attempt_failed (base 0)"
    by blast
next
  assume "safe \<and> bdy = OneShot \<and> 0 < attempts \<and> \<not> attempt_ok (base 0) \<and> \<not> attempt_failed (base 0)"
  then show "fst (retry_loop sink safe attempts bdy base clock 0 t) = (None, None)"
    by (simp add: retry_loop_oneshot attempt_error_def)
qed

lemma retry_loop_inv:
  assumes "retry_loop sink safe attempts bdy base clock n t = (r, t')"
    and "breaker_inv (trip_breaker t)" and "\<And>i. 0 < clock i"
  shows "breaker_inv (trip_breaker t')"
  using assms
  by (induction rule: retry_loop_induct) (simp_all add: breaker_inv_success breaker_inv_failure)

section \<open>Properties\<close>

text \<open>
  Who passes the guard in front of the loop: a call for an endpoint of the pool that \<^verbatim>\<open>pick\<close> has
  permitted, or that the endpoint's breaker admits now.
\<close>

definition passes_guard :: "circuitBreaker list \<Rightarrow> int option \<Rightarrow> bool option \<Rightarrow> time \<Rightarrow> bool" where
  "passes_guard bs index permit now \<longleftrightarrow>
     (\<exists>i < length bs. index = Some (int i) \<and> (permit = Some True \<or> fst (allow now (bs ! i))))"

abbreviation no_calls :: "circuitBreaker \<Rightarrow> trip" where
  "no_calls b \<equiv> \<lparr>trip_breaker = b, trip_transitions = 0, trip_retries = 0, trip_closed = 0, trip_calls = 0\<rparr>"

lemma RoundTrip_refused:
  assumes "\<not> passes_guard bs index permit now"
  shows "\<exists>bs'. RoundTrip sink attempts bs index permit meth bdy base now clock = ((None, Some CircuitOpen), bs', None)"
proof -
  have refused: "permit \<noteq> Some True \<and> \<not> fst (allow now (bs ! nat i))"
    if "index = Some i" "0 \<le> i" "i < int (length bs)" for i
    using assms that by (auto simp: passes_guard_def dest: spec [of _ "nat i"])
  then show ?thesis
    by (auto simp: RoundTrip_def Let_def not_less split: option.split prod.split)
qed

lemma RoundTrip_loop:
  assumes "passes_guard bs index permit now"
  obtains b i where "RoundTrip sink attempts bs index permit meth bdy base now clock =
    (case retry_loop sink (safe_method meth) attempts bdy base clock 0 (no_calls b) of
       (r, t) \<Rightarrow> (r, bs[i := trip_breaker t], Some t))"
proof -
  from assms obtain i where i: "i < length bs" "index = Some (int i)" "permit = Some True \<or> fst (allow now (bs ! i))"
    by (auto simp: passes_guard_def)
  obtain ok b where "(if permit = Some True then (True, bs ! i) else allow now (bs ! i)) = (ok, b)" by fastforce
  moreover from this i(3) have "ok" by (auto split: if_splits)
  ultimately show thesis using i(1,2) that [where b = b and i = i] by (simp add: RoundTrip_def Let_def)
qed

text \<open>
  Claim C28: a call reaches the upstream exactly when it passes the guard (it names an endpoint of the
  pool and has a permit or is admitted by the endpoint's breaker), and otherwise ends with the
  circuit-open error; one that passes reaches it at least once, at most once for a method that is
  not idempotent, and at most one time more than the configured attempts otherwise.
\<close>

theorem RoundTrip_calls:
  assumes "RoundTrip sink attempts bs index permit meth bdy base guard_now clock = (r, bs', trip)"
  shows "(trip = None \<longleftrightarrow> \<not> passes_guard bs index permit guard_now) \<and>
    (case trip of
       None \<Rightarrow> r = (None, Some CircuitOpen)
     | Some t \<Rightarrow> 1 \<le> trip_calls t \<and> trip_calls t \<le> 1 + (if safe_method meth then nat attempts else 0))"
proof (cases "passes_guard bs index permit guard_now")
  case False
  from RoundTrip_refused [OF this, of sink attempts meth bdy base clock] assms False show ?thesis by auto
next
  case True
  obtain b i where "RoundTrip sink attempts bs index permit meth bdy base guard_now clock =
      (case retry_loop sink (safe_method meth) attempts bdy base clock 0 (no_calls b) of
         (r, t) \<Rightarrow> (r, bs[i := trip_breaker t], Some t))"
    by (rule RoundTrip_loop [OF True])
  with assms obtain t where "retry_loop sink (safe_method meth) attempts bdy base clock 0 (no_calls b) = (r, t)"
    and "trip = Some t" by (auto split: prod.splits)
  with True retry_loop_calls [OF this(1)] show ?thesis by (auto simp: budget_def)
qed

theorem RoundTrip_calls_witness:
  "case snd (snd (RoundTrip True 2 [new_breaker 5 10] (Some 0) (Some True) ''POST'' NoBody
      (\<lambda>_. \<lparr>attempt_response = Some 502, attempt_failed = False\<rparr>) 7 (\<lambda>_. 7))) of
    None \<Rightarrow> False | Some t \<Rightarrow> trip_calls t = 1"
proof -
  let ?run = "RoundTrip True 2 [new_breaker 5 10] (Some 0) (Some True) ''POST'' NoBody
      (\<lambda>_. \<lparr>attempt_response = Some 502, attempt_failed = False\<rparr>) 7 (\<lambda>_. 7)"
  have "passes_guard [new_breaker 5 10] (Some 0) (Some True) 7" by (simp add: passes_guard_def)
  then show ?thesis
    using RoundTrip_calls [of True 2 "[new_breaker 5 10]" "Some 0" "Some True" "''POST''" NoBody
      "\<lambda>_. \<lparr>attempt_response = Some 502, attempt_failed = False\<rparr>" 7 "\<lambda>_. 7" "fst ?run" "fst (snd ?run)"
      "snd (snd ?run)"]
    by (auto simp: safe_method_def split: option.splits)
qed

text \<open>
  Claim C29: over a base transport that always returns a response or an error, the call returns
  neither (no response and a nil error, which breaks the contract of \<^verbatim>\<open>http.RoundTripper\<close>) exactly
  when it passes the guard (with a permit or admitted by the breaker) and an idempotent request with
  a body that cannot be read again is answered with a server error on its first attempt while
  retries are configured.
\<close>

theorem RoundTrip_returns_nothing_iff:
  assumes "\<And>i. attempt_failed (base i) \<or> attempt_response (base i) \<noteq> None"
  shows "fst (RoundTrip sink attempts bs index permit meth bdy base guard_now clock) = (None, None) \<longleftrightarrow>
    passes_guard bs index permit guard_now \<and> safe_method meth \<and> bdy = OneShot \<and> 0 < attempts \<and>
    (\<exists>status. base 0 = \<lparr>attempt_response = Some status, attempt_failed = False\<rparr> \<and> 500 \<le> status)"
proof (cases "passes_guard bs index permit guard_now")
  case False
  from RoundTrip_refused [OF this, of sink attempts meth bdy base clock] False show ?thesis by auto
next
  case True
  obtain b i where "RoundTrip sink attempts bs index permit meth bdy base guard_now clock =
      (case retry_loop sink (safe_method meth) attempts bdy base clock 0 (no_calls b) of
         (r, t) \<Rightarrow> (r, bs[i := trip_breaker t], Some t))"
    by (rule RoundTrip_loop [OF True])
  then have run: "fst (RoundTrip sink attempts bs index permit meth bdy base guard_now clock) =
      fst (retry_loop sink (safe_method meth) attempts bdy base clock 0 (no_calls b))"
    by (simp split: prod.split)
  have server_error: "\<not> attempt_ok (base 0) \<and> \<not> attempt_failed (base 0) \<longleftrightarrow>
      (\<exists>status. base 0 = \<lparr>attempt_response = Some status, attempt_failed = False\<rparr> \<and> 500 \<le> status)"
    using assms [of 0] by (cases "base 0") (auto simp: attempt_ok_def split: option.splits)
  with retry_loop_nothing_iff [OF assms, where sink = sink and safe = "safe_method meth" and attempts = attempts
      and bdy = bdy and clock = clock and t = "no_calls b"] True run
  show ?thesis by auto
qed

theorem RoundTrip_returns_nothing_iff_witness:
  "fst (RoundTrip True 1 [new_breaker 5 10] (Some 0) (Some False) ''PUT'' OneShot
     (\<lambda>_. \<lparr>attempt_response = Some 502, attempt_failed = False\<rparr>) 7 (\<lambda>_. 7)) = (None, None)"
proof (subst RoundTrip_returns_nothing_iff)
  have "fst (allow 7 (new_breaker 5 10))" by code_simp
  then show "passes_guard [new_breaker 5 10] (Some 0) (Some False) 7 \<and> safe_method ''PUT'' \<and> OneShot = OneShot \<and>
    0 < (1::int) \<and> (\<exists>status. \<lparr>attempt_response = Some (502::int), attempt_failed = False\<rparr> =
      \<lparr>attempt_response = Some status, attempt_failed = False\<rparr> \<and> 500 \<le> status)"
    by (simp add: passes_guard_def safe_method_def)
qed simp

lemma RoundTrip_breakers:
  assumes "RoundTrip sink attempts bs (Some (int i)) permit meth bdy base guard_now clock = (r, bs', trip)"
    and "i < length bs" and "list_all breaker_inv bs" and "\<And>k. 0 < clock k"
  shows "list_all breaker_inv bs' \<and> length bs' = length bs \<and>
    (\<forall>j < length bs. j \<noteq> i \<longrightarrow> bs' ! j = bs ! j) \<and>
    (\<forall>status < 500. r = (Some status, None) \<longrightarrow> breaker_abs (bs' ! i) = Closed 0)"
proof -
  have inv: "breaker_inv (bs ! i)" using assms(2,3) by (simp add: list_all_length)
  obtain adm b where ab: "(if permit = Some True then (True, bs ! i) else allow guard_now (bs ! i)) = (adm, b)"
    by fastforce
  with inv have b: "breaker_inv b"
    using breaker_inv_allow [OF inv, of guard_now] by (auto split: if_splits)
  show ?thesis
  proof (cases adm)
    case False
    with ab assms(1,2) have "bs' = bs[i := b]" "r = (None, Some CircuitOpen)"
      by (auto simp: RoundTrip_def Let_def)
    with b assms(3) show ?thesis by (simp add: list_all_update)
  next
    case True
    let ?t = "\<lparr>trip_breaker = b, trip_transitions = 0, trip_retries = 0, trip_closed = 0, trip_calls = 0\<rparr>"
    from True ab assms(1,2) obtain t where
      run: "retry_loop sink (safe_method meth) attempts bdy base clock 0 ?t = (r, t)"
      and bs': "bs' = bs[i := trip_breaker t]"
      by (auto simp: RoundTrip_def Let_def split: prod.splits)
    have "breaker_inv (trip_breaker t)" using run by (rule retry_loop_inv) (simp_all add: b assms(4))
    moreover have "breaker_abs (trip_breaker t) = Closed 0" if "r = (Some status, None)" "status < 500" for status
      using retry_loop_success [OF run that] by (simp add: breaker_abs_def)
    ultimately show ?thesis using assms(2,3) bs' by (auto simp: list_all_update)
  qed
qed

text \<open>
  When \<^verbatim>\<open>pick\<close> permits no endpoint it names the first, and the round trip then asks the first
  endpoint's breaker itself, but not its health flag: the request is sent to it exactly when the
  breaker admits it, even if a probe has marked it unhealthy.
\<close>

lemma refused_pick_calls_first:
  assumes "pool_inv u" and "pick clock u = Some ((target, c, False), u')"
  shows "target = endpoints u ! 0 \<and> c = 0 \<and> breakers u' = breakers u \<and>
    ((\<exists>t. snd (snd (RoundTrip sink attempts (breakers u') (Some (int c)) (Some False) meth bdy base now clk)) = Some t) \<longleftrightarrow>
     fst (allow now (breakers u ! 0)))"
proof -
  have n: "endpoints u \<noteq> []" "breakers u \<noteq> []" using assms(1) by (auto simp: pool_inv_def)
  with assms(2) have p: "target = endpoints u ! 0" "c = 0" "breakers u' = breakers u"
    by (auto simp: pick_eq Let_def split: option.splits)
  then show ?thesis using n
    by (auto simp: RoundTrip_def Let_def split: prod.splits)
qed

lemma unhealthy_endpoint_called:
  "\<exists>u' t. pick (\<lambda>_. 7) (sample_pool [False, True] 1) = Some ((sample_url, 0, False), u') \<and> \<not> healthy u' ! 0 \<and> healthy u' ! 1 \<and>
     snd (snd (RoundTrip True 0 (breakers u') (Some 0) (Some False) ''GET'' NoBody
       (\<lambda>_. \<lparr>attempt_response = Some 200, attempt_failed = False\<rparr>) 7 (\<lambda>_. 7))) = Some t"
proof -
  have "map_option (\<lambda>(r, u'). (r, healthy u')) (pick (\<lambda>_. 7) (sample_pool [False, True] 1)) =
      Some ((sample_url, 0, False), [False, True])"
    by code_simp
  then obtain u' where p: "pick (\<lambda>_. 7) (sample_pool [False, True] 1) = Some ((sample_url, 0, False), u')"
    and h: "healthy u' = [False, True]" by auto
  have "fst (allow 7 (breakers (sample_pool [False, True] 1) ! 0))" by code_simp
  with refused_pick_calls_first [OF _ p] obtain t where
    "snd (snd (RoundTrip True 0 (breakers u') (Some 0) (Some False) ''GET'' NoBody
       (\<lambda>_. \<lparr>attempt_response = Some 200, attempt_failed = False\<rparr>) 7 (\<lambda>_. 7))) = Some t"
    by (force simp: sample_pool_inv)
  with p h show ?thesis by auto
qed

end
