(* ===== verification/ReverseProxy.thy ===== *)
theory ReverseProxy imports Routing Query begin

text \<open>
  What \<^verbatim>\<open>httputil.ReverseProxy\<close> does to the headers of a request on its way out, after the director has
  run: hop-by-hop headers off, protocol upgrades and trailers back on, \<^verbatim>\<open>X-Forwarded-For\<close> and
  \<^verbatim>\<open>User-Agent\<close>.
\<close>

section \<open>Hop-by-hop headers\<close>

text \<open>
  The headers that \<^verbatim>\<open>httputil.ReverseProxy\<close> takes off an outgoing request: those that a
  \<^verbatim>\<open>Connection\<close> header names, and its fixed list.
\<close>

definition hop_headers :: "string list" where
  "hop_headers =
     [''Connection'', ''Proxy-Connection'', ''Keep-Alive'', ''Proxy-Authenticate'', ''Proxy-Authorization'',
      ''Te'', ''Trailer'', ''Transfer-Encoding'', ''Upgrade'']"

definition connection_options :: "header \<Rightarrow> string list" where
  "connection_options h =
     (case h ''Connection'' of
        None \<Rightarrow> []
      | Some vs \<Rightarrow> filter (\<lambda>f. f \<noteq> []) (map (trim_set [CHR '' '', CHR 0x09]) (concat (map (split_on (CHR '','')) vs))))"

definition removeHopByHop :: "header \<Rightarrow> header" where
  "removeHopByHop h = foldl (\<lambda>h' k. h'(k := None)) (foldl (\<lambda>h' k. header_del k h') h (connection_options h)) hop_headers"

section \<open>The outgoing headers\<close>

text \<open>\<^verbatim>\<open>httpguts.HeaderValuesContainsToken\<close>: the token among the comma-separated parts, in any letter case.\<close>

definition contains_token :: "string list option \<Rightarrow> string \<Rightarrow> bool" where
  "contains_token vs token \<longleftrightarrow>
     (case vs of
        None \<Rightarrow> False
      | Some values \<Rightarrow>
          to_lower token \<in> set (map (\<lambda>f. to_lower (trim_set [CHR '' '', CHR 0x09] f))
            (concat (map (split_on (CHR '','')) values))))"

definition upgradeType :: "header \<Rightarrow> string" where
  "upgradeType h = (if contains_token (h ''Connection'') ''Upgrade'' then header_get h ''Upgrade'' else [])"

definition printable_ascii :: "string \<Rightarrow> bool" where
  "printable_ascii s \<longleftrightarrow> list_all (\<lambda>c. 32 \<le> code c \<and> code c \<le> 126) s"

definition forward_for :: "string \<Rightarrow> header \<Rightarrow> header" where
  "forward_for remote h =
     (case SplitHost remote of
        None \<Rightarrow> h
      | Some ip \<Rightarrow>
          (case h ''X-Forwarded-For'' of
             None \<Rightarrow> header_set ''X-Forwarded-For'' ip h
           | Some [] \<Rightarrow> h
           | Some prior \<Rightarrow> header_set ''X-Forwarded-For'' (join '', '' prior @ '', '' @ ip) h))"

text \<open>The request's own headers \<open>inbound\<close> and those the director left.\<close>

definition outgoing_header :: "header \<Rightarrow> string \<Rightarrow> header \<Rightarrow> header" where
  "outgoing_header inbound remote h =
     (let up = upgradeType h;
          h1 = removeHopByHop h;
          h2 = (if contains_token (inbound ''Te'') ''trailers'' then header_set ''Te'' ''trailers'' h1 else h1);
          h3 = (if up \<noteq> [] then header_set ''Upgrade'' up (header_set ''Connection'' ''Upgrade'' h2) else h2);
          h4 = forward_for remote h3
      in if h4 ''User-Agent'' = None then header_set ''User-Agent'' [] h4 else h4)"

section \<open>Facts\<close>

lemma foldl_delete: "foldl (\<lambda>h' k. h'(g k := None)) h ks k0 = (if k0 \<in> g ` set ks then None else h k0)"
  by (induction ks arbitrary: h) auto

lemma removeHopByHop_eq:
  "removeHopByHop h k =
     (if k \<in> set hop_headers \<or> k \<in> CanonicalHeaderKey ` set (connection_options h) then None else h k)"
  unfolding removeHopByHop_def header_del_def foldl_delete foldl_delete [where g = "\<lambda>k. k", simplified]
  by simp

lemma removeHopByHop_at: "removeHopByHop h k = h k \<or> removeHopByHop h k = None"
  by (simp add: removeHopByHop_eq)

text \<open>A client can have identity headers removed, by naming them in its \<^verbatim>\<open>Connection\<close> header.\<close>

lemma connection_drops_identity:
  "removeHopByHop [''Connection'' \<mapsto> [''close, X-Authenticated-Subject''],
     ''X-Authenticated-Subject'' \<mapsto> [''alice'']] ''X-Authenticated-Subject'' = None"
  by code_simp

text \<open>A header that none of the steps sets is kept or removed.\<close>

lemma outgoing_header_at:
  assumes "k \<notin> {''Te'', ''Connection'', ''Upgrade'', ''X-Forwarded-For'', ''User-Agent''}"
  shows "outgoing_header inbound remote h k = h k \<or> outgoing_header inbound remote h k = None"
proof -
  have canon: "CanonicalHeaderKey ''Te'' = ''Te''" "CanonicalHeaderKey ''Connection'' = ''Connection''"
    "CanonicalHeaderKey ''Upgrade'' = ''Upgrade''" "CanonicalHeaderKey ''User-Agent'' = ''User-Agent''"
    "CanonicalHeaderKey ''X-Forwarded-For'' = ''X-Forwarded-For''" by code_simp+
  have fwd: "forward_for remote h' k = h' k" for h'
    using assms by (auto simp: forward_for_def header_set_def canon split: option.split list.split)
  have "outgoing_header inbound remote h k = removeHopByHop h k"
    using assms by (simp add: outgoing_header_def Let_def header_set_def canon fwd)
  with removeHopByHop_at [of h k] show ?thesis by simp
qed

end
