(* ===== verification/DataPlane.thy ===== *)
theory DataPlane imports Config Transport Metrics Authorizer ReverseProxy begin

text \<open>
  The server of \<^verbatim>\<open>internal/dataplane/server.go\<close>: compilation of a configuration into a runtime
  (\<^verbatim>\<open>ReconfigureWithAuthorizer\<close>, \<^verbatim>\<open>Reconfigure\<close>), the generations of runtimes that requests in
  flight keep alive, and the request handler from admission to the proxied request. A runtime is
  an object of a store, because requests and health loops hold pointers to replaced runtimes.
\<close>

section \<open>Compiling a configuration\<close>

datatype dp_error =
    InvalidConfig config_error
  | DuplicateUpstream string
  | NoUpstreamURLs string
  | InvalidUpstreamURL string string
  | UnknownUpstream string string
  | RestartRequired

definition add_endpoint ::
  "(string \<Rightarrow> url option) \<Rightarrow> string \<Rightarrow> url list \<Rightarrow> string \<Rightarrow> dp_error + url list" where
  "add_endpoint parse name eps raw =
     (case parse raw of
        None \<Rightarrow> Inl (InvalidUpstreamURL name raw)
      | Some target \<Rightarrow>
          if Scheme target = [] \<or> Host target = [] then Inl (InvalidUpstreamURL name raw)
          else Inr (eps @ [target]))"

definition default_if_nonpos :: "int \<Rightarrow> int \<Rightarrow> int" where
  "default_if_nonpos d x = (if x \<le> 0 then d else x)"

definition make_pool :: "UpstreamConfig \<Rightarrow> url list \<Rightarrow> upstreamPool" where
  "make_pool u eps =
     \<lparr>pool_name = up_Name u, endpoints = eps, next_ctr = 0,
      requestTimeout = default_if_nonpos (30 * second) (RequestTimeout u),
      healthPath = HealthPath u,
      healthInterval = default_if_nonpos (10 * second) (HealthInterval u),
      retryAttempts = (if RetryAttempts u < 0 then 0 else RetryAttempts u),
      healthy = map (\<lambda>_. True) eps,
      breakers = map (\<lambda>_. new_breaker (default_if_nonpos 5 (CircuitBreakerThreshold u))
        (default_if_nonpos (10 * second) (CircuitBreakerCooldown u))) eps\<rparr>"

definition add_upstream ::
  "(string \<Rightarrow> url option) \<Rightarrow> (string \<rightharpoonup> upstreamPool) \<Rightarrow> UpstreamConfig \<Rightarrow>
   dp_error + (string \<rightharpoonup> upstreamPool)" where
  "add_upstream parse pools u =
     (if pools (up_Name u) \<noteq> None then Inl (DuplicateUpstream (up_Name u))
      else if elems (URLs u) = [] then Inl (NoUpstreamURLs (up_Name u))
      else
        and_then (for_range (add_endpoint parse (up_Name u)) [] (elems (URLs u)))
          (\<lambda>eps. Inr (pools(up_Name u \<mapsto> make_pool u eps))))"

definition cloneHeaders :: "(string \<rightharpoonup> string) option \<Rightarrow> (string \<rightharpoonup> string)" where
  "cloneHeaders headers = (case headers of None \<Rightarrow> Map.empty | Some m \<Rightarrow> m)"

definition compile_route :: "RouteConfig \<Rightarrow> compiledRoute" where
  "compile_route r =
     \<lparr>cr_name = route_Name r, cr_host = normalizeHost (route_Host r),
      cr_pathPrefix = (if PathPrefix r = [] then ''/'' else PathPrefix r),
      cr_methods = set (map to_upper (elems (Methods r))),
      cr_headers = cloneHeaders (route_Headers r), cr_requireAuth = RequireAuth r,
      cr_scopes = elems (route_Scopes r), cr_upstream = route_Upstream r\<rparr>"

definition add_route ::
  "(string \<rightharpoonup> upstreamPool) \<Rightarrow> compiledRoute list \<Rightarrow> RouteConfig \<Rightarrow> dp_error + compiledRoute list" where
  "add_route pools rs r =
     (if pools (route_Upstream r) = None then Inl (UnknownUpstream (route_Name r) (route_Upstream r))
      else Inr (rs @ [compile_route r]))"

section \<open>Runtimes and the server\<close>

text \<open>
  \<open>rt_slots\<close> is the number of tokens in the channel \<^verbatim>\<open>maxInFlight\<close> and \<open>rt_capacity\<close> its capacity;
  \<open>rt_stopped\<close> says that \<^verbatim>\<open>stop\<close> was called. Pools are reached by name, from routes and from health
  loops.
\<close>

record runtimeState =
  rt_cfg :: Config
  rt_routes :: "compiledRoute list"
  rt_pools :: "string \<rightharpoonup> upstreamPool"
  rt_slots :: nat
  rt_capacity :: int
  rt_maxBody :: int
  rt_authorizer :: "authorize option"
  rt_stopped :: bool

text \<open>
  The server's atomic pointer is an index into the runtimes created so far (\<open>None\<close>: nil);
  \<open>srv_sink\<close> says whether it has an event sink and \<open>srv_events\<close> is what the sink was told.
\<close>

record Server =
  srv_heap :: "runtimeState list"
  srv_current :: "nat option"
  srv_sink :: bool
  srv_events :: "gateway_event list"

definition compile ::
  "(string \<Rightarrow> url option) \<Rightarrow> authorize option \<Rightarrow> Config \<Rightarrow> dp_error + runtimeState" where
  "compile parse auth cfg =
     (case Validate parse cfg of
        Inl e \<Rightarrow> Inl (InvalidConfig e)
      | Inr _ \<Rightarrow>
          and_then (for_range (add_upstream parse) Map.empty (elems (Upstreams cfg)))
            (\<lambda>pools. and_then (for_range (add_route pools) [] (elems (Routes cfg)))
              (\<lambda>routes. Inr
                \<lparr>rt_cfg = Clone cfg, rt_routes = routes, rt_pools = pools, rt_slots = 0,
                 rt_capacity = MaxInFlight (Limits cfg), rt_maxBody = MaxBodyBytes (Limits cfg),
                 rt_authorizer = auth, rt_stopped = False\<rparr>)))"

definition update_runtime :: "nat \<Rightarrow> (runtimeState \<Rightarrow> runtimeState) \<Rightarrow> Server \<Rightarrow> Server" where
  "update_runtime g f s =
     (if g < length (srv_heap s) then s\<lparr>srv_heap := (srv_heap s)[g := f (srv_heap s ! g)]\<rparr> else s)"

definition stop :: "nat option \<Rightarrow> Server \<Rightarrow> Server" where
  "stop g s = (case g of None \<Rightarrow> s | Some g' \<Rightarrow> update_runtime g' (\<lambda>rt. rt\<lparr>rt_stopped := True\<rparr>) s)"

definition ReconfigureWithAuthorizer ::
  "(string \<Rightarrow> url option) \<Rightarrow> authorize option \<Rightarrow> Config \<Rightarrow> Server \<Rightarrow> dp_error + Server" where
  "ReconfigureWithAuthorizer parse auth cfg s =
     and_then (compile parse auth cfg)
       (\<lambda>rt. Inr (stop (srv_current s)
          (s\<lparr>srv_heap := srv_heap s @ [rt], srv_current := Some (length (srv_heap s))\<rparr>)))"

definition current :: "Server \<Rightarrow> runtimeState option" where
  "current s =
     (case srv_current s of
        None \<Rightarrow> None
      | Some g \<Rightarrow> if g < length (srv_heap s) then Some (srv_heap s ! g) else None)"

definition currentAuthorizer :: "runtimeState option \<Rightarrow> authorize option" where
  "currentAuthorizer rt = (case rt of None \<Rightarrow> None | Some r \<Rightarrow> rt_authorizer r)"

definition firstAuthorizer :: "authorize option list \<Rightarrow> authorize option" where
  "firstAuthorizer as = (case as of [] \<Rightarrow> None | a # _ \<Rightarrow> a)"

text \<open>\<^verbatim>\<open>reflect.DeepEqual\<close> on the three sections that a reload must not change.\<close>

definition same_restart_sections :: "Config \<Rightarrow> Config \<Rightarrow> bool" where
  "same_restart_sections c d \<longleftrightarrow>
     Config.Server c = Config.Server d \<and> Config.Auth c = Config.Auth d \<and> Config.Cluster c = Config.Cluster d"

definition Reconfigure ::
  "(string \<Rightarrow> url option) \<Rightarrow> Config \<Rightarrow> Server \<Rightarrow> dp_error + Server" where
  "Reconfigure parse cfg s =
     (case current s of
        Some rt \<Rightarrow>
          if \<not> same_restart_sections (rt_cfg rt) cfg then Inl RestartRequired
          else ReconfigureWithAuthorizer parse (currentAuthorizer (current s)) cfg s
      | None \<Rightarrow> ReconfigureWithAuthorizer parse (currentAuthorizer (current s)) cfg s)"

definition NewServerWithEvents ::
  "(string \<Rightarrow> url option) \<Rightarrow> Config \<Rightarrow> authorize option \<Rightarrow> bool \<Rightarrow> dp_error + Server" where
  "NewServerWithEvents parse cfg auth sink =
     ReconfigureWithAuthorizer parse auth cfg
       \<lparr>srv_heap = [], srv_current = None, srv_sink = sink, srv_events = []\<rparr>"

definition NewServer ::
  "(string \<Rightarrow> url option) \<Rightarrow> Config \<Rightarrow> authorize option list \<Rightarrow> dp_error + Server" where
  "NewServer parse cfg auths = NewServerWithEvents parse cfg (firstAuthorizer auths) False"

definition Close :: "Server \<Rightarrow> Server" where
  "Close s = (case current s of None \<Rightarrow> s | Some _ \<Rightarrow> stop (srv_current s) s)"

section \<open>The proxied request\<close>

text \<open>The director of \<^verbatim>\<open>newProxy\<close> on the outgoing copy of the request.\<close>

definition direct :: "url \<Rightarrow> request \<Rightarrow> request" where
  "direct target req =
     (let u = (req_URL req)\<lparr>Scheme := Scheme target, Host := Host target\<rparr>
      in req\<lparr>req_Host := Host target, req_URL := joinProxyPath target u\<rparr>)"

text \<open>
  What one request draws from its environment: clocks, the order in which Go ranges over the route's
  headers, the request's body, and the base transport's answer to each attempt at the request sent.
\<close>

record serve_env =
  se_auth_clock :: "nat \<Rightarrow> time"
  se_order :: "string list"
  se_pick_clock :: "nat \<Rightarrow> time"
  se_guard :: time
  se_clock :: "nat \<Rightarrow> time"
  se_body :: body
  se_base :: "request \<Rightarrow> nat \<Rightarrow> attempt"

text \<open>
  What serving a request comes to: the pools after it, the request with its signals, the response,
  the events, the request that went to the upstream if one did, and whether the handler panicked.
\<close>

record served =
  sv_pools :: "string \<rightharpoonup> upstreamPool"
  sv_request :: request
  sv_response :: response
  sv_events :: "gateway_event list"
  sv_upstream :: "request option"
  sv_panic :: bool

text \<open>A request without content goes out without a body.\<close>

definition outgoing_body :: "serve_env \<Rightarrow> request \<Rightarrow> body" where
  "outgoing_body env req = (if ContentLength req = 0 then NoBody else se_body env)"

text \<open>
  \<^verbatim>\<open>ReverseProxy.ServeHTTP\<close> with the director and the retrying transport: a request to switch to a
  protocol with an unprintable name is refused after the director has run, an error is answered by the
  error handler, a response is passed on (its body and headers are not modelled), neither of the
  two is a nil dereference.
\<close>

definition proxy ::
  "serve_env \<Rightarrow> bool \<Rightarrow> (string \<rightharpoonup> upstreamPool) \<Rightarrow> upstreamPool \<Rightarrow> request \<Rightarrow> response \<Rightarrow> served" where
  "proxy env sink pools u req w =
     (case pick (se_pick_clock env) u of
        None \<Rightarrow>
          \<lparr>sv_pools = pools, sv_request = req, sv_response = w, sv_events = [], sv_upstream = None, sv_panic = True\<rparr>
      | Some ((target, index, permitted), u1) \<Rightarrow>
          let directed = direct target req in
          if \<not> printable_ascii (upgradeType (Header directed)) then
            \<lparr>sv_pools = pools(pool_name u \<mapsto> u1), sv_request = req,
             sv_response = http_error ''upstream unavailable'' 502 w, sv_events = [], sv_upstream = None,
             sv_panic = False\<rparr>
          else
          let out = directed\<lparr>Header := outgoing_header (Header req) (RemoteAddr req) (Header directed)\<rparr>
          in case RoundTrip sink (retryAttempts u1) (breakers u1) (Some (int index)) (Some permitted)
                    (Method out) (outgoing_body env req) (se_base env out)
                    (se_guard env) (se_clock env) of
               (result, bs, trip) \<Rightarrow>
                 \<lparr>sv_pools = pools(pool_name u \<mapsto> u1\<lparr>breakers := bs\<rparr>),
                  sv_request = (case trip of None \<Rightarrow> req | Some t \<Rightarrow> (AddRetry ^^ trip_retries t) req),
                  sv_response =
                    (case result of
                       (_, Some e) \<Rightarrow> http_error ''upstream unavailable'' 502 w
                     | (Some status, None) \<Rightarrow> write_header status w
                     | (None, None) \<Rightarrow> w),
                  sv_events = (case trip of None \<Rightarrow> [] | Some t \<Rightarrow> replicate (trip_transitions t) CircuitTransition),
                  sv_upstream = (case trip of None \<Rightarrow> None | Some t \<Rightarrow> Some out),
                  sv_panic = (result = (None, None))\<rparr>)"

section \<open>The handler\<close>

definition rejected :: "(string \<rightharpoonup> upstreamPool) \<Rightarrow> request \<Rightarrow> response \<Rightarrow> served" where
  "rejected pools req w =
     \<lparr>sv_pools = pools, sv_request = AddRejection req, sv_response = w, sv_events = [], sv_upstream = None,
      sv_panic = False\<rparr>"

text \<open>Whether the route's authentication lets the request on: refused (\<open>Inl\<close>) or let through (\<open>Inr\<close>).\<close>

definition check_auth ::
  "serve_env \<Rightarrow> runtimeState \<Rightarrow> compiledRoute \<Rightarrow> request \<Rightarrow> response \<Rightarrow>
   (request \<times> response) + (request \<times> response)" where
  "check_auth env rt route req w =
     (if \<not> cr_requireAuth route then Inr (req, w)
      else
        (case rt_authorizer rt of
           None \<Rightarrow> Inl (req, http_error ''authentication is not configured'' 503 w)
         | Some authorize \<Rightarrow>
             (case authorize (se_auth_clock env) (cr_scopes route) req w of
                (True, req', w') \<Rightarrow> Inr (req', w')
              | (False, req', w') \<Rightarrow> Inl (req', w'))))"

definition serve_route ::
  "serve_env \<Rightarrow> bool \<Rightarrow> runtimeState \<Rightarrow> compiledRoute \<Rightarrow> upstreamPool \<Rightarrow> request \<Rightarrow> response \<Rightarrow> served" where
  "serve_route env sink rt route u req w =
     (case check_auth env rt route (SetRoute (cr_name route) (pool_name u) req) w of
        Inl (req1, w1) \<Rightarrow> rejected (rt_pools rt) req1 w1
      | Inr (req1, w1) \<Rightarrow>
          if \<not> hasHealthyEndpoint u
          then rejected (rt_pools rt) req1 (http_error ''upstream unavailable'' 503 w1)
          else proxy env sink (rt_pools rt) u
                 (req1\<lparr>Header := applyRouteHeaders (se_order env) (cr_headers route) (Header req1)\<rparr>) w1)"

text \<open>A request that holds a slot. A route whose pool is missing would be a nil pointer.\<close>

definition serve :: "serve_env \<Rightarrow> bool \<Rightarrow> runtimeState \<Rightarrow> request \<Rightarrow> response \<Rightarrow> served" where
  "serve env sink rt req w =
     (let req1 = req\<lparr>Header := stripTrustedHeaders (Header req)\<rparr> in
      case match (rt_routes rt) req1 of
        (None, methodAllowed) \<Rightarrow>
          rejected (rt_pools rt) req1
            (if methodAllowed
             then http_error ''method not allowed'' 405
                    (set_header ''Allow'' ''GET, HEAD, POST, PUT, DELETE, PATCH, OPTIONS'' w)
             else not_found w)
      | (Some route, methodAllowed) \<Rightarrow>
          (case rt_pools rt (cr_upstream route) of
             None \<Rightarrow> \<lparr>sv_pools = rt_pools rt, sv_request = req1, sv_response = w, sv_events = [],
               sv_upstream = None, sv_panic = True\<rparr>
           | Some u \<Rightarrow> serve_route env sink rt route u req1 w))"

text \<open>
  Admission to the current runtime: refused with the request and response, or admitted with the
  generation whose slot was taken.
\<close>

definition enter :: "Server \<Rightarrow> request \<Rightarrow> response \<Rightarrow> (request \<times> response) + (nat \<times> Server)" where
  "enter s req w =
     (case (srv_current s, current s) of
        (Some g, Some rt) \<Rightarrow>
          if int (rt_slots rt) < rt_capacity rt
          then Inr (g, update_runtime g (\<lambda>rt. rt\<lparr>rt_slots := rt_slots rt + 1\<rparr>) s)
          else Inl (AddRejection req, http_error ''server is busy'' 503 w)
      | _ \<Rightarrow> Inl (AddRejection req, http_error ''data plane is unavailable'' 503 w))"

text \<open>Serving in a generation, and giving the slot back to it (also after a panic).\<close>

definition serve_in :: "serve_env \<Rightarrow> nat \<Rightarrow> Server \<Rightarrow> request \<Rightarrow> response \<Rightarrow> served \<times> Server" where
  "serve_in env g s req w =
     (let r = serve env (srv_sink s) (srv_heap s ! g) req w in
      (r, (update_runtime g (\<lambda>rt. rt\<lparr>rt_pools := sv_pools r\<rparr>) s)
            \<lparr>srv_events := srv_events s @ sv_events r\<rparr>))"

definition leave :: "nat \<Rightarrow> Server \<Rightarrow> Server" where
  "leave g s = update_runtime g (\<lambda>rt. rt\<lparr>rt_slots := rt_slots rt - 1\<rparr>) s"

text \<open>The whole handler when nothing else runs meanwhile; \<open>None\<close> is a panic.\<close>

definition dataplane_Handler ::
  "serve_env \<Rightarrow> Server \<Rightarrow> request \<Rightarrow> response \<Rightarrow> Server \<times> request \<times> response option" where
  "dataplane_Handler env s req w =
     (case enter s req w of
        Inl (req1, w1) \<Rightarrow> (s, req1, Some w1)
      | Inr (g, s1) \<Rightarrow>
          (case serve_in env g s1 req w of
             (r, s2) \<Rightarrow> (leave g s2, sv_request r, if sv_panic r then None else Some (sv_response r))))"

section \<open>What compilation computes\<close>

definition absolute_url :: "(string \<Rightarrow> url option) \<Rightarrow> string \<Rightarrow> bool" where
  "absolute_url parse raw = (case parse raw of None \<Rightarrow> False | Some u \<Rightarrow> Scheme u \<noteq> [] \<and> Host u \<noteq> [])"

definition upstream_ok :: "(string \<Rightarrow> url option) \<Rightarrow> UpstreamConfig \<Rightarrow> bool" where
  "upstream_ok parse u \<longleftrightarrow> elems (URLs u) \<noteq> [] \<and> list_all (absolute_url parse) (elems (URLs u))"

definition pool_of :: "(string \<Rightarrow> url option) \<Rightarrow> UpstreamConfig \<Rightarrow> upstreamPool" where
  "pool_of parse u = make_pool u (map (the \<circ> parse) (elems (URLs u)))"

definition pools_of :: "(string \<Rightarrow> url option) \<Rightarrow> UpstreamConfig list \<Rightarrow> string \<rightharpoonup> upstreamPool" where
  "pools_of parse us = map_of (map (\<lambda>u. (up_Name u, pool_of parse u)) us)"

text \<open>The configurations that can be activated.\<close>

definition compilable :: "(string \<Rightarrow> url option) \<Rightarrow> Config \<Rightarrow> bool" where
  "compilable parse cfg \<longleftrightarrow>
     is_ok (Validate parse cfg) \<and>
     distinct (map up_Name (elems (Upstreams cfg))) \<and>
     list_all (upstream_ok parse) (elems (Upstreams cfg)) \<and>
     list_all (\<lambda>r. route_Upstream r \<in> set (map up_Name (elems (Upstreams cfg)))) (elems (Routes cfg))"

definition runtime_of :: "(string \<Rightarrow> url option) \<Rightarrow> authorize option \<Rightarrow> Config \<Rightarrow> runtimeState" where
  "runtime_of parse auth cfg =
     \<lparr>rt_cfg = Clone cfg, rt_routes = map compile_route (elems (Routes cfg)),
      rt_pools = pools_of parse (elems (Upstreams cfg)), rt_slots = 0,
      rt_capacity = MaxInFlight (Limits cfg), rt_maxBody = MaxBodyBytes (Limits cfg),
      rt_authorizer = auth, rt_stopped = False\<rparr>"

lemma add_endpoint_Inr:
  "add_endpoint parse name eps raw = Inr eps' \<longleftrightarrow> absolute_url parse raw \<and> eps' = eps @ [the (parse raw)]"
  by (auto simp: add_endpoint_def absolute_url_def split: option.split)

lemma for_range_Cons_Inr:
  "for_range f s (x # xs) = Inr s' \<longleftrightarrow> (\<exists>s1. f s x = Inr s1 \<and> for_range f s1 xs = Inr s')"
  by (auto split: sum.split)

lemma add_endpoints:
  "for_range (add_endpoint parse name) eps raws = Inr eps' \<longleftrightarrow>
     list_all (absolute_url parse) raws \<and> eps' = eps @ map (the \<circ> parse) raws"
  by (induction raws arbitrary: eps)
    (auto simp: for_range_Cons_Inr add_endpoint_Inr simp del: for_range.simps(2))

lemma add_upstream_Inr:
  "add_upstream parse pools u = Inr pools' \<longleftrightarrow>
     up_Name u \<notin> dom pools \<and> upstream_ok parse u \<and> pools' = pools(up_Name u \<mapsto> pool_of parse u)"
  by (auto simp: add_upstream_def upstream_ok_def pool_of_def and_then_eq_Inr add_endpoints)

lemma dom_pools_of: "dom (pools_of parse us) = set (map up_Name us)"
  by (auto simp: pools_of_def dom_map_of_conv_image_fst image_image)

lemma add_upstreams:
  "for_range (add_upstream parse) pools us = Inr pools' \<longleftrightarrow>
     distinct (map up_Name us) \<and> dom pools \<inter> set (map up_Name us) = {} \<and> list_all (upstream_ok parse) us \<and>
     pools' = pools ++ pools_of parse us"
proof (induction us arbitrary: pools)
  case Nil
  then show ?case by (auto simp: pools_of_def)
next
  case (Cons u us)
  have step: "pools(up_Name u \<mapsto> pool_of parse u) ++ pools_of parse us = pools ++ pools_of parse (u # us)"
    if "up_Name u \<notin> set (map up_Name us)"
  proof -
    have "up_Name u \<notin> dom (pools_of parse us)" unfolding dom_pools_of using that .
    then show ?thesis by (auto simp: pools_of_def map_add_def fun_eq_iff split: option.split)
  qed
  show ?case
  proof (cases "up_Name u \<in> dom pools \<or> \<not> upstream_ok parse u \<or> up_Name u \<in> set (map up_Name us)")
    case True
    then show ?thesis
      by (auto simp: for_range_Cons_Inr add_upstream_Inr Cons.IH simp del: for_range.simps(2))
  next
    case False
    then show ?thesis using step
      by (auto simp: for_range_Cons_Inr add_upstream_Inr Cons.IH simp del: for_range.simps(2))
  qed
qed

lemma add_routes:
  "for_range (add_route pools) rs0 rs = Inr rs' \<longleftrightarrow>
     list_all (\<lambda>r. route_Upstream r \<in> dom pools) rs \<and> rs' = rs0 @ map compile_route rs"
  by (induction rs arbitrary: rs0)
    (auto simp: for_range_Cons_Inr add_route_def simp del: for_range.simps(2))

lemma compile_Inr: "compile parse auth cfg = Inr rt \<longleftrightarrow> compilable parse cfg \<and> rt = runtime_of parse auth cfg"
proof (cases "Validate parse cfg")
  case (Inl e)
  then show ?thesis by (simp add: compile_def compilable_def)
next
  case (Inr x)
  then show ?thesis
    by (auto simp: compile_def compilable_def runtime_of_def and_then_eq_Inr add_upstreams add_routes
        dom_pools_of simp del: set_map list.set_map)
qed

section \<open>Invariants\<close>

text \<open>
  The code never checks that a list of upstream addresses is shorter than 2 to the 64; memory does.
\<close>

definition fits_memory :: "Config \<Rightarrow> bool" where
  "fits_memory cfg \<longleftrightarrow> list_all (\<lambda>u. length (elems (URLs u)) < 2 ^ 64) (elems (Upstreams cfg))"

definition pools_inv :: "(string \<rightharpoonup> upstreamPool) \<Rightarrow> bool" where
  "pools_inv pools \<longleftrightarrow> (\<forall>k u. pools k = Some u \<longrightarrow> pool_name u = k \<and> pool_inv u)"

definition rt_inv :: "runtimeState \<Rightarrow> bool" where
  "rt_inv rt \<longleftrightarrow>
     pools_inv (rt_pools rt) \<and> (\<forall>r \<in> set (rt_routes rt). cr_upstream r \<in> dom (rt_pools rt))"

text \<open>A runtime admits what its configuration allows.\<close>

definition rt_admits :: "runtimeState \<Rightarrow> bool" where
  "rt_admits rt \<longleftrightarrow>
     1 \<le> rt_capacity rt \<and> rt_capacity rt = MaxInFlight (Limits (rt_cfg rt)) \<and> int (rt_slots rt) \<le> rt_capacity rt"

lemma pools_invD: "pools_inv pools \<Longrightarrow> pools k = Some u \<Longrightarrow> pool_name u = k \<and> pool_inv u"
  by (auto simp: pools_inv_def)

lemma pools_inv_update [inv_intros]:
  "pools_inv pools \<Longrightarrow> pool_name u = k \<Longrightarrow> pool_inv u \<Longrightarrow> pools_inv (pools(k \<mapsto> u))"
  by (auto simp: pools_inv_def)

lemma default_pos: "0 < d \<Longrightarrow> 1 \<le> default_if_nonpos d x"
  by (simp add: default_if_nonpos_def)

lemma pool_of_inv:
  assumes "upstream_ok parse u" and "length (elems (URLs u)) < 2 ^ 64"
  shows "pool_name (pool_of parse u) = up_Name u \<and> pool_inv (pool_of parse u)"
proof -
  have "breaker_inv (new_breaker (default_if_nonpos 5 x) (default_if_nonpos (10 * second) y))" for x y
    by (intro breaker_inv_new default_pos) (simp_all add: second_def)
  with assms show ?thesis
    by (simp add: pool_of_def make_pool_def pool_inv_def upstream_ok_def list_all_length)
qed

lemma runtime_of_inv:
  assumes "compilable parse cfg" and "fits_memory cfg"
  shows "rt_inv (runtime_of parse auth cfg)"
proof -
  let ?us = "elems (Upstreams cfg)"
  have ok: "distinct (map up_Name ?us)" "list_all (upstream_ok parse) ?us"
    and refs: "list_all (\<lambda>r. route_Upstream r \<in> set (map up_Name ?us)) (elems (Routes cfg))"
    using assms(1) by (simp_all add: compilable_def)
  have "pools_inv (pools_of parse ?us)"
    unfolding pools_inv_def
  proof (intro allI impI)
    fix k u
    assume "pools_of parse ?us k = Some u"
    then have "(k, u) \<in> set (map (\<lambda>u. (up_Name u, pool_of parse u)) ?us)"
      unfolding pools_of_def by (rule map_of_SomeD)
    then obtain uc where "uc \<in> set ?us" "k = up_Name uc" "u = pool_of parse uc" by auto
    with ok(2) assms(2) pool_of_inv show "pool_name u = k \<and> pool_inv u"
      by (simp add: list_all_iff fits_memory_def)
  qed
  moreover have "cr_upstream r \<in> dom (pools_of parse ?us)" if "r \<in> set (map compile_route (elems (Routes cfg)))" for r
    using that refs unfolding dom_pools_of by (auto simp: compile_route_def list_all_iff)
  ultimately show ?thesis by (simp add: rt_inv_def runtime_of_def)
qed

lemma runtime_of_admits:
  assumes "compilable parse cfg"
  shows "rt_admits (runtime_of parse auth cfg)"
proof -
  from assms have "valid_limits (Limits cfg)" by (simp add: compilable_def Validate_ok valid_config_def)
  then show ?thesis by (simp add: valid_limits_def Let_def rt_admits_def runtime_of_def Clone_def)
qed

lemma rt_inv_frame [simp]:
  "rt_inv (rt\<lparr>rt_slots := n\<rparr>) = rt_inv rt" "rt_inv (rt\<lparr>rt_stopped := b\<rparr>) = rt_inv rt"
  by (simp_all add: rt_inv_def)

lemma rt_admits_frame [simp]:
  "rt_admits (rt\<lparr>rt_pools := ps\<rparr>) = rt_admits rt" "rt_admits (rt\<lparr>rt_stopped := b\<rparr>) = rt_admits rt"
  "rt_admits rt \<Longrightarrow> rt_admits (rt\<lparr>rt_slots := n\<rparr>) = (int n \<le> rt_capacity rt)"
  by (simp_all add: rt_admits_def)

lemma rt_inv_pools: "rt_inv rt \<Longrightarrow> pools_inv ps \<Longrightarrow> dom ps = dom (rt_pools rt) \<Longrightarrow> rt_inv (rt\<lparr>rt_pools := ps\<rparr>)"
  by (simp add: rt_inv_def)

lemma pick_fields: "pick clock u = Some (r, u') \<Longrightarrow> endpoints u \<noteq> [] \<Longrightarrow> pool_name u' = pool_name u \<and> retryAttempts u' = retryAttempts u"
  by (auto simp: pick_eq Let_def split: option.splits)

lemma pick_index:
  assumes "pool_inv u" and "pick clock u = Some ((target, i, p), u')"
  shows "i < length (endpoints u) \<and> target = endpoints u ! i"
proof -
  have n: "endpoints u \<noteq> []" "0 < length (endpoints u)" "length (endpoints u) < 2 ^ 64"
    using assms(1) by (auto simp: pool_inv_def)
  with assms(2) candidate_less [OF n(2,3)] show ?thesis
    by (auto simp: pick_eq Let_def split: option.splits)
qed

lemma proxy_pools:
  assumes inv: "pools_inv pools" "pools k = Some u" and clock: "\<And>i. 0 < se_clock env i"
  shows "pools_inv (sv_pools (proxy env sink pools u req w)) \<and> dom (sv_pools (proxy env sink pools u req w)) = dom pools"
proof (cases "pick (se_pick_clock env) u")
  case None
  with inv show ?thesis by (simp add: proxy_def)
next
  case (Some r)
  obtain target i p u1 where r: "r = ((target, i, p), u1)" by (cases r) auto
  have u: "pool_name u = k" "pool_inv u" using pools_invD [OF inv] by auto
  have ne: "endpoints u \<noteq> []" using u(2) by (simp add: pool_inv_def)
  from pick_inv [OF u(2)] pick_fields [OF _ ne] pick_index [OF u(2)] Some r
  have u1: "pool_inv u1" "pool_name u1 = k" "i < length (breakers u1)"
    using u by (auto simp: pool_inv_def)
  let ?out = "(direct target req)\<lparr>Header := outgoing_header (Header req) (RemoteAddr req) (Header (direct target req))\<rparr>"
  obtain res bs trip where run: "RoundTrip sink (retryAttempts u1) (breakers u1) (Some (int i)) (Some p)
      (Method ?out) (outgoing_body env req) (se_base env ?out)
      (se_guard env) (se_clock env) = (res, bs, trip)"
    by (metis surj_pair)
  have "list_all breaker_inv bs" "length bs = length (breakers u1)"
    using RoundTrip_breakers [OF run u1(3) _ clock] u1(1) by (simp_all add: pool_inv_def)
  with u1(1) have "pool_inv (u1\<lparr>breakers := bs\<rparr>)" by (simp add: pool_inv_def)
  moreover have "sv_pools (proxy env sink pools u req w) \<in> {pools(k \<mapsto> u1\<lparr>breakers := bs\<rparr>), pools(k \<mapsto> u1)}"
    using u run by (simp add: proxy_def Some r Let_def)
  moreover have "pools_inv (pools(k \<mapsto> v)) \<and> dom (pools(k \<mapsto> v)) = dom pools"
    if "pool_inv v" "pool_name v = k" for v
    using that inv by (auto simp: pools_inv_update split: if_splits)
  ultimately obtain v where v: "sv_pools (proxy env sink pools u req w) = pools(k \<mapsto> v)" "pool_inv v" "pool_name v = k"
    and keep: "pools_inv (pools(k \<mapsto> v)) \<and> dom (pools(k \<mapsto> v)) = dom pools"
    using u1(1,2) by fastforce
  show ?thesis unfolding v(1) by (rule keep)
qed

lemma serve_pools:
  assumes inv: "rt_inv rt" and clock: "\<And>i. 0 < se_clock env i"
  shows "pools_inv (sv_pools (serve env sink rt req w)) \<and> dom (sv_pools (serve env sink rt req w)) = dom (rt_pools rt)"
proof -
  have inv': "pools_inv (rt_pools rt)" using inv by (simp add: rt_inv_def)
  have "pools_inv (sv_pools (serve_route env sink rt route u req' w')) \<and>
      dom (sv_pools (serve_route env sink rt route u req' w')) = dom (rt_pools rt)"
    if "rt_pools rt k = Some u" for route u req' w' k
    using proxy_pools [OF inv' that clock] inv'
    by (auto simp: serve_route_def rejected_def split: sum.split)
  with inv' show ?thesis
    by (auto simp: serve_def Let_def rejected_def split: prod.split option.split)
qed

section \<open>Generations of runtimes\<close>

text \<open>
  The data plane over time: requests enter and leave, are served in the generation they entered,
  health rounds report to their generation's pools, and reloads replace the current generation.
  The ghost field lists the generation of each request in flight. A health round may still be
  under way when its runtime is stopped.
\<close>

record dataplane =
  dp_server :: Server
  dp_inflight :: "nat list"

inductive dp_step :: "(string \<Rightarrow> url option) \<Rightarrow> dataplane \<Rightarrow> dataplane \<Rightarrow> bool" for parse where
  Enter: "enter (dp_server d) req w = Inr (g, s') \<Longrightarrow>
    dp_step parse d (d\<lparr>dp_server := s', dp_inflight := g # dp_inflight d\<rparr>)"
| Serve: "g \<in> set (dp_inflight d) \<Longrightarrow> (\<And>i. 0 < se_clock env i) \<Longrightarrow>
    serve_in env g (dp_server d) req w = (r, s') \<Longrightarrow> dp_step parse d (d\<lparr>dp_server := s'\<rparr>)"
| Leave: "dp_inflight d = xs @ g # ys \<Longrightarrow>
    dp_step parse d (d\<lparr>dp_server := leave g (dp_server d), dp_inflight := xs @ ys\<rparr>)"
| Probe: "g < length (srv_heap (dp_server d)) \<Longrightarrow> rt_pools (srv_heap (dp_server d) ! g) k = Some u \<Longrightarrow>
    healthPath u \<noteq> [] \<Longrightarrow> length prs = length (endpoints u) \<Longrightarrow>
    checkHealth (srv_sink (dp_server d)) prs u = (u', ev) \<Longrightarrow>
    dp_step parse d (d\<lparr>dp_server :=
      (update_runtime g (\<lambda>rt. rt\<lparr>rt_pools := (rt_pools rt)(k \<mapsto> u')\<rparr>) (dp_server d))
        \<lparr>srv_events := srv_events (dp_server d) @ ev\<rparr>\<rparr>)"
| Reload: "fits_memory cfg \<Longrightarrow> Reconfigure parse cfg (dp_server d) = Inr s' \<Longrightarrow>
    dp_step parse d (d\<lparr>dp_server := s'\<rparr>)"
| Shut: "dp_step parse d (d\<lparr>dp_server := Close (dp_server d)\<rparr>)"

inductive dp_reachable :: "(string \<Rightarrow> url option) \<Rightarrow> dataplane \<Rightarrow> bool" for parse where
  Start: "fits_memory cfg \<Longrightarrow> NewServerWithEvents parse cfg auth sink = Inr s \<Longrightarrow>
    dp_reachable parse \<lparr>dp_server = s, dp_inflight = []\<rparr>"
| Next: "dp_reachable parse d \<Longrightarrow> dp_step parse d d' \<Longrightarrow> dp_reachable parse d'"

inductive_cases dp_stepE: "dp_step parse d d'"

text \<open>
  Each runtime has a slot taken for exactly the requests in flight in it, and every runtime but the
  current one is stopped. This part of the invariant holds whatever the requests and configurations are.
\<close>

definition admitted :: "nat list \<Rightarrow> Server \<Rightarrow> bool" where
  "admitted inflight s \<longleftrightarrow>
     (\<forall>g < length (srv_heap s). rt_admits (srv_heap s ! g) \<and> rt_slots (srv_heap s ! g) = count_list inflight g \<and>
        (rt_stopped (srv_heap s ! g) \<or> srv_current s = Some g)) \<and>
     (\<forall>g \<in> set inflight. g < length (srv_heap s)) \<and> (\<exists>g < length (srv_heap s). srv_current s = Some g)"

definition dp_inv :: "dataplane \<Rightarrow> bool" where
  "dp_inv d \<longleftrightarrow> admitted (dp_inflight d) (dp_server d) \<and> list_all rt_inv (srv_heap (dp_server d))"

lemma update_runtime_fields [simp]:
  "srv_current (update_runtime g f s) = srv_current s" "srv_sink (update_runtime g f s) = srv_sink s"
  "length (srv_heap (update_runtime g f s)) = length (srv_heap s)"
  by (simp_all add: update_runtime_def)

lemma update_runtime_nth:
  "i < length (srv_heap s) \<Longrightarrow>
     srv_heap (update_runtime g f s) ! i = (if i = g then f (srv_heap s ! i) else srv_heap s ! i)"
  by (auto simp: update_runtime_def nth_list_update_if)

lemma admitted_events [simp]: "admitted fl (s\<lparr>srv_events := ev\<rparr>) = admitted fl s"
  by (simp add: admitted_def)

lemma admitted_update:
  assumes "admitted fl s"
    and "\<And>rt. rt_admits rt \<Longrightarrow> rt_admits (f rt) \<and> rt_slots (f rt) = rt_slots rt \<and> (rt_stopped rt \<longrightarrow> rt_stopped (f rt))"
  shows "admitted fl (update_runtime g f s)"
  using assms unfolding admitted_def by (auto simp: update_runtime_nth)

lemma admitted_enter:
  assumes inv: "admitted fl s" and "enter s req w = Inr (g, s')"
  shows "admitted (g # fl) s'"
proof -
  from assms(2) have "srv_current s = Some g" "g < length (srv_heap s)"
      "int (rt_slots (srv_heap s ! g)) < rt_capacity (srv_heap s ! g)"
    and s': "s' = update_runtime g (\<lambda>rt. rt\<lparr>rt_slots := rt_slots rt + 1\<rparr>) s"
    by (auto simp: enter_def current_def split: option.splits if_splits)
  with inv show ?thesis unfolding admitted_def s' by (auto simp: update_runtime_nth)
qed

lemma admitted_serve:
  assumes "admitted fl s" and "serve_in env g s req w = (r, s')"
  shows "admitted fl s'"
proof -
  have "s' = (update_runtime g (\<lambda>rt. rt\<lparr>rt_pools := sv_pools r\<rparr>) s)\<lparr>srv_events := srv_events s @ sv_events r\<rparr>"
    using assms(2) by (auto simp: serve_in_def Let_def)
  with assms(1) show ?thesis by (simp add: admitted_update)
qed

lemma admitted_leave:
  assumes inv: "admitted (xs @ g # ys) s"
  shows "admitted (xs @ ys) (leave g s)"
proof -
  have "g < length (srv_heap s)" "rt_admits (srv_heap s ! g)" using inv by (auto simp: admitted_def)
  then have "rt_admits ((srv_heap s ! g)\<lparr>rt_slots := rt_slots (srv_heap s ! g) - 1\<rparr>)"
    by (auto simp: rt_admits_def)
  with inv show ?thesis
    unfolding admitted_def leave_def by (auto simp: update_runtime_nth count_list_append)
qed

lemma admitted_stop:
  assumes "admitted fl s"
  shows "admitted fl (stop cur s)"
  using assms by (auto simp: stop_def intro: admitted_update split: option.split)

lemma admitted_reload:
  assumes inv: "admitted fl s" and "Reconfigure parse cfg s = Inr s'"
  shows "admitted fl s'"
proof -
  from inv obtain g where g: "srv_current s = Some g" "g < length (srv_heap s)"
    by (auto simp: admitted_def)
  with assms(2) obtain auth where c: "compilable parse cfg"
    and s': "s' = stop (Some g) (s\<lparr>srv_heap := srv_heap s @ [runtime_of parse auth cfg], srv_current := Some (length (srv_heap s))\<rparr>)"
    by (auto simp: Reconfigure_def current_def ReconfigureWithAuthorizer_def compile_Inr and_then_eq_Inr
        split: if_splits)
  have "count_list fl (length (srv_heap s)) = 0"
    using inv by (auto simp: admitted_def count_list_0_iff)
  with inv g runtime_of_admits [OF c, of auth] show ?thesis
    unfolding admitted_def s' stop_def
    by (auto simp: update_runtime_nth nth_append runtime_of_def less_Suc_eq)
qed

lemma admitted_handler:
  assumes "admitted fl s" and "dataplane_Handler env s req w = (s', req', res)"
  shows "admitted fl s'"
proof (cases "enter s req w")
  case (Inl r)
  with assms show ?thesis by (cases r) (simp add: dataplane_Handler_def)
next
  case (Inr r)
  obtain g s1 where r: "r = (g, s1)" by (cases r)
  obtain x s2 where x: "serve_in env g s1 req w = (x, s2)" by (metis surj_pair)
  have "admitted (g # fl) s2"
    by (rule admitted_serve [OF admitted_enter [OF assms(1) Inr [unfolded r]] x])
  with admitted_leave [of "[]" g fl s2] assms(2) show ?thesis
    by (simp add: dataplane_Handler_def Inr r x)
qed

lemma admitted_step:
  assumes "dp_step parse d d'" and "admitted (dp_inflight d) (dp_server d)"
  shows "admitted (dp_inflight d') (dp_server d')"
  using assms
  by (induction rule: dp_step.induct)
    (auto simp: Close_def intro: admitted_enter admitted_serve admitted_leave admitted_update admitted_reload admitted_stop
      split: option.split)

lemma checkHealth_name: "checkHealth sink prs u = (u', ev) \<Longrightarrow> pool_name u' = pool_name u"
proof -
  have "check_from sink i prs u = (u', ev) \<Longrightarrow> pool_name u' = pool_name u" for i
    by (induction prs arbitrary: i u u' ev) (auto simp: check_endpoint_eq split: prod.splits)
  then show "checkHealth sink prs u = (u', ev) \<Longrightarrow> pool_name u' = pool_name u"
    by (simp add: checkHealth_def)
qed

lemma heap_update:
  assumes "list_all rt_inv (srv_heap s)" and "g < length (srv_heap s) \<Longrightarrow> rt_inv (srv_heap s ! g) \<Longrightarrow> rt_inv (f (srv_heap s ! g))"
  shows "list_all rt_inv (srv_heap (update_runtime g f s))"
  using assms by (auto simp: list_all_length update_runtime_nth)

lemma heap_stop: "list_all rt_inv (srv_heap s) \<Longrightarrow> list_all rt_inv (srv_heap (stop cur s))"
  unfolding stop_def by (auto intro!: heap_update split: option.split)

lemma heap_step:
  assumes "dp_step parse d d'" and "list_all rt_inv (srv_heap (dp_server d))"
  shows "list_all rt_inv (srv_heap (dp_server d'))"
  using assms
proof (induction rule: dp_step.induct)
  case (Enter d req w g s')
  then show ?case by (auto simp: enter_def intro!: heap_update split: option.splits if_splits)
next
  case (Serve g d env req w r s')
  then have s': "s' = (update_runtime g (\<lambda>rt. rt\<lparr>rt_pools := sv_pools r\<rparr>) (dp_server d))
      \<lparr>srv_events := srv_events (dp_server d) @ sv_events r\<rparr>"
    and r: "r = serve env (srv_sink (dp_server d)) (srv_heap (dp_server d) ! g) req w"
    by (auto simp: serve_in_def Let_def)
  from Serve.prems serve_pools [OF _ Serve.hyps(2)] show ?case
    by (simp add: s' r heap_update rt_inv_pools)
next
  case (Leave d xs g ys)
  then show ?case by (auto simp: leave_def intro!: heap_update)
next
  case (Probe g d k u prs u' ev)
  then have u: "pools_inv (rt_pools (srv_heap (dp_server d) ! g))" "pool_name u = k" "pool_inv u"
    using pools_invD by (auto simp: rt_inv_def list_all_length)
  with checkHealth_spec [OF u(3) Probe.hyps(4,5)] checkHealth_name [OF Probe.hyps(5)]
  have "pools_inv ((rt_pools (srv_heap (dp_server d) ! g))(k \<mapsto> u'))" by (intro pools_inv_update) auto
  moreover have "dom ((rt_pools (srv_heap (dp_server d) ! g))(k \<mapsto> u')) = dom (rt_pools (srv_heap (dp_server d) ! g))"
    using Probe.hyps(2) by auto
  ultimately show ?case using Probe.prems by (simp add: heap_update rt_inv_pools)
next
  case (Reload cfg d s')
  then obtain auth where "compilable parse cfg" "s' = stop (srv_current (dp_server d))
      ((dp_server d)\<lparr>srv_heap := srv_heap (dp_server d) @ [runtime_of parse auth cfg],
        srv_current := Some (length (srv_heap (dp_server d)))\<rparr>)"
    by (auto simp: Reconfigure_def ReconfigureWithAuthorizer_def compile_Inr and_then_eq_Inr split: option.splits if_splits)
  with Reload show ?case by (simp add: heap_stop runtime_of_inv)
next
  case (Shut d)
  then show ?case by (simp add: Close_def heap_stop split: option.split)
qed

lemma dp_reachable_inv: "dp_reachable parse d \<Longrightarrow> dp_inv d"
proof (induction rule: dp_reachable.induct)
  case (Start cfg auth sink s)
  then have c: "compilable parse cfg" and
    s: "s = \<lparr>srv_heap = [runtime_of parse auth cfg], srv_current = Some 0, srv_sink = sink, srv_events = []\<rparr>"
    by (auto simp: NewServerWithEvents_def ReconfigureWithAuthorizer_def compile_Inr and_then_eq_Inr stop_def)
  with Start.hyps(1) runtime_of_admits [OF c, of auth] show ?case
    by (simp add: dp_inv_def admitted_def runtime_of_inv) (simp add: runtime_of_def)
next
  case (Next d d')
  then show ?case by (auto simp: dp_inv_def intro: admitted_step heap_step)
qed

section \<open>Facts about one request\<close>

lemma direct_frame [simp]: "Header (direct target req) = Header req" "Method (direct target req) = Method req"
  by (simp_all add: direct_def Let_def)

lemma status_add_retry [simp]: "status_of w = None \<Longrightarrow> status_of (http_error m 502 w) = Some 502"
  by simp

lemma proxy_answers:
  assumes "\<not> sv_panic (proxy env sink pools u req w)" and "status_of w = None"
  shows "status_of (sv_response (proxy env sink pools u req w)) \<noteq> None"
  using assms by (auto simp: proxy_def Let_def split: option.splits prod.splits)

lemma proxy_upstream:
  assumes "sv_upstream (proxy env sink pools u req w) = Some out" and "k \<in> set trusted_headers"
  shows "Header out k = Header req k \<or> Header out k = None"
proof -
  have "k \<notin> {''Te'', ''Connection'', ''Upgrade'', ''X-Forwarded-For'', ''User-Agent''}"
    using assms(2) by (auto simp: trusted_headers_def)
  from outgoing_header_at [OF this, of "Header req" "RemoteAddr req" "Header req"] assms(1) show ?thesis
    by (auto simp: proxy_def Let_def split: option.splits prod.splits if_splits)
qed

lemma check_auth_open: "\<not> cr_requireAuth route \<Longrightarrow> check_auth env rt route req w = Inr (req, w)"
  by (simp add: check_auth_def)

section \<open>Properties\<close>

lemma Reconfigure_Inr:
  "Reconfigure parse cfg s = Inr s' \<longleftrightarrow>
     (case current s of None \<Rightarrow> True | Some rt \<Rightarrow> same_restart_sections (rt_cfg rt) cfg) \<and>
     compilable parse cfg \<and>
     s' = stop (srv_current s)
       (s\<lparr>srv_heap := srv_heap s @ [runtime_of parse (currentAuthorizer (current s)) cfg],
          srv_current := Some (length (srv_heap s))\<rparr>)"
  by (auto simp: Reconfigure_def ReconfigureWithAuthorizer_def compile_Inr and_then_eq_Inr split: option.split)

text \<open>
  Claim C16: a reload succeeds exactly when no restart section changed, the configuration is valid,
  upstream names are distinct, every upstream has only absolute URLs and at least one, and every
  route names an upstream. It then adds the compiled runtime, with the authorizer of the runtime
  it replaces, makes it current and stops the one before; otherwise nothing changes.
\<close>

theorem Reconfigure_iff:
  "Reconfigure parse cfg s = Inr s' \<longleftrightarrow>
     (case current s of None \<Rightarrow> True | Some rt \<Rightarrow> same_restart_sections (rt_cfg rt) cfg) \<and>
     compilable parse cfg \<and>
     s' = stop (srv_current s)
       (s\<lparr>srv_heap := srv_heap s @ [runtime_of parse (currentAuthorizer (current s)) cfg],
          srv_current := Some (length (srv_heap s))\<rparr>)"
  by (rule Reconfigure_Inr)

definition sample_parse :: "string \<Rightarrow> url option" where
  "sample_parse raw =
     (if has_prefix raw ''http://'' then
        Some \<lparr>Scheme = ''http'', Host = drop 7 raw, Path = [], RawPath = [], RawQuery = []\<rparr>
      else None)"

definition sample_config :: Config where
  "sample_config = Default\<lparr>
     Limits := (Limits Default)\<lparr>MaxInFlight := 1\<rparr>,
     Routes := Some [\<lparr>route_Name = ''api'', route_Host = [], PathPrefix = ''/api'', Methods = Some [''get''],
       route_Upstream = ''api'', RequireAuth = False, route_Scopes = None, route_Headers = None\<rparr>],
     Upstreams := Some [\<lparr>up_Name = ''api'', URLs = Some [''http://10.0.0.1''], HealthPath = ''/health'',
       DialTimeout = 0, RequestTimeout = 0, HealthInterval = 0, RetryAttempts = 1,
       CircuitBreakerThreshold = 0, CircuitBreakerCooldown = 0\<rparr>]\<rparr>"

lemma sample_compilable: "compilable sample_parse sample_config" and sample_fits: "fits_memory sample_config"
proof -
  have "is_ok (Validate sample_parse sample_config)" by code_simp
  then show "compilable sample_parse sample_config"
    by (simp add: compilable_def sample_config_def upstream_ok_def absolute_url_def sample_parse_def)
  show "fits_memory sample_config" by (simp add: fits_memory_def sample_config_def)
qed

definition sample_server :: Server where
  "sample_server = \<lparr>srv_heap = [runtime_of sample_parse None sample_config], srv_current = Some 0,
     srv_sink = True, srv_events = []\<rparr>"

lemma sample_server_new: "NewServerWithEvents sample_parse sample_config None True = Inr sample_server"
proof -
  have "compile sample_parse None sample_config = Inr (runtime_of sample_parse None sample_config)"
    by (simp add: compile_Inr sample_compilable)
  then show ?thesis
    by (simp add: NewServerWithEvents_def ReconfigureWithAuthorizer_def stop_def sample_server_def)
qed

definition sample_busy :: Server where
  "sample_busy = update_runtime 0 (\<lambda>rt. rt\<lparr>rt_slots := rt_slots rt + 1\<rparr>) sample_server"

text \<open>
  Whatever the interleaving of requests, health rounds, reloads and shutdown, each runtime
  has a slot taken for exactly the requests in flight in it, never more than its configuration's
  \<^verbatim>\<open>max_in_flight\<close>, and every runtime but the current one is stopped.
\<close>

lemma in_flight_bounded:
  assumes "dp_reachable parse d" and "g < length (srv_heap (dp_server d))"
  shows "rt_slots (srv_heap (dp_server d) ! g) = count_list (dp_inflight d) g \<and>
    int (count_list (dp_inflight d) g) \<le> MaxInFlight (Limits (rt_cfg (srv_heap (dp_server d) ! g))) \<and>
    (rt_stopped (srv_heap (dp_server d) ! g) \<or> srv_current (dp_server d) = Some g)"
  using dp_reachable_inv [OF assms(1)] assms(2) by (auto simp: dp_inv_def admitted_def rt_admits_def)

text \<open>
  Claim C23: whatever the interleaving of requests, health rounds, reloads and shutdown, the data of every
  runtime, current or not, fits together: each route's upstream is there under its name, with as many
  health flags and breakers as endpoints and at least one of them; and a selection returns an endpoint of
  the pool with its index, so no index is out of range and nothing is divided by zero.
\<close>

theorem runtimes_well_formed:
  assumes "dp_reachable parse d" and "rt \<in> set (srv_heap (dp_server d))" and "route \<in> set (rt_routes rt)"
  shows "\<exists>u target i permitted u'. rt_pools rt (cr_upstream route) = Some u \<and> pool_name u = cr_upstream route \<and>
    length (healthy u) = length (endpoints u) \<and> length (breakers u) = length (endpoints u) \<and>
    pick clock u = Some ((target, i, permitted), u') \<and> i < length (endpoints u) \<and> target = endpoints u ! i"
proof -
  have "rt_inv rt" using dp_reachable_inv [OF assms(1)] assms(2) by (auto simp: dp_inv_def list_all_iff)
  with assms(3) obtain u where u: "rt_pools rt (cr_upstream route) = Some u" "pool_name u = cr_upstream route" "pool_inv u"
    by (fastforce simp: rt_inv_def dest: pools_invD)
  then have "endpoints u \<noteq> []" by (simp add: pool_inv_def)
  from pick_eq [OF this, of clock] obtain r where "pick clock u = Some r" by simp
  then obtain target i p u' where pick: "pick clock u = Some ((target, i, p), u')" by (cases r) auto
  have "length (healthy u) = length (endpoints u)" "length (breakers u) = length (endpoints u)"
    using u(3) by (simp_all add: pool_inv_def)
  with pick_index [OF u(3) pick] u(1,2) pick show ?thesis by blast
qed

lemma sample_server_reachable: "dp_reachable sample_parse \<lparr>dp_server = sample_server, dp_inflight = []\<rparr>"
  using sample_fits sample_server_new by (rule Start)

theorem runtimes_well_formed_witness:
  "\<exists>route u i p u'. route \<in> set (rt_routes (srv_heap sample_server ! 0)) \<and>
     rt_pools (srv_heap sample_server ! 0) (cr_upstream route) = Some u \<and>
     pick (\<lambda>_. 5) u = Some ((endpoints u ! i, i, p), u') \<and> i < length (endpoints u)"
proof -
  let ?rt = "srv_heap sample_server ! 0"
  obtain route where route: "route \<in> set (rt_routes ?rt)"
    by (simp add: sample_server_def runtime_of_def sample_config_def)
  have "?rt \<in> set (srv_heap (dp_server \<lparr>dp_server = sample_server, dp_inflight = []\<rparr>))" by (simp add: sample_server_def)
  from runtimes_well_formed [OF sample_server_reachable this route, of "\<lambda>_. 5"] route show ?thesis by blast
qed

text \<open>The bound is per runtime: a reload admits requests at once, however many the old one holds.\<close>

lemma reload_opens_new_slots:
  assumes "Reconfigure parse cfg s = Inr s'"
    and "case srv_current s of None \<Rightarrow> True | Some g \<Rightarrow> g < length (srv_heap s)"
  shows "\<exists>s''. enter s' req w = Inr (length (srv_heap s), s'')"
proof -
  from assms(1) obtain auth where c: "compilable parse cfg"
    and s': "s' = stop (srv_current s) (s\<lparr>srv_heap := srv_heap s @ [runtime_of parse auth cfg],
      srv_current := Some (length (srv_heap s))\<rparr>)"
    by (auto simp: Reconfigure_def ReconfigureWithAuthorizer_def compile_Inr and_then_eq_Inr
        split: option.splits if_splits)
  have "srv_heap s' ! length (srv_heap s) = runtime_of parse auth cfg" "length (srv_heap s') = Suc (length (srv_heap s))"
    "srv_current s' = Some (length (srv_heap s))"
    using assms(2) unfolding s' stop_def by (auto simp: update_runtime_def nth_list_update_if split: option.split)
  moreover have "1 \<le> rt_capacity (runtime_of parse auth cfg)" "rt_slots (runtime_of parse auth cfg) = 0"
    using runtime_of_admits [OF c, of auth] by (simp_all add: rt_admits_def) (simp add: runtime_of_def)
  ultimately show ?thesis by (simp add: enter_def current_def)
qed

text \<open>
  A request that no route serves is answered 405 when some route has its host and path with
  other methods, and 404 otherwise; it never reaches an upstream and changes no pool.
\<close>

lemma unrouted_requests:
  assumes "route_spec (rt_routes rt) (req\<lparr>Header := stripTrustedHeaders (Header req)\<rparr>) = None"
    and "status_of w = None"
  shows "status_of (sv_response (serve env sink rt req w)) =
      Some (if \<exists>r \<in> set (rt_routes rt). reaches (normalizeHost (req_Host req)) (Path (req_URL req)) r \<and>
        \<not> accepts (Method req) r then 405 else 404) \<and>
    sv_upstream (serve env sink rt req w) = None \<and> \<not> sv_panic (serve env sink rt req w) \<and>
    sv_pools (serve env sink rt req w) = rt_pools rt"
  using assms by (simp add: serve_def Let_def match_spec rejected_def)

definition sample_env :: serve_env where
  "sample_env = \<lparr>se_auth_clock = (\<lambda>_. 5), se_order = [], se_pick_clock = (\<lambda>_. 5), se_guard = 5,
     se_clock = (\<lambda>_. 5), se_body = NoBody,
     se_base = (\<lambda>_ _. \<lparr>attempt_response = Some 200, attempt_failed = False\<rparr>)\<rparr>"

section \<open>A probe that is never reported\<close>

text \<open>
  Claim C30: as the code is, one request that asks to switch to a protocol with an unprintable name
  shuts an endpoint whose circuit is open, for every request to come: it is picked as the single probe
  of the half-open circuit, the proxy answers 502 without a round trip, so neither success nor failure
  is ever reported, and the breaker refuses at all times (only a health check can close it).
\<close>

theorem unprintable_upgrade_wedges_probe:
  assumes "pool_inv u" and "pick (se_pick_clock env) u = Some ((target, c, True), u1)"
    and "isOpen (breakers u ! c)" and "\<not> printable_ascii (upgradeType (Header req))" and "status_of w = None"
  shows "\<exists>v. sv_pools (proxy env sink pools u req w) = pools(pool_name u \<mapsto> v) \<and>
    (\<forall>t. \<not> fst (allow t (breakers v ! c))) \<and>
    sv_upstream (proxy env sink pools u req w) = None \<and>
    status_of (sv_response (proxy env sink pools u req w)) = Some 502"
proof -
  from pick_permitted [OF assms(1,2)] obtain i where c: "c < length (endpoints u)"
    and adm: "fst (allow (se_pick_clock env i) (breakers u ! c))"
    and bs: "breakers u1 = (breakers u)[c := snd (allow (se_pick_clock env i) (breakers u ! c))]" by blast
  have len: "length (breakers u) = length (endpoints u)" using assms(1) by (simp add: pool_inv_def)
  have "\<not> fst (allow t (snd (allow (se_pick_clock env i) (breakers u ! c))))" for t
    using adm assms(3) by (auto simp: allow_def isOpen_def split: if_splits)
  with bs c len have "\<forall>t. \<not> fst (allow t (breakers u1 ! c))" by simp
  with assms(2,4,5) show ?thesis by (auto simp: proxy_def Let_def)
qed

definition sample_probing :: upstreamPool where
  "sample_probing = (sample_pool [True] 0)\<lparr>breakers :=
     [\<lparr>threshold = 5, cooldown = 10, failures = 5, openUntil = 3, halfOpen = False\<rparr>]\<rparr>"

definition sample_upgrade :: request where
  "sample_upgrade = sample_request\<lparr>Header :=
     [''Connection'' \<mapsto> [''Upgrade''], ''Upgrade'' \<mapsto> [[CHR 0xFF]]]\<rparr>"

theorem unprintable_upgrade_wedges_probe_witness:
  "\<exists>v. sv_pools (proxy sample_env True Map.empty sample_probing sample_upgrade new_response) =
       Map.empty(pool_name sample_probing \<mapsto> v) \<and> \<not> fst (allow 1000000 (breakers v ! 0))"
proof -
  have inv: "pool_inv sample_probing"
    by (simp add: pool_inv_def sample_probing_def sample_pool_def breaker_inv_def)
  have picks: "map_option (\<lambda>((t, c, p), u). (c, p)) (pick (se_pick_clock sample_env) sample_probing) = Some (0, True)"
    by (simp add: pick_def pick_from.simps sample_probing_def sample_pool_def sample_env_def Let_def allow_def)
  then obtain target u1 where pick: "pick (se_pick_clock sample_env) sample_probing = Some ((target, 0, True), u1)" by auto
  have "isOpen (breakers sample_probing ! 0)" by (simp add: sample_probing_def isOpen_def)
  moreover have "\<not> printable_ascii (upgradeType (Header sample_upgrade))" by code_simp
  ultimately show ?thesis
    using unprintable_upgrade_wedges_probe [OF inv pick, of sample_upgrade new_response True Map.empty] by auto
qed

end
