(* ===== verification/Gateway.thy ===== *)
theory Gateway imports Auth DataPlane begin

text \<open>
  The data plane with the authentication of \<^verbatim>\<open>internal/auth\<close> as its authorizer, as \<^verbatim>\<open>main\<close> puts them
  together: what a client gets and what an upstream sees. The handler's lemmas are proved for any
  authorizer, in the locale, and used at the interpretation \<open>oidc\<close>.
\<close>

section \<open>The handler with any authorizer\<close>

context authorizer begin

abbreviation uses :: "runtimeState \<Rightarrow> bool" where
  "uses rt \<equiv> rt_authorizer rt = None \<or> rt_authorizer rt = Some authorize"

lemma check_auth_refused:
  assumes "check_auth env rt route req w = Inl (req', w')" and "uses rt" and "status_of w = None"
  shows "status_of w' \<in> {Some 302, Some 401, Some 403, Some 503}"
  using assms denied [where clock = "se_auth_clock env" and scopes = "cr_scopes route" and req = req and req' = req' and w = w and w' = w']
  by (auto simp: check_auth_def split: if_splits option.splits prod.splits bool.splits)

lemma check_auth_admitted:
  assumes "check_auth env rt route req w = Inr (req', w')" and "uses rt"
  shows "w' = w \<and> Method req' = Method req \<and> req_URL req' = req_URL req \<and>
    (if cr_requireAuth route then identity (se_auth_clock env) (cr_scopes route) req (Header req')
     else Header req' = Header req)"
  using assms granted [where clock = "se_auth_clock env" and scopes = "cr_scopes route" and req = req and req' = req' and w = w and w' = w']
    same_target [where clock = "se_auth_clock env" and scopes = "cr_scopes route" and req = req and req' = req' and w = w and w' = w' and b = True]
  by (auto simp: check_auth_def split: if_splits option.splits prod.splits bool.splits)

lemma serve_route_answers:
  assumes "\<not> sv_panic (serve_route env sink rt route u req w)" and "uses rt" and "status_of w = None"
  shows "status_of (sv_response (serve_route env sink rt route u req w)) \<noteq> None"
proof (cases "check_auth env rt route (SetRoute (cr_name route) (pool_name u) req) w")
  case (Inl r)
  obtain req1 w1 where r: "r = (req1, w1)" by (cases r)
  from check_auth_refused [OF Inl [unfolded r] assms(2,3)] Inl r show ?thesis
    by (auto simp: serve_route_def rejected_def)
next
  case (Inr r)
  obtain req1 w1 where r: "r = (req1, w1)" by (cases r)
  with check_auth_admitted [OF Inr [unfolded r] assms(2)] assms(3) have w1: "status_of w1 = None" by simp
  with assms(1) Inr r proxy_answers show ?thesis
    by (auto simp: serve_route_def rejected_def)
qed

lemma serve_answers:
  assumes "\<not> sv_panic (serve env sink rt req w)" and "uses rt" and "status_of w = None"
  shows "status_of (sv_response (serve env sink rt req w)) \<noteq> None"
  using assms serve_route_answers
  by (auto simp: serve_def Let_def rejected_def split: prod.splits option.splits)

lemma serve_route_identity:
  assumes "sv_upstream (serve_route env sink rt route u req w) = Some out" and "uses rt"
  shows "\<exists>h. (if cr_requireAuth route
      then identity (se_auth_clock env) (cr_scopes route) (SetRoute (cr_name route) (pool_name u) req) h
      else h = Header req) \<and>
    (\<forall>k \<in> set trusted_headers. Header out k = h k \<or> Header out k = None)"
proof -
  let ?req = "SetRoute (cr_name route) (pool_name u) req"
  from assms(1) obtain req1 w1 where adm: "check_auth env rt route ?req w = Inr (req1, w1)"
    and out: "sv_upstream (proxy env sink (rt_pools rt) u
      (req1\<lparr>Header := applyRouteHeaders (se_order env) (cr_headers route) (Header req1)\<rparr>) w1) = Some out"
    by (auto simp: serve_route_def rejected_def split: sum.splits prod.splits if_splits)
  have "Header out k = Header req1 k \<or> Header out k = None" if "k \<in> set trusted_headers" for k
    using proxy_upstream [OF out that] applyRouteHeaders_protected [OF trusted_protected, OF that] by simp
  with check_auth_admitted [OF adm assms(2)] show ?thesis
    by (intro exI [of _ "Header req1"]) (auto split: if_splits)
qed

lemma serve_identity:
  assumes "sv_upstream (serve env sink rt req w) = Some out" and "uses rt"
  obtains route and u :: upstreamPool and h where "route_spec (rt_routes rt) (req\<lparr>Header := stripTrustedHeaders (Header req)\<rparr>) = Some route"
    and "if cr_requireAuth route
      then identity (se_auth_clock env) (cr_scopes route)
        (SetRoute (cr_name route) (pool_name u) (req\<lparr>Header := stripTrustedHeaders (Header req)\<rparr>)) h
      else h = stripTrustedHeaders (Header req)"
    and "\<forall>k \<in> set trusted_headers. Header out k = h k \<or> Header out k = None"
proof -
  let ?req = "req\<lparr>Header := stripTrustedHeaders (Header req)\<rparr>"
  from assms(1) obtain route and u :: upstreamPool where route: "route_spec (rt_routes rt) ?req = Some route"
    and out: "sv_upstream (serve_route env sink rt route u ?req w) = Some out"
    by (auto simp: serve_def Let_def match_spec rejected_def split: option.splits)
  obtain h where h: "(if cr_requireAuth route
      then identity (se_auth_clock env) (cr_scopes route) (SetRoute (cr_name route) (pool_name u) ?req) h
      else h = Header ?req)" "\<forall>k \<in> set trusted_headers. Header out k = h k \<or> Header out k = None"
    using serve_route_identity [OF out assms(2)] by blast
  show ?thesis
    by (rule that [of route u h]) (use route h in \<open>simp_all split: if_splits\<close>)
qed

end

section \<open>The handler with the program's authorizer\<close>

definition authorized_by :: "auth_lib \<Rightarrow> Middleware \<Rightarrow> runtimeState \<Rightarrow> bool" where
  "authorized_by lib m rt \<longleftrightarrow> rt_authorizer rt = None \<or> rt_authorizer rt = Some (Authorize lib m)"

lemma credentials_header:
  assumes "Header req = Header req'"
  shows "session_credential lib m t req c = session_credential lib m t req' c"
    and "bearer_credential m t req c = bearer_credential m t req' c"
  using assms by (simp_all add: session_credential_def bearer_credential_def)

text \<open>An identity the request proves, with the scopes asked for.\<close>

definition proved :: "auth_lib \<Rightarrow> Middleware \<Rightarrow> (nat \<Rightarrow> time) \<Rightarrow> string list \<Rightarrow> request \<Rightarrow> Claims \<Rightarrow> bool" where
  "proved lib m clock scopes req c \<longleftrightarrow>
     (session_credential lib m (clock 0) req c \<or> bearer_credential m (clock 1) req c) \<and>
     Subject c \<noteq> [] \<and> set scopes \<subseteq> set (Scopes c)"

text \<open>The identity headers are those of the claims, or some of them.\<close>

definition passed_on :: "header \<Rightarrow> string \<Rightarrow> string list option \<Rightarrow> bool" where
  "passed_on h k v \<longleftrightarrow> h k = v \<or> h k = None"

definition carries :: "header \<Rightarrow> Claims \<Rightarrow> bool" where
  "carries h c \<longleftrightarrow>
     passed_on h ''X-Authenticated-Subject'' (Some [Subject c]) \<and>
     passed_on h ''X-Authenticated-Email'' (if Email c = [] then None else Some [Email c]) \<and>
     passed_on h ''X-Authenticated-Scopes'' (Some [join '' '' (Scopes c)])"

definition stripped :: "request \<Rightarrow> request" where
  "stripped req = req\<lparr>Header := stripTrustedHeaders (Header req)\<rparr>"

text \<open>
  An upstream never sees identity headers that a client made up. On a route that requires
  authentication they are those of one identity, unexpired, authenticated by the request's cookie
  or bearer token and holding the route's scopes (each of them may be missing); on any other route
  there are none.
\<close>

lemma upstream_identity:
  assumes "sv_upstream (serve env sink rt req w) = Some out" and "authorized_by lib m rt"
  shows "\<exists>route. route_spec (rt_routes rt) (stripped req) = Some route \<and>
    (if cr_requireAuth route
     then \<exists>c. proved lib m (se_auth_clock env) (cr_scopes route) (stripped req) c \<and> carries (Header out) c
     else list_all (\<lambda>k. Header out k = None) trusted_headers)"
proof -
  obtain route and u :: upstreamPool and h where route: "route_spec (rt_routes rt) (stripped req) = Some route"
    and h: "if cr_requireAuth route
      then identified lib m (se_auth_clock env) (cr_scopes route) (SetRoute (cr_name route) (pool_name u) (stripped req)) h
      else h = stripTrustedHeaders (Header req)"
    and out: "\<forall>k \<in> set trusted_headers. Header out k = h k \<or> Header out k = None"
    using assms(2) unfolding stripped_def
    by (auto simp: authorized_by_def intro: oidc.serve_identity [OF assms(1), of lib m])
  show ?thesis
  proof (cases "cr_requireAuth route")
    case True
    with h obtain c where c: "proved lib m (se_auth_clock env) (cr_scopes route) (stripped req) c"
      "h ''X-Authenticated-Subject'' = Some [Subject c]"
      "h ''X-Authenticated-Email'' = (if Email c = [] then None else Some [Email c])"
      "h ''X-Authenticated-Scopes'' = Some [join '' '' (Scopes c)]"
      unfolding identified_def proved_def
      using credentials_header(1) [of "SetRoute (cr_name route) (pool_name u) (stripped req)" "stripped req" lib m]
        credentials_header(2) [of "SetRoute (cr_name route) (pool_name u) (stripped req)" "stripped req" m] by auto
    with out have "carries (Header out) c" by (simp add: carries_def passed_on_def trusted_headers_def)
    with c(1) route True show ?thesis by auto
  next
    case False
    with h have "h k = None" if "k \<in> set trusted_headers" for k using that by (simp add: stripTrustedHeaders_eq)
    with False out route show ?thesis by (simp add: list_all_iff)
  qed
qed

definition sample_forger :: request where
  "sample_forger = bare_request ''/api'' []
     [''Authorization'' \<mapsto> [''Bearer token''], ''X-Authenticated-Subject'' \<mapsto> [''root'']]"

lemma update_runtime_slots:
  "(\<And>rt. rt_slots (f rt) = rt_slots rt) \<Longrightarrow> map rt_slots (srv_heap (update_runtime g f s)) = map rt_slots (srv_heap s)"
  by (rule nth_equalityI) (auto simp: update_runtime_nth)

text \<open>
  Claim C22: the handler answers every request it does not panic on, whatever the authorizer's verdict
  and the upstream's behaviour, and in any case gives its slot back.
\<close>

theorem handler_answers:
  assumes "dataplane_Handler env s req w = (s', req', res)" and "status_of w = None"
    and "case current s of None \<Rightarrow> True | Some rt \<Rightarrow> authorized_by lib m rt"
  shows "(case res of None \<Rightarrow> True | Some w' \<Rightarrow> status_of w' \<noteq> None) \<and>
    map rt_slots (srv_heap s') = map rt_slots (srv_heap s) \<and> srv_current s' = srv_current s"
proof (cases "enter s req w")
  case (Inl r)
  then obtain req1 w1 where r: "r = (req1, w1)" "status_of w1 = Some 503"
    using assms(2) by (auto simp: enter_def split: option.splits if_splits)
  with Inl assms(1) show ?thesis by (auto simp: dataplane_Handler_def)
next
  case (Inr r)
  then obtain g s1 where r: "r = (g, s1)" and cur: "srv_current s = Some g" "g < length (srv_heap s)"
    and s1: "s1 = update_runtime g (\<lambda>rt. rt\<lparr>rt_slots := rt_slots rt + 1\<rparr>) s"
    by (auto simp: enter_def current_def split: option.splits if_splits)
  let ?run = "serve env (srv_sink s1) (srv_heap s1 ! g) req w"
  let ?s2 = "snd (serve_in env g s1 req w)"
  have s': "s' = leave g ?s2" and res: "res = (if sv_panic ?run then None else Some (sv_response ?run))"
    using assms(1) Inr r by (auto simp: dataplane_Handler_def serve_in_def Let_def)
  have "authorized_by lib m (srv_heap s1 ! g)"
    using assms(3) cur by (simp add: current_def s1 update_runtime_nth authorized_by_def)
  then have "\<not> sv_panic ?run \<Longrightarrow> status_of (sv_response ?run) \<noteq> None"
    using oidc.serve_answers [of env "srv_sink s1" "srv_heap s1 ! g" req w lib m] assms(2)
    by (simp add: authorized_by_def)
  moreover have "map rt_slots (srv_heap s') = map rt_slots (srv_heap s)"
    using cur by (intro nth_equalityI)
      (auto simp: s' leave_def serve_in_def Let_def s1 update_runtime_nth)
  moreover have "srv_current s' = srv_current s"
    by (simp add: s' leave_def serve_in_def Let_def s1)
  ultimately show ?thesis by (simp add: res)
qed

theorem handler_answers_witness:
  "\<exists>s' req' w'. dataplane_Handler sample_env sample_busy sample_request new_response = (s', req', Some w') \<and>
     status_of w' \<noteq> None \<and> map rt_slots (srv_heap s') = map rt_slots (srv_heap sample_busy)"
proof -
  have "\<exists>e. enter sample_busy sample_request new_response = Inl e"
    by (simp add: enter_def current_def sample_busy_def sample_server_def update_runtime_def runtime_of_def
        sample_config_def)
  then obtain s' req' w' where run: "dataplane_Handler sample_env sample_busy sample_request new_response = (s', req', Some w')"
    by (auto simp: dataplane_Handler_def split: prod.splits)
  have "case current sample_busy of None \<Rightarrow> True | Some rt \<Rightarrow> authorized_by sample_lib sample_middleware rt"
    by (simp add: current_def sample_busy_def sample_server_def update_runtime_def runtime_of_def authorized_by_def)
  from handler_answers [OF run _ this] run show ?thesis by simp
qed

end
