(* ===== verification/RuntimeManager.thy ===== *)
theory RuntimeManager imports DataPlane begin

text \<open>
  The package \<^verbatim>\<open>internal/runtime\<close>: the manager that owns the active configuration and the data
  plane, and the interface under which the control plane activates configurations. The manager's
  lock is held for the whole of an activation, which is one step. The manager and its data plane
  report to the same event sink, kept in the data plane's record.
\<close>

section \<open>The manager\<close>

record Manager =
  mgr_config :: Config
  mgr_dataPlane :: Server
  mgr_sink :: bool

definition manager_New ::
  "(string \<Rightarrow> url option) \<Rightarrow> Config \<Rightarrow> authorize option \<Rightarrow> bool \<Rightarrow> dp_error + Manager" where
  "manager_New parse cfg auth sink =
     and_then (NewServerWithEvents parse cfg auth sink)
       (\<lambda>dp. Inr \<lparr>mgr_config = Clone cfg, mgr_dataPlane = dp, mgr_sink = sink\<rparr>)"

definition manager_Config :: "Manager \<Rightarrow> Config" where
  "manager_Config m = Clone (mgr_config m)"

definition record_activation :: "Manager \<Rightarrow> Manager" where
  "record_activation m =
     (if mgr_sink m
      then m\<lparr>mgr_dataPlane := (mgr_dataPlane m)\<lparr>srv_events := srv_events (mgr_dataPlane m) @ [Activation]\<rparr>\<rparr>
      else m)"

definition manager_Activate ::
  "(string \<Rightarrow> url option) \<Rightarrow> Config \<Rightarrow> Manager \<Rightarrow> dp_error option \<times> Manager" where
  "manager_Activate parse cand m =
     (if \<not> same_restart_sections (mgr_config m) cand then (Some RestartRequired, m)
      else
        (case Reconfigure parse cand (mgr_dataPlane m) of
           Inl e \<Rightarrow> (Some e, record_activation m)
         | Inr dp \<Rightarrow>
             (None, (record_activation (m\<lparr>mgr_dataPlane := dp\<rparr>))\<lparr>mgr_config := Clone cand\<rparr>)))"

definition manager_Close :: "Manager \<Rightarrow> Manager" where
  "manager_Close m = m\<lparr>mgr_dataPlane := Close (mgr_dataPlane m)\<rparr>"

section \<open>What activation keeps\<close>

definition manager_inv :: "Manager \<Rightarrow> bool" where
  "manager_inv m \<longleftrightarrow> (\<exists>rt. current (mgr_dataPlane m) = Some rt \<and> rt_cfg rt = mgr_config m)"

text \<open>The configuration that the current runtime was compiled from.\<close>

definition running_config :: "Server \<Rightarrow> Config option" where
  "running_config s = map_option rt_cfg (current s)"

lemma Reconfigure_running:
  assumes "Reconfigure parse cfg s = Inr s'" and "current s \<noteq> None"
  shows "running_config s' = Some (Clone cfg) \<and> compilable parse cfg"
proof -
  from assms(2) obtain g where g: "srv_current s = Some g" "g < length (srv_heap s)"
    by (auto simp: current_def split: option.splits if_splits)
  from assms(1) obtain auth where c: "compilable parse cfg"
    and s': "s' = stop (srv_current s) (s\<lparr>srv_heap := srv_heap s @ [runtime_of parse auth cfg],
      srv_current := Some (length (srv_heap s))\<rparr>)"
    by (auto simp: Reconfigure_def ReconfigureWithAuthorizer_def compile_Inr and_then_eq_Inr
        split: option.splits if_splits)
  show ?thesis
    using g c unfolding s' stop_def running_config_def current_def
    by (simp add: update_runtime_def nth_list_update_if runtime_of_def)
qed

lemma NewServer_running:
  assumes "NewServerWithEvents parse cfg auth sink = Inr s"
  shows "running_config s = Some (Clone cfg)"
  using assms
  by (auto simp: NewServerWithEvents_def ReconfigureWithAuthorizer_def compile_Inr and_then_eq_Inr stop_def
      running_config_def current_def runtime_of_def)

lemma record_activation_frame [simp, frame_rules]:
  "mgr_config (record_activation m) = mgr_config m" "mgr_sink (record_activation m) = mgr_sink m"
  "current (mgr_dataPlane (record_activation m)) = current (mgr_dataPlane m)"
  by (simp_all add: record_activation_def current_def split: option.split)

lemma manager_inv_running: "manager_inv m \<longleftrightarrow> running_config (mgr_dataPlane m) = Some (mgr_config m)"
  by (auto simp: manager_inv_def running_config_def)

lemma manager_New_inv: "manager_New parse cfg auth sink = Inr m \<Longrightarrow> manager_inv m \<and> mgr_config m = Clone cfg"
  by (auto simp: manager_New_def and_then_eq_Inr manager_inv_running NewServer_running)

lemma Activate_accepts:
  assumes "manager_inv m" and "manager_Activate parse c m = (None, m')"
  shows "mgr_config m' = Clone c \<and> manager_inv m' \<and> compilable parse c"
proof -
  from assms(1) have cur: "current (mgr_dataPlane m) \<noteq> None" by (auto simp: manager_inv_def)
  from assms(2) obtain dp where dp: "Reconfigure parse c (mgr_dataPlane m) = Inr dp"
    and m': "m' = (record_activation (m\<lparr>mgr_dataPlane := dp\<rparr>))\<lparr>mgr_config := Clone c\<rparr>"
    by (auto simp: manager_Activate_def split: if_splits sum.splits)
  have "running_config (mgr_dataPlane m') = running_config dp"
    by (simp add: m' running_config_def)
  with Reconfigure_running [OF dp cur] show ?thesis by (simp add: manager_inv_running m')
qed

lemma Activate_rejects:
  assumes "manager_Activate parse c m = (Some e, m')"
  shows "mgr_config m' = mgr_config m \<and> (manager_inv m' \<longleftrightarrow> manager_inv m) \<and>
    current (mgr_dataPlane m') = current (mgr_dataPlane m)"
  using assms by (auto simp: manager_Activate_def manager_inv_running running_config_def split: if_splits sum.splits)

lemma manager_New_admitted:
  assumes "manager_New parse cfg auth sink = Inr m"
  shows "admitted [] (mgr_dataPlane m)"
proof -
  from assms have c: "compilable parse cfg"
    and dp: "mgr_dataPlane m = \<lparr>srv_heap = [runtime_of parse auth cfg], srv_current = Some 0, srv_sink = sink, srv_events = []\<rparr>"
    by (auto simp: manager_New_def NewServerWithEvents_def ReconfigureWithAuthorizer_def compile_Inr and_then_eq_Inr stop_def)
  from runtime_of_admits [OF c, of auth] show ?thesis by (simp add: dp admitted_def) (simp add: runtime_of_def)
qed

lemma Activate_admitted:
  assumes "admitted fl (mgr_dataPlane m)" and "manager_Activate parse c m = (e, m')"
  shows "admitted fl (mgr_dataPlane m')"
  using assms
  by (auto simp: manager_Activate_def record_activation_def intro: admitted_reload split: if_splits sum.splits)

section \<open>The interface of the control plane\<close>

text \<open>
  What the control plane may rely on when it activates a configuration: an accepted one becomes the
  active one, a rejected one leaves the active one in place. \<open>publish\<close> tells the metrics the
  configuration's version.
\<close>

locale activator =
  fixes activate :: "Config \<Rightarrow> 's \<Rightarrow> string option \<times> 's"
    and publish :: "int \<Rightarrow> 's \<Rightarrow> 's"
    and active :: "'s \<Rightarrow> Config"
    and sound :: "'s \<Rightarrow> bool"
  assumes accepted: "sound s \<Longrightarrow> activate c s = (None, s') \<Longrightarrow> active s' = Clone c \<and> sound s'"
    and refused: "sound s \<Longrightarrow> activate c s = (Some e, s') \<Longrightarrow> active s' = active s \<and> sound s'"
    and published: "sound s \<Longrightarrow> active (publish v s) = active s \<and> sound (publish v s)"
begin

lemma activate_sound: "sound s \<Longrightarrow> sound (snd (activate c s))"
  by (cases "activate c s"; cases "fst (activate c s)") (auto dest: accepted refused)

end

section \<open>Error texts\<close>

text \<open>\<open>table\<close> is the Unicode table of \<^verbatim>\<open>strconv.IsPrint\<close>, for the verb \<^verbatim>\<open>%q\<close>.\<close>

fun config_error_text :: "(nat \<Rightarrow> bool) \<Rightarrow> config_error \<Rightarrow> string" where
  "config_error_text table AddrRequired = ''server public_addr and admin_addr are required''"
| "config_error_text table TLSFilesTogether = ''tls_cert_file and tls_key_file must be configured together''"
| "config_error_text table ClusterFieldsRequired = ''cluster requires node_id, bind_addr, advertise_addr, and data_dir''"
| "config_error_text table ClusterTimeoutsPositive = ''cluster forward_timeout and assignment_ttl must be positive''"
| "config_error_text table PeerFieldsRequired = ''cluster peers require id and address''"
| "config_error_text table (DuplicateNodeID i) = ''duplicate cluster node id '' @ go_quote table i"
| "config_error_text table OpenAPIPathNotAbsolute = ''control_plane.openapi_path must be an absolute URL path''"
| "config_error_text table UnknownAuthMode = ''auth.mode must be disabled, oidc, or bearer''"
| "config_error_text table (IssuerRequired m) = m @ '' requires issuer_url and client_id''"
| "config_error_text table OIDCFieldsRequired = ''oidc requires redirect_url, client_secret_file, and session_secret_file''"
| "config_error_text table RedirectNotAbsolute = ''redirect_url must be an absolute URL''"
| "config_error_text table RedirectNotHTTPS = ''oidc redirect_url must use HTTPS unless allow_insecure_redirect is enabled''"
| "config_error_text table (RouteNeedsAuth n) = ''route '' @ go_quote table n @ '' requires authentication but auth.mode is disabled''"
| "config_error_text table LimitsOutOfRange = ''limits must be positive and max_header_bytes must be at least 1024''"

fun dp_error_text :: "(nat \<Rightarrow> bool) \<Rightarrow> dp_error \<Rightarrow> string" where
  "dp_error_text table (InvalidConfig e) = config_error_text table e"
| "dp_error_text table (DuplicateUpstream n) = ''duplicate upstream '' @ go_quote table n"
| "dp_error_text table (NoUpstreamURLs n) = ''upstream '' @ go_quote table n @ '' has no URLs''"
| "dp_error_text table (InvalidUpstreamURL n u) = ''upstream '' @ go_quote table n @ '' has invalid URL '' @ go_quote table u"
| "dp_error_text table (UnknownUpstream r n) = ''route '' @ go_quote table r @ '' references unknown upstream '' @ go_quote table n"
| "dp_error_text table RestartRequired = ''server listeners, authentication, and cluster settings require restart''"

section \<open>The program's activator\<close>

text \<open>The state that the control plane's callbacks act on, as \<^verbatim>\<open>main\<close> wires them: manager and metrics.\<close>

record gateway =
  gw_manager :: Manager
  gw_metrics :: Metrics

definition gw_activate ::
  "(nat \<Rightarrow> bool) \<Rightarrow> (string \<Rightarrow> url option) \<Rightarrow> Config \<Rightarrow> gateway \<Rightarrow> string option \<times> gateway" where
  "gw_activate table parse c gw =
     (case manager_Activate parse c (gw_manager gw) of
        (e, m) \<Rightarrow> (map_option (dp_error_text table) e, gw\<lparr>gw_manager := m\<rparr>))"

definition gw_publish :: "int \<Rightarrow> gateway \<Rightarrow> gateway" where
  "gw_publish v gw = gw\<lparr>gw_metrics := SetConfigVersion v (gw_metrics gw)\<rparr>"

definition gw_active :: "gateway \<Rightarrow> Config" where
  "gw_active gw = mgr_config (gw_manager gw)"

definition gw_sound :: "gateway \<Rightarrow> bool" where
  "gw_sound gw \<longleftrightarrow> manager_inv (gw_manager gw)"

interpretation manager: activator "gw_activate table parse" gw_publish gw_active gw_sound for table parse
proof (unfold_locales, goal_cases)
  case (1 gw c gw')
  then show ?case
    by (auto simp: gw_activate_def gw_sound_def gw_active_def dest: Activate_accepts split: prod.splits)
next
  case (2 gw c e gw')
  then show ?case
    by (auto simp: gw_activate_def gw_sound_def gw_active_def dest: Activate_rejects split: prod.splits)
next
  case (3 gw v)
  then show ?case by (simp add: gw_publish_def gw_active_def gw_sound_def)
qed

section \<open>Properties\<close>

text \<open>
  Claim C12: an activation that is accepted makes the configuration current everywhere (manager,
  running data plane) and an activation that is refused changes neither, whatever the refusal:
  invalid, not compilable, or a change that needs a restart.
\<close>

theorem Activate_all_or_nothing:
  assumes "manager_inv m" and "manager_Activate parse c m = (e, m')"
  shows "case e of
      None \<Rightarrow> mgr_config m' = Clone c \<and> running_config (mgr_dataPlane m') = Some (Clone c) \<and>
        same_restart_sections (mgr_config m) c \<and> compilable parse c
    | Some _ \<Rightarrow> mgr_config m' = mgr_config m \<and> current (mgr_dataPlane m') = current (mgr_dataPlane m)"
proof (cases e)
  case None
  have "same_restart_sections (mgr_config m) c"
    using assms(2) None by (auto simp: manager_Activate_def split: if_splits)
  with Activate_accepts [OF assms(1) assms(2) [unfolded None]] None show ?thesis
    by (simp add: manager_inv_running)
next
  case (Some x)
  with Activate_rejects [of parse c m x m'] assms(2) show ?thesis by simp
qed

definition sample_manager :: Manager where
  "sample_manager = \<lparr>mgr_config = Clone sample_config, mgr_dataPlane = sample_server, mgr_sink = True\<rparr>"

lemma sample_manager_inv: "manager_inv sample_manager"
  by (simp add: manager_inv_def sample_manager_def sample_server_def current_def runtime_of_def)

theorem Activate_all_or_nothing_witness:
  "fst (manager_Activate sample_parse sample_config sample_manager) = None \<and>
   mgr_config (snd (manager_Activate sample_parse sample_config sample_manager)) = Clone sample_config"
proof -
  have same: "same_restart_sections (Clone sample_config) sample_config"
    by (simp add: same_restart_sections_def Clone_def sample_config_def Default_def)
  have "\<exists>dp. Reconfigure sample_parse sample_config sample_server = Inr dp"
    using same by (simp add: Reconfigure_Inr sample_compilable) (simp add: current_def sample_server_def runtime_of_def)
  with same have "fst (manager_Activate sample_parse sample_config sample_manager) = None"
    by (auto simp: manager_Activate_def sample_manager_def)
  moreover from this have "manager_Activate sample_parse sample_config sample_manager =
      (None, snd (manager_Activate sample_parse sample_config sample_manager))" by (simp add: prod_eq_iff)
  note Activate_all_or_nothing [OF sample_manager_inv this]
  ultimately show ?thesis by simp
qed

text \<open>
  The comparison is on slices as they are: the manager keeps a clone, in which an empty list is nil,
  so a candidate that spells an unchanged empty list of peers as empty is refused.
\<close>

lemma empty_list_needs_restart:
  assumes "mgr_config m = Clone c" and "Peers (Cluster cand) = Some []"
  shows "manager_Activate parse cand m = (Some RestartRequired, m)"
proof -
  have "Peers (Cluster (Clone c)) \<noteq> Some []" by (simp add: Clone_def copy_slice_def split: list.split)
  with assms show ?thesis by (auto simp: manager_Activate_def same_restart_sections_def)
qed

text \<open>Every attempt is counted as an activation, failed ones too.\<close>

lemma failed_activation_counted:
  assumes "mgr_sink m" and "same_restart_sections (mgr_config m) c"
    and "Reconfigure parse c (mgr_dataPlane m) = Inl e"
  shows "srv_events (mgr_dataPlane (snd (manager_Activate parse c m))) = srv_events (mgr_dataPlane m) @ [Activation]"
  using assms by (simp add: manager_Activate_def record_activation_def)

end
