(* ===== verification/ServeMux.thy ===== *)
theory ServeMux imports Redirect begin

text \<open>
  \<^verbatim>\<open>http.ServeMux\<close> of Go 1.23 as far as the program's patterns use it (a method or none, no host,
  literal segments, single wildcards and a trailing slash): the search through the routing tree, the
  redirects to a clean path and to a trailing slash, and the answers 404 and 405.
\<close>

section \<open>Patterns\<close>

text \<open>\<open>Subtree\<close> is the anonymous rest that a pattern with a trailing slash ends with.\<close>

datatype pattern_segment = Literal string | Wildcard | Subtree

record 'e pattern =
  pat_method :: string
  pat_segments :: "pattern_segment list"
  pat_handler :: 'e

text \<open>The pattern of a method and a path such as \<^verbatim>\<open>/api/v1/cluster/members/{id}\<close>.\<close>

definition segments_of :: "string \<Rightarrow> pattern_segment list" where
  "segments_of path =
     map (\<lambda>s. if s = [] then Subtree else if hd s = CHR ''{'' then Wildcard else Literal s)
       (split_on (CHR ''/'') (drop 1 path))"

definition handle :: "string \<Rightarrow> string \<Rightarrow> 'e \<Rightarrow> 'e pattern" where
  "handle meth path e = \<lparr>pat_method = meth, pat_segments = segments_of path, pat_handler = e\<rparr>"

text \<open>A node of the routing tree: the patterns that lead through it, each with its segments still to match.\<close>

type_synonym 'e tree_node = "(pattern_segment list \<times> 'e pattern) list"

definition child :: "pattern_segment \<Rightarrow> 'e tree_node \<Rightarrow> 'e tree_node" where
  "child seg n = [(tl segs, p). (segs, p) \<leftarrow> n, segs \<noteq> [] \<and> hd segs = seg]"

definition unescape_segment :: "string \<Rightarrow> string" where
  "unescape_segment s = (case PathUnescape s of None \<Rightarrow> s | Some t \<Rightarrow> t)"

definition first_segment :: "string \<Rightarrow> string \<times> string" where
  "first_segment path =
     (if path = ''/'' then (''/'', [])
      else (unescape_segment (takeWhile (\<lambda>c. c \<noteq> CHR ''/'') (drop 1 path)),
            dropWhile (\<lambda>c. c \<noteq> CHR ''/'') (drop 1 path)))"

lemma first_segment_shorter: "path \<noteq> [] \<Longrightarrow> length (snd (first_segment path)) < length path"
  using length_dropWhile_le [of "\<lambda>c. c \<noteq> CHR ''/''" "drop 1 path"]
  by (cases path) (auto simp: first_segment_def)

text \<open>\<^verbatim>\<open>routingNode.matchPath\<close>: a literal child before the wildcard, and the subtree last.\<close>

function match_path :: "'e tree_node \<Rightarrow> string \<Rightarrow> string list \<Rightarrow> ('e pattern \<times> string list) option" where
  "match_path n path matches =
     (if n = [] then None
      else if path = [] then map_option (\<lambda>(segs, p). (p, matches)) (find (\<lambda>(segs, p). segs = []) n)
      else
        let seg = fst (first_segment path); rest = snd (first_segment path) in
        (case match_path (child (Literal seg) n) rest matches of
           Some r \<Rightarrow> Some r
         | None \<Rightarrow>
             (case (if seg \<noteq> ''/'' then match_path (child Wildcard n) rest (matches @ [seg]) else None) of
                Some r \<Rightarrow> Some r
              | None \<Rightarrow> (case child Subtree n of [] \<Rightarrow> None | (segs, p) # _ \<Rightarrow> Some (p, matches)))))"
  by pat_completeness auto
termination
  using first_segment_shorter by (relation "measure (\<lambda>(n, path, matches). length path)") auto

declare match_path.simps [simp del]

definition method_node :: "string \<Rightarrow> 'e pattern list \<Rightarrow> 'e tree_node" where
  "method_node meth ps = [(pat_segments p, p). p \<leftarrow> ps, pat_method p = meth]"

text \<open>\<^verbatim>\<open>routingNode.matchMethodAndPath\<close>: the method's own patterns, GET's for HEAD, those without a method.\<close>

definition match_method ::
  "'e pattern list \<Rightarrow> string \<Rightarrow> string \<Rightarrow> ('e pattern \<times> string list) option" where
  "match_method ps meth path =
     (case match_path (method_node meth ps) path [] of
        Some r \<Rightarrow> Some r
      | None \<Rightarrow>
          (case (if meth = ''HEAD'' then match_path (method_node ''GET'' ps) path [] else None) of
             Some r \<Rightarrow> Some r
           | None \<Rightarrow> match_path (method_node [] ps) path []))"

definition exact_match :: "('e pattern \<times> string list) option \<Rightarrow> string \<Rightarrow> bool" where
  "exact_match r path \<longleftrightarrow>
     (case r of
        None \<Rightarrow> False
      | Some (p, _) \<Rightarrow>
          pat_segments p = [] \<or> last (pat_segments p) \<noteq> Subtree \<or>
          path \<noteq> [] \<and> last path = CHR ''/'' \<and> length (pat_segments p) = count_list path (CHR ''/''))"

text \<open>
  \<^verbatim>\<open>matchingMethods\<close>: the methods with a pattern for the path, or for the path with a slash added,
  each once and sorted.
\<close>

definition methods_at :: "'e pattern list \<Rightarrow> string \<Rightarrow> string set" where
  "methods_at ps path =
     (let ms = set (filter (\<lambda>meth. meth \<noteq> [] \<and> match_path (method_node meth ps) path [] \<noteq> None) (map pat_method ps))
      in if ''GET'' \<in> ms then insert ''HEAD'' ms else ms)"

definition http_methods :: "string list" where
  "http_methods = [''CONNECT'', ''DELETE'', ''GET'', ''HEAD'', ''OPTIONS'', ''PATCH'', ''POST'', ''PUT'', ''TRACE'']"

definition matching_methods :: "'e pattern list \<Rightarrow> string \<Rightarrow> string list" where
  "matching_methods ps path =
     filter (\<lambda>meth. meth \<in> methods_at ps path \<or>
       \<not> has_suffix path ''/'' \<and> meth \<in> methods_at ps (path @ ''/'')) http_methods"

section \<open>Finding the handler\<close>

definition clean_path :: "string \<Rightarrow> string" where
  "clean_path p =
     (if p = [] then ''/''
      else
        let p1 = (if hd p = CHR ''/'' then p else CHR ''/'' # p); np = path_Clean p1
        in if last p1 = CHR ''/'' \<and> np \<noteq> ''/'' then np @ ''/'' else np)"

datatype 'e mux_result = BadRequest | MovedTo string | Refused "string list" | Found 'e "string list"

text \<open>The text of a URL that has only a path and a query.\<close>

definition path_url_text :: "string \<Rightarrow> string \<Rightarrow> string" where
  "path_url_text path query =
     (let s = EscapedPath \<lparr>Scheme = [], Host = [], Path = path, RawPath = [], RawQuery = query\<rparr>
      in if query = [] then s else s @ ''?'' @ query)"

definition slash_redirect :: "'e pattern list \<Rightarrow> string \<Rightarrow> string \<Rightarrow> url \<Rightarrow> string option" where
  "slash_redirect ps meth path u =
     (if \<not> exact_match (match_method ps meth path) path \<and> \<not> has_suffix path ''/'' \<and>
         exact_match (match_method ps meth (path @ ''/'')) (path @ ''/'')
      then Some (path_url_text (clean_path (Path u) @ ''/'') (RawQuery u)) else None)"

definition mux_find :: "'e pattern list \<Rightarrow> request \<Rightarrow> 'e mux_result" where
  "mux_find ps req =
     (let u = req_URL req; escaped = EscapedPath u;
          path = (if Method req = ''CONNECT'' then escaped else clean_path escaped)
      in if RequestURI req = ''*'' then BadRequest
         else
           (case slash_redirect ps (Method req) path u of
              Some target \<Rightarrow> MovedTo target
            | None \<Rightarrow>
                if path \<noteq> escaped then MovedTo (path_url_text path (RawQuery u))
                else
                  (case match_method ps (Method req) path of
                     Some (p, matches) \<Rightarrow> Found (pat_handler p) matches
                   | None \<Rightarrow> Refused (matching_methods ps path))))"

text \<open>The multiplexer's own answers; \<^verbatim>\<open>Connection: close\<close> is for HTTP/1.1 and later.\<close>

definition mux_refusal :: "string list \<Rightarrow> response \<Rightarrow> response" where
  "mux_refusal allowed w =
     (if allowed = [] then not_found w
      else http_error ''Method Not Allowed'' 405 (set_header ''Allow'' (join '', '' allowed) w))"

definition mux_answer ::
  "(string \<Rightarrow> url option) \<Rightarrow> 'e mux_result \<Rightarrow> request \<Rightarrow> response \<Rightarrow> response" where
  "mux_answer parse r req w =
     (case r of
        BadRequest \<Rightarrow> write_header 400 (set_header ''Connection'' ''close'' w)
      | MovedTo target \<Rightarrow> redirect_with 301 ''Moved Permanently'' parse req target w
      | Refused allowed \<Rightarrow> mux_refusal allowed w
      | Found e matches \<Rightarrow> w)"

section \<open>Which paths a pattern is for\<close>

text \<open>The paths that fit a pattern's segments, with the values of its wildcards.\<close>

fun pattern_fits :: "pattern_segment list \<Rightarrow> string \<Rightarrow> string list \<Rightarrow> bool" where
  "pattern_fits [] path vs \<longleftrightarrow> path = [] \<and> vs = []"
| "pattern_fits (Literal s # segs) path vs \<longleftrightarrow>
     path \<noteq> [] \<and> fst (first_segment path) = s \<and> pattern_fits segs (snd (first_segment path)) vs"
| "pattern_fits (Wildcard # segs) path vs \<longleftrightarrow>
     path \<noteq> [] \<and> fst (first_segment path) \<noteq> ''/'' \<and>
     (case vs of [] \<Rightarrow> False | v # vs' \<Rightarrow> v = fst (first_segment path) \<and> pattern_fits segs (snd (first_segment path)) vs')"
| "pattern_fits (Subtree # segs) path vs \<longleftrightarrow> path \<noteq> [] \<and> vs = []"

lemma child_iff: "(segs, p) \<in> set (child seg n) \<longleftrightarrow> (seg # segs, p) \<in> set n"
  by (force simp: child_def intro: rev_image_eqI)

text \<open>The search finds a pattern that fits, and it finds one whenever there is one.\<close>

lemma match_path_sound:
  "match_path n path ms = Some (p, ms') \<Longrightarrow> \<exists>segs vs. (segs, p) \<in> set n \<and> pattern_fits segs path vs \<and> ms' = ms @ vs"
proof (induction n path ms rule: match_path.induct)
  case (1 n path ms)
  let ?seg = "fst (first_segment path)" and ?rest = "snd (first_segment path)"
  show ?case
  proof (cases "n = [] \<or> path = []")
    case True
    with "1.prems" obtain segs where "find (\<lambda>(segs, p). segs = []) n = Some (segs, p)" "path = []" "ms' = ms"
      by (subst (asm) match_path.simps) (auto split: if_splits)
    then have "([], p) \<in> set n" by (auto simp: find_Some_iff) (metis nth_mem)
    with \<open>path = []\<close> \<open>ms' = ms\<close> show ?thesis by (intro exI [of _ "[]"]) simp
  next
    case False
    with "1.prems" consider
        "match_path (child (Literal ?seg) n) ?rest ms = Some (p, ms')"
      | "?seg \<noteq> ''/''" "match_path (child (Literal ?seg) n) ?rest ms = None"
        "match_path (child Wildcard n) ?rest (ms @ [?seg]) = Some (p, ms')"
      | segs where "(segs, p) \<in> set (child Subtree n)" "ms' = ms"
      by (subst (asm) match_path.simps) (auto simp: Let_def split: option.splits if_splits list.splits)
    then show ?thesis
    proof cases
      case 1
      from "1.IH"(1) [OF _ _ refl refl this] False obtain segs vs where
        "(segs, p) \<in> set (child (Literal ?seg) n)" "pattern_fits segs ?rest vs" "ms' = ms @ vs" by blast
      with False show ?thesis by (intro exI [of _ "Literal ?seg # segs"] exI [of _ vs]) (simp add: child_iff)
    next
      case 2
      from "1.IH"(2) [OF _ _ refl refl 2(2,1,3)] False obtain segs vs where
        "(segs, p) \<in> set (child Wildcard n)" "pattern_fits segs ?rest vs" "ms' = ms @ ?seg # vs" by auto
      with False 2 show ?thesis by (intro exI [of _ "Wildcard # segs"] exI [of _ "?seg # vs"]) (simp add: child_iff)
    next
      case 3
      with False show ?thesis by (intro exI [of _ "Subtree # segs"] exI [of _ "[]"]) (simp add: child_iff)
    qed
  qed
qed

lemma match_path_complete:
  "(segs, p) \<in> set n \<Longrightarrow> pattern_fits segs path vs \<Longrightarrow> match_path n path ms \<noteq> None"
proof (induction n path ms arbitrary: segs vs rule: match_path.induct)
  case (1 n path ms)
  have n: "n \<noteq> []" using "1.prems"(1) by auto
  show ?case
  proof (cases segs)
    case Nil
    with "1.prems" n show ?thesis by (subst match_path.simps) (auto simp: find_None_iff)
  next
    case (Cons seg segs')
    with "1.prems" have path: "path \<noteq> []" by (cases seg) auto
    have child: "(segs', p) \<in> set (child seg n)" using "1.prems"(1) Cons by (simp add: child_iff)
    show ?thesis
    proof (cases seg)
      case (Literal s)
      with Cons "1.prems"(2) "1.IH"(1) [OF n path refl refl, of segs' vs] child show ?thesis
        by (subst match_path.simps) (auto simp: n path Let_def split: option.split)
    next
      case Wildcard
      with Cons "1.prems"(2) obtain vs' where seg: "fst (first_segment path) \<noteq> ''/''"
        and fits: "pattern_fits segs' (snd (first_segment path)) vs'" by (auto split: list.splits)
      show ?thesis
      proof (cases "match_path (child (Literal (fst (first_segment path))) n) (snd (first_segment path)) ms")
        case None
        from "1.IH"(2) [OF n path refl refl None seg child [unfolded Wildcard] fits] None seg show ?thesis
          by (subst match_path.simps) (auto simp: n path Let_def)
      next
        case (Some r)
        then show ?thesis by (subst match_path.simps) (simp add: n path Let_def)
      qed
    next
      case Subtree
      with child have "child Subtree n \<noteq> []" by auto
      then show ?thesis
        by (subst match_path.simps) (auto simp: n path Let_def split: option.split list.split)
    qed
  qed
qed

lemma method_node_iff: "(segs, p) \<in> set (method_node meth ps) \<longleftrightarrow> p \<in> set ps \<and> pat_method p = meth \<and> segs = pat_segments p"
  by (auto simp: method_node_def)

text \<open>The methods that a pattern is for.\<close>

definition method_fits :: "string \<Rightarrow> 'e pattern \<Rightarrow> bool" where
  "method_fits meth p \<longleftrightarrow> pat_method p = meth \<or> meth = ''HEAD'' \<and> pat_method p = ''GET'' \<or> pat_method p = []"

lemma match_method_sound:
  assumes "match_method ps meth path = Some (p, ms)"
  shows "p \<in> set ps \<and> method_fits meth p \<and> pattern_fits (pat_segments p) path ms"
  using assms
  by (auto simp: match_method_def method_fits_def method_node_iff split: option.splits if_splits dest!: match_path_sound)

lemma match_method_complete:
  assumes "p \<in> set ps" and "method_fits meth p" and "pattern_fits (pat_segments p) path vs"
  shows "match_method ps meth path \<noteq> None"
proof -
  have "match_path (method_node (pat_method p) ps) path [] \<noteq> None"
    using assms(1,3) by (intro match_path_complete [of "pat_segments p" p]) (simp_all add: method_node_iff)
  with assms(2) show ?thesis by (auto simp: match_method_def method_fits_def split: option.split)
qed

lemma mux_found:
  assumes "mux_find ps req = Found e ms"
  shows "\<exists>p \<in> set ps. pat_handler p = e \<and> method_fits (Method req) p \<and>
    pattern_fits (pat_segments p) (EscapedPath (req_URL req)) ms"
  using assms
  by (auto simp: mux_find_def Let_def split: option.splits if_splits dest!: match_method_sound)

lemma mux_refused:
  assumes "mux_find ps req = Refused allowed" and "p \<in> set ps" and "method_fits (Method req) p"
  shows "\<not> pattern_fits (pat_segments p) (EscapedPath (req_URL req)) vs"
proof
  assume "pattern_fits (pat_segments p) (EscapedPath (req_URL req)) vs"
  from match_method_complete [OF assms(2,3) this] assms(1) show False
    by (auto simp: mux_find_def Let_def split: option.splits if_splits)
qed

text \<open>A path that fits literal segments is, unescaped, those segments after slashes.\<close>

definition slashed :: "string list \<Rightarrow> string" where
  "slashed ls = concat (map (Cons (CHR ''/'')) ls)"

lemma PathUnescape_split:
  "PathUnescape (s @ t) = Some q \<Longrightarrow> t = [] \<or> hd t = CHR ''/'' \<Longrightarrow>
     \<exists>a b. PathUnescape s = Some a \<and> PathUnescape t = Some b \<and> q = a @ b"
proof (induction s arbitrary: q rule: PathUnescape.induct)
  case 1
  then show ?case by simp
next
  case (2 c s)
  have slash: "\<not> is_hex (CHR ''/'')" by (simp add: is_hex_def is_digit_def code_def)
  show ?case
  proof (cases "c = CHR ''%''")
    case True
    with "2.prems"(1) obtain x y r where r: "s @ t = x # y # r" "is_hex x" "is_hex y"
      by (auto split: list.splits if_splits)
    with "2.prems"(2) slash obtain s' where s: "s = x # y # s'" "r = s' @ t"
      by (cases s; cases "tl s"; cases t; auto)
    from "2.prems"(1) True r s obtain q' where "PathUnescape (s' @ t) = Some q'"
      "q = char_of (16 * unhex x + unhex y) # q'" by auto
    with "2.IH"(1) [OF True s(1) refl _ _ "2.prems"(2)] True s r show ?thesis by force
  next
    case False
    with "2.prems"(1) obtain q' where "PathUnescape (s @ t) = Some q'" "q = c # q'" by auto
    with "2.IH"(2) [OF False _ "2.prems"(2)] False show ?thesis by force
  qed
qed

lemma segment_path:
  assumes "path \<noteq> []" and "hd path = CHR ''/''" and "fst (first_segment path) \<noteq> ''/''" and "PathUnescape path = Some q"
  shows "\<exists>q'. q = CHR ''/'' # fst (first_segment path) @ q' \<and> PathUnescape (snd (first_segment path)) = Some q' \<and>
    (snd (first_segment path) = [] \<or> hd (snd (first_segment path)) = CHR ''/'')"
proof -
  let ?t = "takeWhile (\<lambda>c. c \<noteq> CHR ''/'') (drop 1 path)" and ?d = "dropWhile (\<lambda>c. c \<noteq> CHR ''/'') (drop 1 path)"
  have path: "path = CHR ''/'' # ?t @ ?d" using assms(1,2) by (cases path) simp_all
  then have fs: "PathUnescape path = map_option (Cons (CHR ''/'')) (PathUnescape (?t @ ?d))"
    by (metis PathUnescape_slash append_Cons append_Nil)
  have one: "path \<noteq> ''/''" using assms(3) by (auto simp: first_segment_def)
  have d: "?d = [] \<or> hd ?d = CHR ''/''" using hd_dropWhile [of "\<lambda>c. c \<noteq> CHR ''/''" "drop 1 path"] by blast
  from assms(4) obtain q1 where "PathUnescape (?t @ ?d) = Some q1" "q = CHR ''/'' # q1"
    unfolding fs by auto
  with PathUnescape_split [OF _ d] obtain a b where "PathUnescape ?t = Some a" "PathUnescape ?d = Some b"
    "q = CHR ''/'' # a @ b" by blast
  with one d show ?thesis by (simp add: first_segment_def unescape_segment_def)
qed

lemma literal_path:
  assumes "pattern_fits (map Literal ls @ segs) path vs" and "''/'' \<notin> set ls"
    and "path = [] \<or> hd path = CHR ''/''" and "PathUnescape path = Some q"
  shows "\<exists>path' q'. pattern_fits segs path' vs \<and> (path' = [] \<or> hd path' = CHR ''/'') \<and>
    PathUnescape path' = Some q' \<and> q = slashed ls @ q'"
  using assms
proof (induction ls arbitrary: path q)
  case Nil
  then show ?case by (auto simp: slashed_def)
next
  case (Cons l ls)
  then have "path \<noteq> []" "hd path = CHR ''/''" "fst (first_segment path) = l" "l \<noteq> ''/''" by auto
  with segment_path [of path q] Cons.prems(4) obtain q1 where q1: "q = CHR ''/'' # l @ q1"
    "PathUnescape (snd (first_segment path)) = Some q1"
    "snd (first_segment path) = [] \<or> hd (snd (first_segment path)) = CHR ''/''" by auto
  from Cons.IH [OF _ _ q1(3,2)] Cons.prems(1,2) show ?case by (auto simp: q1(1) slashed_def)
qed

lemma clean_path_rooted: "clean_path p \<noteq> [] \<and> hd (clean_path p) = CHR ''/''"
proof -
  have "path_Clean q \<noteq> [] \<and> hd (path_Clean q) = CHR ''/''" if "q \<noteq> []" "hd q = CHR ''/''" for q
    using that by (simp add: path_Clean_def Let_def)
  then show ?thesis by (simp add: clean_path_def Let_def)
qed

lemma mux_found_rooted:
  assumes "mux_find ps req = Found e ms" and "Method req \<noteq> ''CONNECT''"
  shows "hd (EscapedPath (req_URL req)) = CHR ''/''"
  using assms clean_path_rooted [of "EscapedPath (req_URL req)"]
  by (auto simp: mux_find_def Let_def split: option.splits if_splits)

end
