(* ===== verification/ControlPlane.thy ===== *)
theory ControlPlane imports RuntimeManager ServeMux begin

text \<open>
  The control plane of \<^verbatim>\<open>internal/controlplane/server.go\<close>: versioned configuration with activation
  and rollback, readiness, and the cluster's administration. Its callbacks act on a state \<open>'s\<close>
  outside the server; the JSON package and the embedded assets are the fields of \<open>cp_lib\<close>. The
  body of a request is an argument of the handlers that read it.
\<close>

section \<open>JSON and replies\<close>

datatype json =
  JNull | JBool bool | JInt int | JString string | JArray "json list" | JObject "(string \<times> json) list"

text \<open>
  Decoders read one value from the front of a body: the error's text, or the value and what is left.
  \<open>lib_config_json\<close> is a configuration marshalled and read back as a generic value.
\<close>

record cp_lib =
  lib_encode :: "json \<Rightarrow> string"
  lib_config_json :: "Config \<Rightarrow> json"
  lib_decode_config :: "string \<Rightarrow> string + Config \<times> string"
  lib_decode_member :: "string \<Rightarrow> string + (string \<times> string) \<times> string"
  lib_decode_target :: "string \<Rightarrow> string + string \<times> string"
  lib_url_parse :: "string \<Rightarrow> url option"
  lib_table :: "nat \<Rightarrow> bool"
  lib_openapi :: string
  lib_docs :: string

definition max_body :: nat where
  "max_body = 2 * 2 ^ 20"

definition json_space :: "char \<Rightarrow> bool" where
  "json_space c \<longleftrightarrow> c \<in> set [CHR '' '', CHR 0x09, CHR 0x0A, CHR 0x0D]"

definition decodeJSON :: "(string \<Rightarrow> string + 'a \<times> string) \<Rightarrow> string \<Rightarrow> string + 'a" where
  "decodeJSON dec body =
     (case dec (take max_body body) of
        Inl msg \<Rightarrow> Inl (''invalid configuration JSON: '' @ msg)
      | Inr (x, rest) \<Rightarrow>
          if list_all json_space rest then Inr x
          else Inl ''request body must contain exactly one JSON object'')"

definition writeJSON :: "cp_lib \<Rightarrow> int \<Rightarrow> json \<Rightarrow> response \<Rightarrow> response" where
  "writeJSON lib status value w =
     write_body (lib_encode lib value @ [CHR 0x0A])
       (write_header status (set_header ''Content-Type'' ''application/json'' w))"

definition writeError :: "cp_lib \<Rightarrow> int \<Rightarrow> string \<Rightarrow> response \<Rightarrow> response" where
  "writeError lib status msg = writeJSON lib status (JObject [(''error'', JObject [(''message'', JString msg)])])"

section \<open>The server\<close>

text \<open>The operations of \<^verbatim>\<open>ClusterController\<close>; an error is its text.\<close>

record 's cluster_ops =
  co_status :: "'s \<Rightarrow> string + json"
  co_members :: "'s \<Rightarrow> string + json"
  co_sync :: "'s \<Rightarrow> string + json"
  co_add :: "string \<Rightarrow> string \<Rightarrow> 's \<Rightarrow> string option \<times> 's"
  co_remove :: "string \<Rightarrow> 's \<Rightarrow> string option \<times> 's"
  co_transfer :: "string \<Rightarrow> 's \<Rightarrow> string option \<times> 's"

record 's ControlServer =
  cp_config :: Snapshot
  cp_previous :: "Snapshot option"
  cp_version :: int
  cp_state :: string
  cp_lastErr :: string
  cp_activate :: "(Config \<Rightarrow> 's \<Rightarrow> string option \<times> 's) option"
  cp_readyState :: bool
  cp_readiness :: "('s \<Rightarrow> bool \<times> string) option"
  cp_metrics :: "(int \<Rightarrow> 's \<Rightarrow> 's) option"
  cp_cluster :: "'s cluster_ops option"

definition cp_NewServer :: "Config \<Rightarrow> (Config \<Rightarrow> 's \<Rightarrow> string option \<times> 's) list \<Rightarrow> 's ControlServer" where
  "cp_NewServer cfg activators =
     \<lparr>cp_config = NewSnapshot cfg, cp_previous = None, cp_version = 0, cp_state = ''bootstrap'', cp_lastErr = [],
      cp_activate = (case activators of [] \<Rightarrow> None | a # _ \<Rightarrow> Some a), cp_readyState = True,
      cp_readiness = None, cp_metrics = None, cp_cluster = None\<rparr>"

definition SetDraining :: "'s ControlServer \<Rightarrow> 's ControlServer" where
  "SetDraining cp = cp\<lparr>cp_readyState := False, cp_state := ''draining''\<rparr>"

definition SetReadinessCheck :: "('s \<Rightarrow> bool \<times> string) option \<Rightarrow> 's ControlServer \<Rightarrow> 's ControlServer" where
  "SetReadinessCheck check cp = cp\<lparr>cp_readiness := check\<rparr>"

definition SetMetrics :: "(int \<Rightarrow> 's \<Rightarrow> 's) option \<Rightarrow> 's ControlServer \<Rightarrow> 's ControlServer" where
  "SetMetrics metrics cp = cp\<lparr>cp_metrics := metrics\<rparr>"

definition SetCluster :: "'s cluster_ops option \<Rightarrow> 's ControlServer \<Rightarrow> 's ControlServer" where
  "SetCluster cluster cp = cp\<lparr>cp_cluster := cluster\<rparr>"

section \<open>Reading\<close>

definition health :: "cp_lib \<Rightarrow> response \<Rightarrow> response" where
  "health lib = writeJSON lib 200 (JObject [(''status'', JString ''ok'')])"

definition ready :: "cp_lib \<Rightarrow> 's ControlServer \<Rightarrow> 's \<Rightarrow> response \<Rightarrow> response" where
  "ready lib cp s w =
     (if \<not> cp_readyState cp then writeJSON lib 503 (JObject [(''status'', JString (cp_state cp))]) w
      else
        (case cp_readiness cp of
           Some check \<Rightarrow>
             (case check s of
                (True, _) \<Rightarrow> writeJSON lib 200 (JObject [(''status'', JString ''ready'')]) w
              | (False, dependency) \<Rightarrow> writeJSON lib 503 (JObject [(''status'', JString dependency)]) w)
         | None \<Rightarrow> writeJSON lib 200 (JObject [(''status'', JString ''ready'')]) w))"

definition etag :: "int \<Rightarrow> string" where
  "etag version = CHR 0x22 # FormatInt version @ [CHR 0x22]"

definition cp_current :: "'s ControlServer \<Rightarrow> Config" where
  "cp_current cp = snapshot_Config (cp_config cp)"

definition status_json :: "'s ControlServer \<Rightarrow> json" where
  "status_json cp = JObject
     ([(''version'', JInt (cp_version cp)), (''state'', JString (cp_state cp)),
       (''ui'', JBool (UI (ControlPlane (cp_current cp))))] @
      (if cp_lastErr cp \<noteq> [] then [(''error'', JString (cp_lastErr cp))] else []))"

definition writeStatus :: "cp_lib \<Rightarrow> 's ControlServer \<Rightarrow> response \<Rightarrow> response" where
  "writeStatus lib cp = writeJSON lib 200 (status_json cp)"

definition configStatus :: "cp_lib \<Rightarrow> 's ControlServer \<Rightarrow> response \<Rightarrow> response" where
  "configStatus lib cp = writeStatus lib cp"

definition servers :: "cp_lib \<Rightarrow> 's ControlServer \<Rightarrow> response \<Rightarrow> response" where
  "servers lib cp = writeJSON lib 200 (JArray [JObject
     [(''name'', JString ''control-plane''), (''state'', JString (cp_state cp)),
      (''active_connections'', JInt 0), (''in_flight_requests'', JInt 0)]])"

definition cp_routes :: "cp_lib \<Rightarrow> 's ControlServer \<Rightarrow> response \<Rightarrow> response" where
  "cp_routes lib cp = writeJSON lib 200 (JArray (map (\<lambda>r. JObject
     [(''name'', JString (route_Name r)), (''upstream'', JString (route_Upstream r)),
      (''healthy_endpoints'', JInt 0), (''requests_total'', JInt 0)]) (elems (Routes (cp_current cp)))))"

definition json_field :: "string \<Rightarrow> (string \<times> json) list \<Rightarrow> json option" where
  "json_field k fs = map_of fs k"

definition redactConfig :: "cp_lib \<Rightarrow> Config \<Rightarrow> json" where
  "redactConfig lib value =
     (case lib_config_json lib value of
        JObject fs \<Rightarrow>
          (case json_field ''auth'' fs of
             Some (JObject a) \<Rightarrow>
               JObject (map (\<lambda>(k, v). if k = ''auth'' then (k, JObject (filter (\<lambda>(k', _). k' \<noteq> ''client_secret_file'') a))
                 else (k, v)) fs)
           | _ \<Rightarrow> JObject fs)
      | _ \<Rightarrow> JNull)"

definition getConfig :: "cp_lib \<Rightarrow> 's ControlServer \<Rightarrow> response \<Rightarrow> response" where
  "getConfig lib cp w =
     writeJSON lib 200 (redactConfig lib (cp_current cp)) (set_header ''ETag'' (etag (cp_version cp)) w)"

definition openapi :: "cp_lib \<Rightarrow> response \<Rightarrow> response" where
  "openapi lib w =
     write_body (lib_openapi lib) (write_header 200 (set_header ''Content-Type'' ''application/json'' w))"

definition docs :: "cp_lib \<Rightarrow> 's ControlServer \<Rightarrow> response \<Rightarrow> response" where
  "docs lib cp w =
     (if \<not> UI (ControlPlane (cp_current cp)) then not_found w
      else
        write_body (lib_docs lib)
          (write_header 200
            (set_header ''Content-Type'' ''text/html; charset=utf-8''
              (set_header ''Content-Security-Policy''
                (''default-src 'self'; style-src 'unsafe-inline'' @ [CHR 0x27]) w))))"

section \<open>Changing the configuration\<close>

text \<open>The error of \<^verbatim>\<open>requireVersionLocked\<close>, if any.\<close>

definition requireVersion :: "int \<Rightarrow> header \<Rightarrow> string option" where
  "requireVersion version h =
     (let value = trim_set [CHR 0x22] (trim_space (header_get h ''If-Match'')) in
      if value = [] then Some ''If-Match header is required''
      else
        (case ParseInt value of
           None \<Rightarrow> Some ''If-Match must contain a configuration version''
         | Some want \<Rightarrow>
             if want \<noteq> version
             then Some (''configuration version conflict: expected '' @ FormatInt version @ '', got '' @ FormatInt want)
             else None))"

definition run_activate ::
  "(Config \<Rightarrow> 's \<Rightarrow> string option \<times> 's) option \<Rightarrow> Config \<Rightarrow> 's \<Rightarrow> string option \<times> 's" where
  "run_activate act c s = (case act of None \<Rightarrow> (None, s) | Some f \<Rightarrow> f c s)"

text \<open>The assignments after a successful activation, under the lock.\<close>

definition commit :: "Snapshot \<Rightarrow> 's ControlServer \<Rightarrow> 's \<Rightarrow> 's ControlServer \<times> 's" where
  "commit new cp s =
     (let version = i64 (cp_version cp + 1) in
      (cp\<lparr>cp_previous := Some (cp_config cp), cp_config := new, cp_version := version,
          cp_state := ''active'', cp_lastErr := []\<rparr>,
       case cp_metrics cp of None \<Rightarrow> s | Some publish \<Rightarrow> publish version s))"

text \<open>The status and message of a refusal (\<open>None\<close>: accepted), with the state after it.\<close>

type_synonym refusal = "(int \<times> string) option"

definition replace_locked ::
  "header \<Rightarrow> Config \<Rightarrow> 's ControlServer \<Rightarrow> 's \<Rightarrow> refusal \<times> 's ControlServer \<times> 's" where
  "replace_locked h cand cp s =
     (case requireVersion (cp_version cp) h of
        Some msg \<Rightarrow> (Some (409, msg), cp, s)
      | None \<Rightarrow>
          (case run_activate (cp_activate cp) cand s of
             (Some e, s1) \<Rightarrow>
               (Some (422, ''activate configuration: '' @ e), cp\<lparr>cp_lastErr := e, cp_state := ''failed''\<rparr>, s1)
           | (None, s1) \<Rightarrow> (None, commit (NewSnapshot cand) cp s1)))"

definition rollback_locked ::
  "header \<Rightarrow> 's ControlServer \<Rightarrow> 's \<Rightarrow> refusal \<times> 's ControlServer \<times> 's" where
  "rollback_locked h cp s =
     (case requireVersion (cp_version cp) h of
        Some msg \<Rightarrow> (Some (409, msg), cp, s)
      | None \<Rightarrow>
          (case cp_previous cp of
             None \<Rightarrow> (Some (404, ''no rollback target exists''), cp, s)
           | Some prev \<Rightarrow>
               (case run_activate (cp_activate cp) (snapshot_Config prev) s of
                  (Some e, s1) \<Rightarrow>
                    (Some (422, ''activate rollback: '' @ e), cp\<lparr>cp_lastErr := e, cp_state := ''failed''\<rparr>, s1)
                | (None, s1) \<Rightarrow> (None, commit prev cp s1))))"

definition decodeConfig :: "cp_lib \<Rightarrow> string \<Rightarrow> string + Config" where
  [simp]: "decodeConfig lib = decodeJSON (lib_decode_config lib)"

text \<open>A body as a valid configuration, or the text of the error.\<close>

definition read_config :: "cp_lib \<Rightarrow> string \<Rightarrow> string + Config" where
  "read_config lib body =
     and_then (decodeConfig lib body)
       (\<lambda>c. case Validate (lib_url_parse lib) c of Inl e \<Rightarrow> Inl (config_error_text (lib_table lib) e) | Inr _ \<Rightarrow> Inr c)"

definition validateConfig :: "cp_lib \<Rightarrow> string \<Rightarrow> response \<Rightarrow> response" where
  "validateConfig lib body w =
     (case read_config lib body of
        Inl msg \<Rightarrow> writeError lib 422 msg w
      | Inr _ \<Rightarrow> writeJSON lib 200 (JObject [(''valid'', JBool True)]) w)"

text \<open>
  The last part of both handlers takes the lock again, for reading: it reports whatever version and
  state it finds then.
\<close>

definition report :: "cp_lib \<Rightarrow> 's ControlServer \<Rightarrow> response \<Rightarrow> response" where
  "report lib cp w = writeStatus lib cp (set_header ''ETag'' (etag (cp_version cp)) w)"

definition finish :: "cp_lib \<Rightarrow> refusal \<Rightarrow> 's ControlServer \<Rightarrow> response \<Rightarrow> response" where
  "finish lib r cp w = (case r of Some (status, msg) \<Rightarrow> writeError lib status msg w | None \<Rightarrow> report lib cp w)"

definition replaceConfig ::
  "cp_lib \<Rightarrow> header \<Rightarrow> string \<Rightarrow> 's ControlServer \<Rightarrow> 's \<Rightarrow> response \<Rightarrow> 's ControlServer \<times> 's \<times> response" where
  "replaceConfig lib h body cp s w =
     (case read_config lib body of
        Inl msg \<Rightarrow> (cp, s, writeError lib 422 msg w)
      | Inr cand \<Rightarrow>
          (case replace_locked h cand cp s of (r, cp1, s1) \<Rightarrow> (cp1, s1, finish lib r cp1 w)))"

definition rollbackConfig ::
  "cp_lib \<Rightarrow> header \<Rightarrow> 's ControlServer \<Rightarrow> 's \<Rightarrow> response \<Rightarrow> 's ControlServer \<times> 's \<times> response" where
  "rollbackConfig lib h cp s w =
     (case rollback_locked h cp s of (r, cp1, s1) \<Rightarrow> (cp1, s1, finish lib r cp1 w))"

section \<open>The cluster's administration\<close>

definition clusterController :: "'s ControlServer \<Rightarrow> 's cluster_ops option" where
  [simp]: "clusterController cp = cp_cluster cp"

definition show_cluster ::
  "cp_lib \<Rightarrow> ('s cluster_ops \<Rightarrow> 's \<Rightarrow> string + json) \<Rightarrow> 's ControlServer \<Rightarrow> 's \<Rightarrow> response \<Rightarrow> response" where
  "show_cluster lib get cp s w =
     (case clusterController cp of
        None \<Rightarrow> not_found w
      | Some ops \<Rightarrow>
          (case get ops s of Inl msg \<Rightarrow> writeError lib 503 msg w | Inr value \<Rightarrow> writeJSON lib 200 value w))"

definition clusterStatus :: "cp_lib \<Rightarrow> 's ControlServer \<Rightarrow> 's \<Rightarrow> response \<Rightarrow> response" where
  "clusterStatus lib = show_cluster lib co_status"

definition clusterMembers :: "cp_lib \<Rightarrow> 's ControlServer \<Rightarrow> 's \<Rightarrow> response \<Rightarrow> response" where
  "clusterMembers lib = show_cluster lib co_members"

definition clusterSync :: "cp_lib \<Rightarrow> 's ControlServer \<Rightarrow> 's \<Rightarrow> response \<Rightarrow> response" where
  "clusterSync lib = show_cluster lib co_sync"

definition addClusterMember ::
  "cp_lib \<Rightarrow> string \<Rightarrow> 's ControlServer \<Rightarrow> 's \<Rightarrow> response \<Rightarrow> 's \<times> response" where
  "addClusterMember lib body cp s w =
     (case clusterController cp of
        None \<Rightarrow> (s, not_found w)
      | Some ops \<Rightarrow>
          (case decodeJSON (lib_decode_member lib) body of
             Inl _ \<Rightarrow> (s, writeError lib 422 ''id and address are required'' w)
           | Inr (i, addr) \<Rightarrow>
               if i = [] \<or> addr = [] then (s, writeError lib 422 ''id and address are required'' w)
               else
                 (case co_add ops i addr s of
                    (Some e, s1) \<Rightarrow> (s1, writeError lib 409 e w)
                  | (None, s1) \<Rightarrow>
                      (s1, writeJSON lib 200 (JObject [(''status'', JString ''added''), (''id'', JString i)]) w))))"

definition removeClusterMember ::
  "cp_lib \<Rightarrow> string \<Rightarrow> 's ControlServer \<Rightarrow> 's \<Rightarrow> response \<Rightarrow> 's \<times> response" where
  "removeClusterMember lib i cp s w =
     (case clusterController cp of
        None \<Rightarrow> (s, not_found w)
      | Some ops \<Rightarrow>
          (case co_remove ops i s of
             (Some e, s1) \<Rightarrow> (s1, writeError lib 409 e w)
           | (None, s1) \<Rightarrow>
               (s1, writeJSON lib 200 (JObject [(''status'', JString ''removed''), (''id'', JString i)]) w)))"

definition transferLeadership ::
  "cp_lib \<Rightarrow> int \<Rightarrow> string \<Rightarrow> 's ControlServer \<Rightarrow> 's \<Rightarrow> response \<Rightarrow> 's \<times> response" where
  "transferLeadership lib len body cp s w =
     (case clusterController cp of
        None \<Rightarrow> (s, not_found w)
      | Some ops \<Rightarrow>
          (case (if len \<noteq> 0 then decodeJSON (lib_decode_target lib) body else Inr []) of
             Inl msg \<Rightarrow> (s, writeError lib 422 msg w)
           | Inr i \<Rightarrow>
               (case co_transfer ops i s of
                  (Some e, s1) \<Rightarrow> (s1, writeError lib 409 e w)
                | (None, s1) \<Rightarrow> (s1, writeJSON lib 202 (JObject [(''status'', JString ''transfer_started'')]) w))))"

section \<open>The handler\<close>

datatype endpoint =
    Health | Ready | GetConfig | ReplaceConfig | ValidateConfig | RollbackConfig | ConfigStatus | Servers
  | ListRoutes | ClusterStatus | ClusterMembers | AddMember | RemoveMember | ClusterSync | Transfer
  | OpenAPI | Docs | Pprof string

definition control_patterns :: "endpoint pattern list" where
  "control_patterns =
     [handle ''GET'' ''/health'' Health,
      handle ''GET'' ''/ready'' Ready,
      handle ''GET'' ''/api/v1/config'' GetConfig,
      handle ''PUT'' ''/api/v1/config'' ReplaceConfig,
      handle ''POST'' ''/api/v1/config/validate'' ValidateConfig,
      handle ''POST'' ''/api/v1/config/rollback'' RollbackConfig,
      handle ''GET'' ''/api/v1/config/status'' ConfigStatus,
      handle ''GET'' ''/api/v1/servers'' Servers,
      handle ''GET'' ''/api/v1/routes'' ListRoutes,
      handle ''GET'' ''/api/v1/cluster/status'' ClusterStatus,
      handle ''GET'' ''/api/v1/cluster/members'' ClusterMembers,
      handle ''POST'' ''/api/v1/cluster/members'' AddMember,
      handle ''DELETE'' ''/api/v1/cluster/members/{id}'' RemoveMember,
      handle ''GET'' ''/api/v1/cluster/sync'' ClusterSync,
      handle ''POST'' ''/api/v1/cluster/leadership/transfer'' Transfer,
      handle ''GET'' ''/api/openapi.json'' OpenAPI,
      handle ''GET'' ''/api/docs'' Docs,
      handle ''GET'' ''/debug/pprof/'' (Pprof ''index''),
      handle ''GET'' ''/debug/pprof/cmdline'' (Pprof ''cmdline''),
      handle ''GET'' ''/debug/pprof/profile'' (Pprof ''profile''),
      handle ''GET'' ''/debug/pprof/symbol'' (Pprof ''symbol''),
      handle ''GET'' ''/debug/pprof/trace'' (Pprof ''trace'')]"

text \<open>\<^verbatim>\<open>request.PathValue("id")\<close>: the segment that the pattern's only wildcard matched.\<close>

definition path_id :: "string list \<Rightarrow> string" where
  "path_id matches = (case matches of [] \<Rightarrow> [] | i # _ \<Rightarrow> i)"

text \<open>The profiler's handlers belong to \<^verbatim>\<open>net/http/pprof\<close>: \<open>pprof\<close>.\<close>

definition cp_serve ::
  "cp_lib \<Rightarrow> (string \<Rightarrow> response \<Rightarrow> response) \<Rightarrow> endpoint \<Rightarrow> string list \<Rightarrow> request \<Rightarrow> string \<Rightarrow> 's ControlServer \<Rightarrow> 's \<Rightarrow> response \<Rightarrow>
   's ControlServer \<times> 's \<times> response" where
  "cp_serve lib pprof ep matches req body cp s w =
     (case ep of
        Health \<Rightarrow> (cp, s, health lib w)
      | Ready \<Rightarrow> (cp, s, ready lib cp s w)
      | GetConfig \<Rightarrow> (cp, s, getConfig lib cp w)
      | ReplaceConfig \<Rightarrow> replaceConfig lib (Header req) body cp s w
      | ValidateConfig \<Rightarrow> (cp, s, validateConfig lib body w)
      | RollbackConfig \<Rightarrow> rollbackConfig lib (Header req) cp s w
      | ConfigStatus \<Rightarrow> (cp, s, configStatus lib cp w)
      | Servers \<Rightarrow> (cp, s, servers lib cp w)
      | ListRoutes \<Rightarrow> (cp, s, cp_routes lib cp w)
      | ClusterStatus \<Rightarrow> (cp, s, clusterStatus lib cp s w)
      | ClusterMembers \<Rightarrow> (cp, s, clusterMembers lib cp s w)
      | AddMember \<Rightarrow> (cp, addClusterMember lib body cp s w)
      | RemoveMember \<Rightarrow> (cp, removeClusterMember lib (path_id matches) cp s w)
      | ClusterSync \<Rightarrow> (cp, s, clusterSync lib cp s w)
      | Transfer \<Rightarrow> (cp, transferLeadership lib (ContentLength req) body cp s w)
      | OpenAPI \<Rightarrow> (cp, s, openapi lib w)
      | Docs \<Rightarrow> (cp, s, docs lib cp w)
      | Pprof name \<Rightarrow> (cp, s, pprof name w))"

definition cp_Handler ::
  "cp_lib \<Rightarrow> (string \<Rightarrow> response \<Rightarrow> response) \<Rightarrow> string \<Rightarrow> 's ControlServer \<Rightarrow> 's \<Rightarrow> request \<Rightarrow> response \<Rightarrow>
   's ControlServer \<times> 's \<times> response" where
  "cp_Handler lib pprof body cp s req w =
     (case mux_find control_patterns req of
        Found ep matches \<Rightarrow> cp_serve lib pprof ep matches req body cp s w
      | answer \<Rightarrow> (cp, s, mux_answer (lib_url_parse lib) answer req w))"

section \<open>Facts\<close>

lemma header_set_ETag: "header_get (header_set ''ETag'' v h) ''ETag'' = v"
  by (simp add: header_get_set)

definition named_version :: "header \<Rightarrow> int option" where
  "named_version h = ParseInt (trim_set [CHR 0x22] (trim_space (header_get h ''If-Match'')))"

lemma requireVersion_None: "requireVersion version h = None \<longleftrightarrow> named_version h = Some version"
proof -
  have "ParseInt [] = None" by (simp add: ParseInt_def)
  then show ?thesis by (auto simp: requireVersion_def named_version_def Let_def split: option.splits)
qed

lemma trim_etag: "trim_set [CHR 0x22] (trim_space (etag v)) = FormatInt v"
proof -
  have quote: "CHR 0x22 \<notin> set ascii_space" by (simp add: ascii_space_def)
  have "trim_space (etag v) = etag v"
    unfolding trim_space_def using quote by (intro trim_set_none) (simp add: etag_def)
  moreover have "trim_set [CHR 0x22] (CHR 0x22 # FormatInt v @ [CHR 0x22]) = FormatInt v"
  proof (rule trim_set_quoted)
    have "CHR 0x22 \<notin> set (FormatInt v)" by (rule FormatInt_free) simp
    then have "hd (FormatInt v) \<noteq> CHR 0x22" "last (FormatInt v) \<noteq> CHR 0x22"
      by (metis FormatInt_nonempty hd_in_set, metis FormatInt_nonempty last_in_set)
    then show "FormatInt v = [] \<or> hd (FormatInt v) \<notin> set [CHR 0x22] \<and> last (FormatInt v) \<notin> set [CHR 0x22]" by simp
  qed simp_all
  ultimately show ?thesis by (simp add: etag_def)
qed

lemma named_version_etag:
  assumes "header_get h ''If-Match'' = etag v" and "- (2 ^ 63) \<le> v" and "v < 2 ^ 63"
  shows "named_version h = Some v"
  by (simp only: named_version_def assms(1) trim_etag) (rule ParseInt_FormatInt [OF assms(2,3)])

lemma commit_fields:
  assumes "commit new cp s = (cp', s')"
  shows "cp_config cp' = new \<and> cp_previous cp' = Some (cp_config cp) \<and> cp_version cp' = i64 (cp_version cp + 1) \<and>
    cp_state cp' = ''active'' \<and> cp_lastErr cp' = [] \<and> cp_activate cp' = cp_activate cp \<and>
    cp_metrics cp' = cp_metrics cp \<and> cp_readyState cp' = cp_readyState cp \<and>
    s' = (case cp_metrics cp of None \<Rightarrow> s | Some publish \<Rightarrow> publish (cp_version cp') s)"
  using assms by (auto simp: commit_def Let_def split: option.split)

lemma replace_accepted:
  assumes "replace_locked h cand cp s = (None, cp', s')"
  shows "named_version h = Some (cp_version cp) \<and>
    (\<exists>s1. run_activate (cp_activate cp) cand s = (None, s1) \<and> commit (NewSnapshot cand) cp s1 = (cp', s'))"
  using assms by (auto simp: replace_locked_def requireVersion_None split: option.splits prod.splits)

lemma rollback_accepted:
  assumes "rollback_locked h cp s = (None, cp', s')"
  shows "named_version h = Some (cp_version cp) \<and>
    (\<exists>prev s1. cp_previous cp = Some prev \<and>
      run_activate (cp_activate cp) (snapshot_Config prev) s = (None, s1) \<and> commit prev cp s1 = (cp', s'))"
  using assms by (auto simp: rollback_locked_def requireVersion_None split: option.splits prod.splits)

lemma refused_keeps:
  assumes "replace_locked h cand cp s = (Some e, cp', s') \<or> rollback_locked h cp s = (Some e, cp', s')"
  shows "cp_config cp' = cp_config cp \<and> cp_previous cp' = cp_previous cp \<and> cp_version cp' = cp_version cp \<and>
    cp_activate cp' = cp_activate cp \<and> cp_metrics cp' = cp_metrics cp \<and> cp_readyState cp' = cp_readyState cp \<and>
    (s' = s \<or> (\<exists>c msg. run_activate (cp_activate cp) c s = (Some msg, s')))"
  using assms
  by (auto simp: replace_locked_def rollback_locked_def commit_def Let_def split: option.splits prod.splits)

section \<open>The control plane over time\<close>

text \<open>
  Requests that change the configuration take the lock once each, so a history is a sequence of
  whole critical sections, of draining, and of steps of the rest of the program, which keep the
  active configuration. The log has the version each applied change named and what it applied.
\<close>

record 's control =
  ct_server :: "'s ControlServer"
  ct_world :: 's
  ct_log :: "(int \<times> Config) list"

inductive cp_step :: "('s \<Rightarrow> Config) \<Rightarrow> ('s \<Rightarrow> bool) \<Rightarrow> 's control \<Rightarrow> 's control \<Rightarrow> bool" for active sound where
  Replace: "replace_locked h cand (ct_server c) (ct_world c) = (r, cp', s') \<Longrightarrow>
    cp_step active sound c (c\<lparr>ct_server := cp', ct_world := s', ct_log :=
      (if r = None then (the (named_version h), Clone cand) # ct_log c else ct_log c)\<rparr>)"
| Rollback: "rollback_locked h (ct_server c) (ct_world c) = (r, cp', s') \<Longrightarrow>
    cp_step active sound c (c\<lparr>ct_server := cp', ct_world := s', ct_log :=
      (if r = None then (the (named_version h), snapshot_Config (the (cp_previous (ct_server c)))) # ct_log c
       else ct_log c)\<rparr>)"
| Drain: "cp_step active sound c (c\<lparr>ct_server := SetDraining (ct_server c)\<rparr>)"
| Environment: "active s' = active (ct_world c) \<Longrightarrow> sound s' \<Longrightarrow> cp_step active sound c (c\<lparr>ct_world := s'\<rparr>)"

inductive cp_reachable ::
  "(Config \<Rightarrow> 's \<Rightarrow> string option \<times> 's) \<Rightarrow> (int \<Rightarrow> 's \<Rightarrow> 's) \<Rightarrow> ('s \<Rightarrow> Config) \<Rightarrow> ('s \<Rightarrow> bool) \<Rightarrow>
   's control \<Rightarrow> bool" for activate publish active sound where
  Start: "sound s \<Longrightarrow> active s = Clone cfg \<Longrightarrow> cp_reachable activate publish active sound
    \<lparr>ct_server = SetMetrics (Some publish) (cp_NewServer cfg [activate]), ct_world = s, ct_log = []\<rparr>"
| Next: "cp_reachable activate publish active sound c \<Longrightarrow> cp_step active sound c c' \<Longrightarrow>
    cp_reachable activate publish active sound c'"

definition log_ok :: "int \<Rightarrow> (int \<times> Config) list \<Rightarrow> bool" where
  "log_ok version log \<longleftrightarrow>
     version = i64 (int (length log)) \<and> map fst (rev log) = map (\<lambda>i. i64 (int i)) [0..<length log]"

lemma log_ok_Cons: "log_ok v log \<Longrightarrow> log_ok (i64 (v + 1)) ((v, c) # log)"
  by (simp add: log_ok_def algebra_simps)

definition snap_ok :: "Snapshot \<Rightarrow> bool" where
  "snap_ok sn \<longleftrightarrow> Clone (snap_value sn) = snap_value sn"

lemma snapshot_facts:
  "snap_ok (NewSnapshot c)" "snapshot_Config (NewSnapshot c) = Clone c"
  "snap_ok sn \<Longrightarrow> Clone (snapshot_Config sn) = snapshot_Config sn"
  by (simp_all add: snap_ok_def NewSnapshot_def snapshot_Config_def Clone_idem)

definition control_inv ::
  "(Config \<Rightarrow> 's \<Rightarrow> string option \<times> 's) \<Rightarrow> (int \<Rightarrow> 's \<Rightarrow> 's) \<Rightarrow> ('s \<Rightarrow> Config) \<Rightarrow> ('s \<Rightarrow> bool) \<Rightarrow>
   's control \<Rightarrow> bool" where
  "control_inv activate publish active sound c \<longleftrightarrow>
     cp_activate (ct_server c) = Some activate \<and> cp_metrics (ct_server c) = Some publish \<and>
     sound (ct_world c) \<and> cp_current (ct_server c) = active (ct_world c) \<and>
     snap_ok (cp_config (ct_server c)) \<and>
     (\<forall>prev. cp_previous (ct_server c) = Some prev \<longrightarrow> snap_ok prev) \<and>
     log_ok (cp_version (ct_server c)) (ct_log c) \<and>
     (ct_log c = [] \<or> cp_current (ct_server c) = snd (hd (ct_log c)))"

context activator begin

abbreviation cp_inv :: "'s control \<Rightarrow> bool" where
  "cp_inv \<equiv> control_inv activate publish active sound"

lemma cp_inv_commit:
  assumes inv: "cp_inv c" and act: "run_activate (cp_activate (ct_server c)) (snapshot_Config new) (ct_world c) = (None, s1)"
    and com: "commit new (ct_server c) s1 = (cp', s')" and ok: "snap_ok new"
  shows "cp_inv (c\<lparr>ct_server := cp', ct_world := s', ct_log := (cp_version (ct_server c), snapshot_Config new) # ct_log c\<rparr>)"
proof -
  have acts: "cp_activate (ct_server c) = Some activate" "cp_metrics (ct_server c) = Some publish"
    and snd: "sound (ct_world c)" and log: "log_ok (cp_version (ct_server c)) (ct_log c)"
    and old: "snap_ok (cp_config (ct_server c))"
    using inv by (simp_all add: control_inv_def)
  from act acts have "activate (snapshot_Config new) (ct_world c) = (None, s1)" by (simp add: run_activate_def)
  from accepted [OF snd this] ok have s1: "active s1 = snapshot_Config new" "sound s1"
    by (simp_all add: snapshot_facts)
  note f = commit_fields [OF com]
  from published [OF s1(2)] s1 acts f have "active s' = snapshot_Config new" "sound s'" by auto
  with f acts ok old log show ?thesis by (simp add: control_inv_def cp_current_def log_ok_Cons)
qed

lemma cp_inv_refused:
  assumes inv: "cp_inv c"
    and ref: "replace_locked h cand (ct_server c) (ct_world c) = (Some e, cp', s') \<or>
      rollback_locked h (ct_server c) (ct_world c) = (Some e, cp', s')"
  shows "cp_inv (c\<lparr>ct_server := cp', ct_world := s'\<rparr>)"
proof -
  note k = refused_keeps [OF ref]
  have snd: "sound (ct_world c)" and act: "cp_activate (ct_server c) = Some activate"
    using inv by (simp_all add: control_inv_def)
  have "active s' = active (ct_world c) \<and> sound s'"
    using k snd refused [OF snd] act by (auto simp: run_activate_def)
  with k inv show ?thesis by (auto simp: control_inv_def cp_current_def)
qed

lemma cp_inv_step:
  assumes "cp_step active sound c c'" and inv: "cp_inv c"
  shows "cp_inv c'"
  using assms(1)
proof (cases rule: cp_step.cases)
  case (Replace h cand r cp' s')
  show ?thesis
  proof (cases r)
    case None
    from replace_accepted [OF Replace(2) [unfolded None]] obtain s1 where v: "named_version h = Some (cp_version (ct_server c))"
      and "run_activate (cp_activate (ct_server c)) cand (ct_world c) = (None, s1)"
      and com: "commit (NewSnapshot cand) (ct_server c) s1 = (cp', s')" by blast
    have act: "activate cand (ct_world c) = (None, s1)"
      using inv \<open>run_activate _ _ _ = _\<close> by (simp add: control_inv_def run_activate_def)
    have snd: "sound (ct_world c)" "cp_metrics (ct_server c) = Some publish" using inv by (simp_all add: control_inv_def)
    from accepted [OF snd(1) act] have s1: "active s1 = Clone cand" "sound s1" by simp_all
    note f = commit_fields [OF com]
    from published [OF s1(2)] s1 f snd have "active s' = Clone cand" "sound s'" by auto
    with f inv v None show ?thesis
      unfolding Replace(1) by (simp add: control_inv_def cp_current_def snapshot_facts log_ok_Cons)
  next
    case (Some e)
    with cp_inv_refused [OF inv, of h cand e cp' s'] Replace show ?thesis by simp
  qed
next
  case (Rollback h r cp' s')
  show ?thesis
  proof (cases r)
    case None
    from rollback_accepted [OF Rollback(2) [unfolded None]] obtain prev s1 where v: "named_version h = Some (cp_version (ct_server c))"
      and prev: "cp_previous (ct_server c) = Some prev"
      and act: "run_activate (cp_activate (ct_server c)) (snapshot_Config prev) (ct_world c) = (None, s1)"
      and com: "commit prev (ct_server c) s1 = (cp', s')" by blast
    have "snap_ok prev" using inv prev by (simp add: control_inv_def)
    from cp_inv_commit [OF inv act com this] v prev None show ?thesis unfolding Rollback(1) by simp
  next
    case (Some e)
    with cp_inv_refused [OF inv, of h _ e cp' s'] Rollback show ?thesis by simp
  qed
next
  case Drain
  have "ct_server c' = SetDraining (ct_server c)" "ct_world c' = ct_world c" "ct_log c' = ct_log c"
    "cp_current (SetDraining (ct_server c)) = cp_current (ct_server c)"
    unfolding Drain by (simp_all add: SetDraining_def cp_current_def)
  with inv show ?thesis unfolding control_inv_def by (auto simp: SetDraining_def)
next
  case (Environment s')
  with inv show ?thesis by (auto simp: control_inv_def)
qed

lemma cp_reachable_inv: "cp_reachable activate publish active sound c \<Longrightarrow> cp_inv c"
proof (induction rule: cp_reachable.induct)
  case (Start s cfg)
  then show ?case
    by (simp add: control_inv_def SetMetrics_def cp_NewServer_def cp_current_def snapshot_facts log_ok_def)
next
  case (Next c c')
  then show ?case by (blast intro: cp_inv_step)
qed

lemma controlled:
  assumes "cp_reachable activate publish active sound c"
  shows "cp_current (ct_server c) = active (ct_world c) \<and> sound (ct_world c) \<and>
    log_ok (cp_version (ct_server c)) (ct_log c) \<and>
    (ct_log c = [] \<or> cp_current (ct_server c) = snd (hd (ct_log c)))"
  using cp_reachable_inv [OF assms] unfolding control_inv_def by blast

end

section \<open>The handler keeps the invariant\<close>

text \<open>A cluster controller whose operations leave the active configuration alone.\<close>

definition harmless :: "('s \<Rightarrow> Config) \<Rightarrow> ('s \<Rightarrow> bool) \<Rightarrow> 's cluster_ops \<Rightarrow> bool" where
  "harmless active sound ops \<longleftrightarrow>
     (\<forall>s. sound s \<longrightarrow>
        (\<forall>i a. active (snd (co_add ops i a s)) = active s \<and> sound (snd (co_add ops i a s))) \<and>
        (\<forall>i. active (snd (co_remove ops i s)) = active s \<and> sound (snd (co_remove ops i s))) \<and>
        (\<forall>i. active (snd (co_transfer ops i s)) = active s \<and> sound (snd (co_transfer ops i s))))"

text \<open>A state of the server and of its callbacks in which the invariant holds for some history.\<close>

definition controls ::
  "(Config \<Rightarrow> 's \<Rightarrow> string option \<times> 's) \<Rightarrow> (int \<Rightarrow> 's \<Rightarrow> 's) \<Rightarrow> ('s \<Rightarrow> Config) \<Rightarrow> ('s \<Rightarrow> bool) \<Rightarrow>
   's ControlServer \<Rightarrow> 's \<Rightarrow> bool" where
  "controls activate publish active sound cp s \<longleftrightarrow>
     (\<exists>log. control_inv activate publish active sound \<lparr>ct_server = cp, ct_world = s, ct_log = log\<rparr>) \<and>
     (\<forall>ops. cp_cluster cp = Some ops \<longrightarrow> harmless active sound ops)"

lemma locked_cluster:
  "replace_locked h cand cp s = (r, cp1, s1) \<Longrightarrow> cp_cluster cp1 = cp_cluster cp"
  "rollback_locked h cp s = (r, cp1, s1) \<Longrightarrow> cp_cluster cp1 = cp_cluster cp"
  by (auto simp: replace_locked_def rollback_locked_def commit_def Let_def split: option.splits prod.splits)

lemma replaceConfig_locked:
  assumes "replaceConfig lib h body cp s w = (cp', s', w')"
  shows "(cp', s') = (cp, s) \<or> (\<exists>cand r. replace_locked h cand cp s = (r, cp', s'))"
  using assms by (auto simp: replaceConfig_def split: sum.splits prod.splits)

lemma rollbackConfig_locked:
  assumes "rollbackConfig lib h cp s w = (cp', s', w')"
  shows "\<exists>r. rollback_locked h cp s = (r, cp', s')"
  using assms by (auto simp: rollbackConfig_def split: prod.splits)

lemma Handler_cluster:
  assumes "cp_Handler lib pprof body cp s req w = (cp', s', w')"
  shows "cp_cluster cp' = cp_cluster cp"
proof -
  have "cp_cluster cp1 = cp_cluster cp" if "cp_serve lib pprof ep ms req body cp s w = (cp1, s1, w1)" for ep ms cp1 s1 w1
  proof (cases ep)
    case ReplaceConfig
    with that have "replaceConfig lib (Header req) body cp s w = (cp1, s1, w1)" by (simp add: cp_serve_def)
    then show ?thesis by (auto dest: replaceConfig_locked locked_cluster)
  next
    case RollbackConfig
    with that have "rollbackConfig lib (Header req) cp s w = (cp1, s1, w1)" by (simp add: cp_serve_def)
    then show ?thesis by (auto dest: rollbackConfig_locked locked_cluster)
  qed (use that in \<open>auto simp: cp_serve_def split: prod.splits\<close>)
  with assms show ?thesis by (auto simp: cp_Handler_def split: mux_result.splits)
qed

context activator begin

lemma controls_step:
  assumes "controls activate publish active sound cp s" and "cp_cluster cp' = cp_cluster cp"
    and "\<And>log. \<exists>log'. cp_step active sound \<lparr>ct_server = cp, ct_world = s, ct_log = log\<rparr>
      \<lparr>ct_server = cp', ct_world = s', ct_log = log'\<rparr>"
  shows "controls activate publish active sound cp' s'"
proof -
  from assms(1) obtain log where inv: "cp_inv \<lparr>ct_server = cp, ct_world = s, ct_log = log\<rparr>"
    unfolding controls_def by blast
  obtain log' where "cp_step active sound \<lparr>ct_server = cp, ct_world = s, ct_log = log\<rparr>
      \<lparr>ct_server = cp', ct_world = s', ct_log = log'\<rparr>" using assms(3) by blast
  from cp_inv_step [OF this inv] assms(1,2) show ?thesis unfolding controls_def by auto
qed

lemma controls_replace:
  assumes "controls activate publish active sound cp s" and "replace_locked h cand cp s = (r, cp', s')"
  shows "controls activate publish active sound cp' s'"
proof (rule controls_step [OF assms(1)])
  show "cp_cluster cp' = cp_cluster cp" using assms(2) by (rule locked_cluster)
next
  fix log
  show "\<exists>log'. cp_step active sound \<lparr>ct_server = cp, ct_world = s, ct_log = log\<rparr>
      \<lparr>ct_server = cp', ct_world = s', ct_log = log'\<rparr>"
    using cp_step.Replace [of h cand "\<lparr>ct_server = cp, ct_world = s, ct_log = log\<rparr>" r cp' s' active sound] assms(2)
    by auto
qed

lemma controls_rollback:
  assumes "controls activate publish active sound cp s" and "rollback_locked h cp s = (r, cp', s')"
  shows "controls activate publish active sound cp' s'"
proof (rule controls_step [OF assms(1)])
  show "cp_cluster cp' = cp_cluster cp" using assms(2) by (rule locked_cluster)
next
  fix log
  show "\<exists>log'. cp_step active sound \<lparr>ct_server = cp, ct_world = s, ct_log = log\<rparr>
      \<lparr>ct_server = cp', ct_world = s', ct_log = log'\<rparr>"
    using cp_step.Rollback [of h "\<lparr>ct_server = cp, ct_world = s, ct_log = log\<rparr>" r cp' s' active sound] assms(2)
    by auto
qed

lemma controls_environment:
  assumes "controls activate publish active sound cp s" and "active s' = active s" and "sound s'"
  shows "controls activate publish active sound cp s'"
proof (rule controls_step [OF assms(1)])
  fix log
  show "\<exists>log'. cp_step active sound \<lparr>ct_server = cp, ct_world = s, ct_log = log\<rparr>
      \<lparr>ct_server = cp, ct_world = s', ct_log = log'\<rparr>"
    using cp_step.Environment [of active s' "\<lparr>ct_server = cp, ct_world = s, ct_log = log\<rparr>" sound] assms(2,3) by auto
qed simp

lemma controls_drain:
  assumes "controls activate publish active sound cp s"
  shows "controls activate publish active sound (SetDraining cp) s"
proof (rule controls_step [OF assms])
  fix log
  show "\<exists>log'. cp_step active sound \<lparr>ct_server = cp, ct_world = s, ct_log = log\<rparr>
      \<lparr>ct_server = SetDraining cp, ct_world = s, ct_log = log'\<rparr>"
    using cp_step.Drain [of active sound "\<lparr>ct_server = cp, ct_world = s, ct_log = log\<rparr>"] by auto
qed (simp add: SetDraining_def)

lemma controls_members:
  assumes "controls activate publish active sound cp s"
  shows "active (fst (addClusterMember lib body cp s w)) = active s \<and> sound (fst (addClusterMember lib body cp s w))"
    and "active (fst (removeClusterMember lib i cp s w)) = active s \<and> sound (fst (removeClusterMember lib i cp s w))"
    and "active (fst (transferLeadership lib len body cp s w)) = active s \<and> sound (fst (transferLeadership lib len body cp s w))"
proof -
  have snd: "sound s" using assms by (auto simp: controls_def control_inv_def)
  have ops: "harmless active sound ops" if "cp_cluster cp = Some ops" for ops
    using assms that by (simp add: controls_def)
  have add: "active s1 = active s \<and> sound s1" if "cp_cluster cp = Some ops" "co_add ops j a s = (e, s1)" for ops j a e s1
    using ops [OF that(1)] snd that(2) unfolding harmless_def by (metis snd_conv)
  have rem: "active s1 = active s \<and> sound s1" if "cp_cluster cp = Some ops" "co_remove ops j s = (e, s1)" for ops j e s1
    using ops [OF that(1)] snd that(2) unfolding harmless_def by (metis snd_conv)
  have tra: "active s1 = active s \<and> sound s1" if "cp_cluster cp = Some ops" "co_transfer ops j s = (e, s1)" for ops j e s1
    using ops [OF that(1)] snd that(2) unfolding harmless_def by (metis snd_conv)
  show "active (fst (addClusterMember lib body cp s w)) = active s \<and> sound (fst (addClusterMember lib body cp s w))"
    using snd add by (simp add: addClusterMember_def split: option.split sum.split prod.split)
  show "active (fst (removeClusterMember lib i cp s w)) = active s \<and> sound (fst (removeClusterMember lib i cp s w))"
    using snd rem by (simp add: removeClusterMember_def split: option.split sum.split prod.split)
  show "active (fst (transferLeadership lib len body cp s w)) = active s \<and> sound (fst (transferLeadership lib len body cp s w))"
    using snd tra by (simp add: transferLeadership_def split: option.split sum.split prod.split)
qed

lemma controls_serve:
  assumes "controls activate publish active sound cp s" and "cp_serve lib pprof ep ms req body cp s w = (cp', s', w')"
  shows "controls activate publish active sound cp' s'"
proof -
  note members = controls_members [OF assms(1)]
  have keep: "(cp', s') = (cp, s) \<Longrightarrow> ?thesis" using assms(1) by simp
  have env: "cp' = cp \<Longrightarrow> active s' = active s \<and> sound s' \<Longrightarrow> ?thesis"
    using controls_environment [OF assms(1)] by blast
  show ?thesis
  proof (cases ep)
    case ReplaceConfig
    with assms(2) have "replaceConfig lib (Header req) body cp s w = (cp', s', w')" by (simp add: cp_serve_def)
    from replaceConfig_locked [OF this] keep controls_replace [OF assms(1)] show ?thesis by blast
  next
    case RollbackConfig
    with assms(2) have "rollbackConfig lib (Header req) cp s w = (cp', s', w')" by (simp add: cp_serve_def)
    from rollbackConfig_locked [OF this] controls_rollback [OF assms(1)] show ?thesis by blast
  next
    case AddMember
    with assms(2) members(1) [of lib body w] env show ?thesis by (auto simp: cp_serve_def)
  next
    case RemoveMember
    with assms(2) members(2) [of lib "path_id ms" w] env show ?thesis by (auto simp: cp_serve_def)
  next
    case Transfer
    with assms(2) members(3) [of lib "ContentLength req" body w] env show ?thesis by (auto simp: cp_serve_def)
  qed (use assms(2) keep in \<open>auto simp: cp_serve_def\<close>)
qed

lemma controls_Handler:
  assumes "controls activate publish active sound cp s" and "cp_Handler lib pprof body cp s req w = (cp', s', w')"
  shows "controls activate publish active sound cp' s'"
  using assms controls_serve [OF assms(1)] by (auto simp: cp_Handler_def split: mux_result.splits)

end

section \<open>Properties\<close>

text \<open>
  Over any history of replacements, rollbacks, draining and other activity, the
  configuration the control plane reports is the one the manager holds and the data plane runs,
  and it is the one that the last accepted change applied.
\<close>

lemma control_and_data_plane_agree:
  assumes "cp_reachable (gw_activate table parse) gw_publish gw_active gw_sound c"
  shows "cp_current (ct_server c) = mgr_config (gw_manager (ct_world c)) \<and>
    running_config (mgr_dataPlane (gw_manager (ct_world c))) = Some (cp_current (ct_server c)) \<and>
    (ct_log c = [] \<or> cp_current (ct_server c) = snd (hd (ct_log c)))"
  using manager.controlled [OF assms]
  by (auto simp: gw_active_def gw_sound_def manager_inv_running)

text \<open>
  Claim C6: no update is lost. Every accepted change named, in its \<^verbatim>\<open>If-Match\<close>, the version that the
  change before it produced: the accepted changes name the versions 0, 1, 2, ... in order, and the
  version is their number (as a 64-bit integer).
\<close>

theorem no_lost_update:
  assumes "cp_reachable (gw_activate table parse) gw_publish gw_active gw_sound c"
  shows "cp_version (ct_server c) = i64 (int (length (ct_log c))) \<and>
    map fst (rev (ct_log c)) = map (\<lambda>i. i64 (int i)) [0..<length (ct_log c)]"
  using manager.controlled [OF assms] by (simp add: log_ok_def)

definition sample_gateway :: gateway where
  "sample_gateway = \<lparr>gw_manager = sample_manager, gw_metrics = new_metrics\<rparr>"

definition sample_control :: "gateway control" where
  "sample_control = \<lparr>ct_server = SetMetrics (Some gw_publish) (cp_NewServer sample_config [gw_activate (\<lambda>_. False) sample_parse]),
     ct_world = sample_gateway, ct_log = []\<rparr>"

lemma sample_control_reachable:
  "cp_reachable (gw_activate (\<lambda>_. False) sample_parse) gw_publish gw_active gw_sound sample_control"
  unfolding sample_control_def
  by (rule cp_reachable.Start)
    (simp add: gw_sound_def sample_gateway_def sample_manager_inv,
      simp add: gw_active_def sample_gateway_def sample_manager_def)

definition if_match :: "string \<Rightarrow> header" where
  "if_match v = [''If-Match'' \<mapsto> [v]]"

text \<open>The sample's first replacement, by its own configuration.\<close>

definition sample_put :: "refusal \<times> gateway ControlServer \<times> gateway" where
  "sample_put = replace_locked (if_match (etag 0)) sample_config (ct_server sample_control) sample_gateway"

definition sample_replaced :: "gateway control" where
  "sample_replaced = sample_control\<lparr>ct_server := fst (snd sample_put), ct_world := snd (snd sample_put),
     ct_log := [(0, Clone sample_config)]\<rparr>"

lemma sample_named: "named_version (if_match (etag 0)) = Some 0"
  by (rule named_version_etag) (simp_all add: if_match_def header_get_def)

lemma sample_activates: "\<exists>gw. gw_activate (\<lambda>_. False) sample_parse sample_config sample_gateway = (None, gw)"
proof -
  have same: "same_restart_sections (Clone sample_config) sample_config"
    by (simp add: same_restart_sections_def Clone_def sample_config_def Default_def)
  have "\<exists>dp. Reconfigure sample_parse sample_config sample_server = Inr dp"
    using same by (simp add: Reconfigure_Inr sample_compilable) (simp add: current_def sample_server_def runtime_of_def)
  with same show ?thesis
    by (auto simp: gw_activate_def sample_gateway_def manager_Activate_def sample_manager_def)
qed

lemma sample_put_accepted: "fst sample_put = None"
proof -
  have "requireVersion 0 (if_match (etag 0)) = None" by (simp add: requireVersion_None sample_named)
  moreover have "cp_version (ct_server sample_control) = 0" "cp_activate (ct_server sample_control) = Some (gw_activate (\<lambda>_. False) sample_parse)"
    by (simp_all add: sample_control_def SetMetrics_def cp_NewServer_def)
  ultimately show ?thesis
    using sample_activates by (auto simp: sample_put_def replace_locked_def run_activate_def)
qed

lemma sample_replaced_reachable:
  "cp_reachable (gw_activate (\<lambda>_. False) sample_parse) gw_publish gw_active gw_sound sample_replaced"
proof -
  have "replace_locked (if_match (etag 0)) sample_config (ct_server sample_control) (ct_world sample_control) =
      (None, fst (snd sample_put), snd (snd sample_put))"
    using sample_put_accepted by (simp add: sample_put_def sample_control_def prod_eq_iff)
  from cp_step.Replace [OF this] have "cp_step gw_active gw_sound sample_control sample_replaced"
    by (simp add: sample_replaced_def sample_named sample_control_def)
  with sample_control_reachable show ?thesis by (rule cp_reachable.Next)
qed

theorem no_lost_update_witness: "cp_version (ct_server sample_replaced) = 1"
  using no_lost_update [OF sample_replaced_reachable] by (simp add: sample_replaced_def)

text \<open>
  Claim C20: a replacement with the entity tag of a read passes the version check exactly when the
  version is still the one that was read; otherwise it is refused with 409 and changes nothing.
\<close>

theorem replace_with_read_etag:
  assumes "header_get h ''If-Match'' = etag read" and "- (2 ^ 63) \<le> read" and "read < 2 ^ 63"
    and "read_config lib body = Inr cand"
  shows "if cp_version cp = read
    then replaceConfig lib h body cp s w =
      (case run_activate (cp_activate cp) cand s of
         (Some e, s1) \<Rightarrow> (cp\<lparr>cp_lastErr := e, cp_state := ''failed''\<rparr>, s1,
           writeError lib 422 (''activate configuration: '' @ e) w)
       | (None, s1) \<Rightarrow> (case commit (NewSnapshot cand) cp s1 of (cp1, s2) \<Rightarrow> (cp1, s2, report lib cp1 w)))
    else \<exists>msg. replaceConfig lib h body cp s w = (cp, s, writeError lib 409 msg w)"
proof -
  have named: "named_version h = Some read" using assms(1-3) by (rule named_version_etag)
  show ?thesis
  proof (cases "cp_version cp = read")
    case True
    then have "requireVersion (cp_version cp) h = None" by (simp add: requireVersion_None named)
    with True assms(4) show ?thesis
      by (auto simp: replaceConfig_def replace_locked_def finish_def split: prod.split option.split)
  next
    case False
    then have "requireVersion (cp_version cp) h \<noteq> None" by (simp add: requireVersion_None named)
    then obtain msg where "requireVersion (cp_version cp) h = Some msg" by blast
    with False assms(4) show ?thesis
      by (auto simp: replaceConfig_def replace_locked_def finish_def)
  qed
qed

definition sample_cp_lib :: cp_lib where
  "sample_cp_lib = \<lparr>lib_encode = (\<lambda>_. ''{}''), lib_config_json = (\<lambda>_. JObject []),
     lib_decode_config = (\<lambda>s. if has_prefix s ''sample'' then Inr (sample_config, drop 6 s) else Inl ''bad''),
     lib_decode_member = (\<lambda>s. Inl ''bad''), lib_decode_target = (\<lambda>s. Inl ''bad''),
     lib_url_parse = sample_parse, lib_table = (\<lambda>_. False), lib_openapi = [], lib_docs = []\<rparr>"

theorem replace_with_read_etag_witness:
  "\<exists>msg. replaceConfig sample_cp_lib (if_match (etag 4)) ''sample'' (ct_server sample_control) sample_gateway new_response =
     (ct_server sample_control, sample_gateway, writeError sample_cp_lib 409 msg new_response)"
proof -
  have "is_ok (Validate sample_parse sample_config)" using sample_compilable by (simp add: compilable_def)
  then have "read_config sample_cp_lib ''sample'' = Inr sample_config"
    by (cases "Validate sample_parse sample_config") (simp_all add: read_config_def decodeJSON_def sample_cp_lib_def max_body_def)
  moreover have "header_get (if_match (etag 4)) ''If-Match'' = etag 4" by (simp add: if_match_def header_get_def)
  ultimately show ?thesis
    using replace_with_read_etag [of "if_match (etag 4)" 4 sample_cp_lib "''sample''" sample_config "ct_server sample_control"]
    by (simp add: sample_control_def SetMetrics_def cp_NewServer_def)
qed

text \<open>
  Claim C21: a rollback right after a replacement brings back the configuration from before it, as the
  same snapshot, and makes the replaced one the next rollback's target; the version moves on by two.
\<close>

theorem rollback_undoes_replace:
  assumes "replace_locked h1 cand cp s = (None, cp1, s1)" and "rollback_locked h2 cp1 s1 = (None, cp2, s2)"
  shows "cp_config cp2 = cp_config cp \<and> cp_previous cp2 = Some (NewSnapshot cand) \<and>
    cp_version cp2 = i64 (cp_version cp + 2) \<and>
    named_version h1 = Some (cp_version cp) \<and> named_version h2 = Some (cp_version cp1)"
proof -
  from replace_accepted [OF assms(1)] obtain s' where n1: "named_version h1 = Some (cp_version cp)"
    and c1: "commit (NewSnapshot cand) cp s' = (cp1, s1)" by blast
  from rollback_accepted [OF assms(2)] obtain prev s'' where n2: "named_version h2 = Some (cp_version cp1)"
    and p: "cp_previous cp1 = Some prev" and c2: "commit prev cp1 s'' = (cp2, s2)" by blast
  from commit_fields [OF c1] commit_fields [OF c2] p n1 n2 show ?thesis by (simp add: algebra_simps)
qed

theorem rollback_undoes_replace_witness:
  "\<exists>cp1 cp2 :: unit ControlServer. \<exists>s1 s2.
     replace_locked (if_match ''0'') (Default\<lparr>Limits := (Limits Default)\<lparr>MaxInFlight := 7\<rparr>\<rparr>) (cp_NewServer Default []) () = (None, cp1, s1) \<and>
     rollback_locked (if_match ''1'') cp1 s1 = (None, cp2, s2) \<and> cp_config cp2 = NewSnapshot Default"
proof -
  let ?new = "Default\<lparr>Limits := (Limits Default)\<lparr>MaxInFlight := 7\<rparr>\<rparr>"
  have n: "named_version (if_match ''0'') = Some 0" "named_version (if_match ''1'') = Some 1" by code_simp+
  let ?cp0 = "cp_NewServer Default [] :: unit ControlServer"
  have cp0: "cp_version ?cp0 = 0" "cp_activate ?cp0 = None" "cp_config ?cp0 = NewSnapshot Default"
    by (simp_all add: cp_NewServer_def)
  obtain cp1 s1 where c1: "commit (NewSnapshot ?new) ?cp0 () = (cp1, s1)"
    by (rule that [OF surjective_pairing])
  have "requireVersion 0 (if_match ''0'') = None" by (simp add: requireVersion_None n)
  then have r1: "replace_locked (if_match ''0'') ?new ?cp0 () = (None, cp1, s1)"
    by (simp add: replace_locked_def run_activate_def cp0 c1)
  have f: "cp_version cp1 = 1" "cp_previous cp1 = Some (NewSnapshot Default)" "cp_activate cp1 = None"
    using commit_fields [OF c1] by (simp_all add: cp0)
  obtain cp2 s2 where c2: "commit (NewSnapshot Default) cp1 s1 = (cp2, s2)"
    by (rule that [OF surjective_pairing])
  have "requireVersion 1 (if_match ''1'') = None" by (simp add: requireVersion_None n)
  then have r2: "rollback_locked (if_match ''1'') cp1 s1 = (None, cp2, s2)"
    using c2 by (simp add: rollback_locked_def run_activate_def f)
  from rollback_undoes_replace [OF r1 r2] have "cp_config cp2 = NewSnapshot Default" by (simp add: cp_NewServer_def)
  with r1 r2 show ?thesis by blast
qed

text \<open>
  Once the server drains, no request to the control plane makes it ready again, and \<^verbatim>\<open>/ready\<close>
  answers 503 whatever the cluster says.
\<close>

lemma draining_is_final:
  assumes "\<not> cp_readyState cp" and "cp_Handler lib pprof body cp s req w = (cp', s', w')"
  shows "\<not> cp_readyState cp' \<and> status_of (ready lib cp' s'' new_response) = Some 503"
proof -
  have same: "cp_readyState cp1 = cp_readyState cp" if "replace_locked h cand cp s = (r, cp1, s1)" for h cand r cp1 s1
    using that by (auto simp: replace_locked_def commit_def Let_def split: option.splits prod.splits)
  have same': "cp_readyState cp1 = cp_readyState cp" if "rollback_locked h cp s = (r, cp1, s1)" for h r cp1 s1
    using that by (auto simp: rollback_locked_def commit_def Let_def split: option.splits prod.splits)
  have rep: "cp_readyState cp1 = cp_readyState cp" if "replaceConfig lib (Header req) body cp s w = (cp1, s1, w1)" for cp1 s1 w1
    using that same by (auto simp: replaceConfig_def split: sum.splits prod.splits)
  have roll: "cp_readyState cp1 = cp_readyState cp" if "rollbackConfig lib (Header req) cp s w = (cp1, s1, w1)" for cp1 s1 w1
    using that same' by (auto simp: rollbackConfig_def split: prod.splits)
  have "cp_readyState cp1 = cp_readyState cp" if "cp_serve lib pprof ep ms req body cp s w = (cp1, s1, w1)" for ep ms cp1 s1 w1
    using that rep roll by (cases ep) (auto simp: cp_serve_def)
  with assms have "\<not> cp_readyState cp'" by (auto simp: cp_Handler_def split: mux_result.splits)
  then show ?thesis
    by (simp add: ready_def writeJSON_def write_body_def write_header_def status_of_def set_header_def
        new_response_def Let_def)
qed

definition bare_get :: "string \<Rightarrow> request" where
  "bare_get path = sample_request\<lparr>req_URL := \<lparr>Scheme = [], Host = [], Path = path, RawPath = [], RawQuery = []\<rparr>\<rparr>"

text \<open>But a change that is accepted while draining relabels the state, and \<^verbatim>\<open>/ready\<close> reports "active".\<close>

lemma draining_state_overwritten:
  assumes "replace_locked h cand (SetDraining cp) s = (None, cp', s')"
  shows "cp_state cp' = ''active'' \<and> \<not> cp_readyState cp'"
proof -
  from replace_accepted [OF assms] obtain s1 where "commit (NewSnapshot cand) (SetDraining cp) s1 = (cp', s')" by blast
  from commit_fields [OF this] show ?thesis by (simp add: SetDraining_def)
qed

text \<open>
  The entity tag of a reply is the version at the time of the reply's own critical section: when
  another change was accepted in between, it is that change's.
\<close>

lemma report_etag: "header_get (case resp_sent (report lib cp new_response) of Some (status, h) \<Rightarrow> h | None \<Rightarrow> Map.empty) ''ETag''
    = etag (cp_version cp)"
proof -
  have "CanonicalHeaderKey ''ETag'' = ''Etag''" by code_simp
  then show ?thesis
    by (simp add: report_def writeStatus_def writeJSON_def write_body_def write_header_def set_header_def
        new_response_def header_get_set Let_def)
qed

section \<open>Settings that the API cannot carry\<close>

text \<open>
  The fields with the tag \<^verbatim>\<open>json:"-"\<close>: a decoder never sets them, so they are empty in every
  configuration that comes with a request.
\<close>

definition hidden_empty :: "Config \<Rightarrow> bool" where
  "hidden_empty c \<longleftrightarrow>
     TLSCertFile (Config.Server c) = [] \<and> TLSKeyFile (Config.Server c) = [] \<and>
     ClientSecretFile (Auth c) = [] \<and> SessionSecretFile (Auth c) = [] \<and>
     OnLeaderCommand (Cluster c) = [] \<and> OnFollowerCommand (Cluster c) = []"

definition decodes_visible :: "cp_lib \<Rightarrow> bool" where
  "decodes_visible lib \<longleftrightarrow> (\<forall>body c rest. lib_decode_config lib body = Inr (c, rest) \<longrightarrow> hidden_empty c)"

text \<open>A configuration that uses one of the hidden settings.\<close>

definition uses_hidden :: "Config \<Rightarrow> bool" where
  "uses_hidden c \<longleftrightarrow> Mode (Auth c) = ''oidc'' \<or> \<not> hidden_empty c"

lemma read_config_visible:
  assumes "decodes_visible lib" and "read_config lib body = Inr cand"
  shows "hidden_empty cand \<and> Mode (Auth cand) \<noteq> ''oidc''"
proof -
  from assms(2) obtain c where c: "decodeJSON (lib_decode_config lib) body = Inr c"
    "(case Validate (lib_url_parse lib) c of Inl e \<Rightarrow> Inl (config_error_text (lib_table lib) e) | Inr _ \<Rightarrow> Inr c) = Inr cand"
    by (auto simp: read_config_def and_then_eq_Inr)
  then have "c = cand" and valid: "is_ok (Validate (lib_url_parse lib) cand)"
    by (cases "Validate (lib_url_parse lib) c"; simp)+
  with c(1) obtain rest where "lib_decode_config lib (take max_body body) = Inr (cand, rest)"
    by (auto simp: decodeJSON_def split: sum.splits if_splits)
  with assms(1) have h: "hidden_empty cand" by (auto simp: decodes_visible_def)
  have "valid_config (lib_url_parse lib) cand" using valid by (simp add: Validate_ok)
  with h show ?thesis by (auto simp: hidden_empty_def valid_config_def valid_auth_def)
qed

text \<open>
  Claim C39: when the running configuration uses OpenID Connect login, TLS or leadership commands, no
  replacement over the API is ever accepted, even of the configuration just read: the settings
  with the tag \<^verbatim>\<open>json:"-"\<close> are missing from the body, and without them the candidate is invalid or
  differs in a section that needs a restart.
\<close>

theorem hidden_settings_block_replace:
  assumes "cp_reachable (gw_activate table parse) gw_publish gw_active gw_sound c" and "decodes_visible lib"
    and "uses_hidden (cp_current (ct_server c))"
    and "replaceConfig lib h body (ct_server c) (ct_world c) w = (cp', s', w')"
  shows "cp_config cp' = cp_config (ct_server c) \<and> cp_version cp' = cp_version (ct_server c)"
proof (cases "read_config lib body")
  case (Inl msg)
  with assms(4) show ?thesis by (simp add: replaceConfig_def)
next
  case (Inr cand)
  obtain r where r: "replace_locked h cand (ct_server c) (ct_world c) = (r, cp', s')"
    using assms(4) Inr by (auto simp: replaceConfig_def split: prod.splits)
  show ?thesis
  proof (cases r)
    case (Some e)
    with refused_keeps [of h cand "ct_server c" "ct_world c" e cp' s'] r show ?thesis by simp
  next
    case None
    have inv: "control_inv (gw_activate table parse) gw_publish gw_active gw_sound c"
      using assms(1) by (rule manager.cp_reachable_inv)
    from replace_accepted [OF r [unfolded None]] inv obtain s1
      where act: "gw_activate table parse cand (ct_world c) = (None, s1)"
      by (auto simp: control_inv_def run_activate_def)
    then have same: "same_restart_sections (mgr_config (gw_manager (ct_world c))) cand"
      by (auto simp: gw_activate_def manager_Activate_def split: prod.splits if_splits)
    have "cp_current (ct_server c) = mgr_config (gw_manager (ct_world c))"
      using inv by (simp add: control_inv_def gw_active_def)
    with assms(3) same have "Mode (Auth cand) = ''oidc'' \<or> \<not> hidden_empty cand"
      by (auto simp: uses_hidden_def same_restart_sections_def hidden_empty_def)
    with read_config_visible [OF assms(2) Inr] show ?thesis by simp
  qed
qed

definition sample_tls_config :: Config where
  "sample_tls_config = sample_config\<lparr>Config.Server := (Config.Server sample_config)\<lparr>TLSCertFile := ''cert'', TLSKeyFile := ''key''\<rparr>\<rparr>"

lemma sample_tls_compilable: "compilable sample_parse sample_tls_config"
proof -
  have "is_ok (Validate sample_parse sample_tls_config)" by code_simp
  then show ?thesis
    by (simp add: compilable_def sample_tls_config_def sample_config_def upstream_ok_def absolute_url_def sample_parse_def)
qed

lemma started_control:
  assumes "compilable parse cfg"
  shows "\<exists>m. cp_reachable (gw_activate table parse) gw_publish gw_active gw_sound
    \<lparr>ct_server = SetMetrics (Some gw_publish) (cp_NewServer cfg [gw_activate table parse]),
     ct_world = \<lparr>gw_manager = m, gw_metrics = new_metrics\<rparr>, ct_log = []\<rparr>"
proof -
  have "compile parse None cfg = Inr (runtime_of parse None cfg)" using assms by (simp add: compile_Inr)
  then obtain m where "manager_New parse cfg None True = Inr m"
    by (simp add: manager_New_def NewServerWithEvents_def ReconfigureWithAuthorizer_def)
  from manager_New_inv [OF this] show ?thesis
    by (intro exI [of _ m] cp_reachable.Start) (simp_all add: gw_sound_def gw_active_def)
qed

theorem hidden_settings_block_replace_witness:
  "\<exists>c :: gateway control. uses_hidden (cp_current (ct_server c)) \<and>
     cp_version (fst (replaceConfig sample_cp_lib (if_match ''0'') ''sample'' (ct_server c) (ct_world c) new_response)) = cp_version (ct_server c)"
proof -
  obtain m where reach: "cp_reachable (gw_activate (\<lambda>_. False) sample_parse) gw_publish gw_active gw_sound
    \<lparr>ct_server = SetMetrics (Some gw_publish) (cp_NewServer sample_tls_config [gw_activate (\<lambda>_. False) sample_parse]),
     ct_world = \<lparr>gw_manager = m, gw_metrics = new_metrics\<rparr>, ct_log = []\<rparr>" (is "cp_reachable _ _ _ _ ?c")
    using started_control [OF sample_tls_compilable] by blast
  have vis: "decodes_visible sample_cp_lib"
    by (simp add: decodes_visible_def sample_cp_lib_def hidden_empty_def sample_config_def Default_def)
  have hid: "uses_hidden (cp_current (ct_server ?c))"
    by (simp add: uses_hidden_def hidden_empty_def cp_current_def SetMetrics_def cp_NewServer_def
        NewSnapshot_def snapshot_Config_def Clone_def sample_tls_config_def)
  let ?run = "replaceConfig sample_cp_lib (if_match ''0'') ''sample'' (ct_server ?c) (ct_world ?c) new_response"
  have "?run = (fst ?run, fst (snd ?run), snd (snd ?run))" by simp
  from hidden_settings_block_replace [OF reach vis hid this] hid show ?thesis by blast
qed

section \<open>Which requests change anything\<close>

text \<open>The endpoints whose handlers can change the server's or its callbacks' state.\<close>

fun changing :: "endpoint \<Rightarrow> bool" where
  "changing ReplaceConfig = True"
| "changing RollbackConfig = True"
| "changing AddMember = True"
| "changing RemoveMember = True"
| "changing Transfer = True"
| "changing ep = False"

lemma serve_changes:
  "cp_serve lib pprof ep ms req body cp s w = (cp', s', w') \<Longrightarrow> \<not> changing ep \<Longrightarrow> (cp', s') = (cp, s)"
  by (cases ep) (auto simp: cp_serve_def)

text \<open>Their methods and paths: literal segments and the rest.\<close>

definition changing_paths :: "(string \<times> string list \<times> pattern_segment list) list" where
  "changing_paths =
     [(''PUT'', [''api'', ''v1'', ''config''], []),
      (''POST'', [''api'', ''v1'', ''config'', ''rollback''], []),
      (''POST'', [''api'', ''v1'', ''cluster'', ''members''], []),
      (''DELETE'', [''api'', ''v1'', ''cluster'', ''members''], [Wildcard]),
      (''POST'', [''api'', ''v1'', ''cluster'', ''leadership'', ''transfer''], [])]"

lemma changing_patterns:
  "[(pat_method p, pat_segments p). p \<leftarrow> control_patterns, changing (pat_handler p)] =
     map (\<lambda>(meth, ls, segs). (meth, map Literal ls @ segs)) changing_paths"
  by code_simp

lemma changing_request:
  assumes "mux_find control_patterns req = Found ep ms" and "changing ep"
  shows "\<exists>(meth, ls, segs) \<in> set changing_paths. Method req = meth \<and>
    (\<exists>path q. pattern_fits segs path ms \<and> (path = [] \<or> hd path = CHR ''/'') \<and> PathUnescape path = Some q \<and>
      Path (req_URL req) = slashed ls @ q)"
proof -
  let ?path = "EscapedPath (req_URL req)"
  from mux_found [OF assms(1)] assms(2) obtain p where p: "p \<in> set control_patterns" "changing (pat_handler p)"
    "method_fits (Method req) p" "pattern_fits (pat_segments p) ?path ms" by blast
  then have "(pat_method p, pat_segments p) \<in> set [(pat_method p, pat_segments p). p \<leftarrow> control_patterns, changing (pat_handler p)]"
    by auto
  then obtain ls segs where mem: "(pat_method p, ls, segs) \<in> set changing_paths" and segs: "pat_segments p = map Literal ls @ segs"
    unfolding changing_patterns by auto
  have "pat_method p \<notin> {''GET'', [], ''CONNECT''}" "''/'' \<notin> set ls" using mem by (auto simp: changing_paths_def)
  with p(3) have meth: "Method req = pat_method p" "Method req \<noteq> ''CONNECT''" by (auto simp: method_fits_def)
  with mux_found_rooted [OF assms(1)] have "?path = [] \<or> hd ?path = CHR ''/''" by blast
  from literal_path [OF p(4) [unfolded segs] \<open>''/'' \<notin> set ls\<close> this EscapedPath_decodes] mem meth show ?thesis by blast
qed

text \<open>
  Claim C5: a request to the control plane changes something (the configuration, the state, the runtime
  or the cluster) only if it is one of five: a PUT of the configuration, the POSTs that roll back, add a
  member and transfer the leadership, and the DELETE of a member, each at exactly its path. GET and HEAD
  never change anything, whatever spelling or escapes the path has.
\<close>

theorem control_changes_only_by:
  assumes "cp_Handler lib pprof body cp s req w = (cp', s', w')" and "(cp', s') \<noteq> (cp, s)"
  shows "(Method req, Path (req_URL req)) \<in>
      {(''PUT'', ''/api/v1/config''), (''POST'', ''/api/v1/config/rollback''), (''POST'', ''/api/v1/cluster/members''),
       (''POST'', ''/api/v1/cluster/leadership/transfer'')} \<or>
    Method req = ''DELETE'' \<and> (\<exists>i. Path (req_URL req) = ''/api/v1/cluster/members/'' @ i)"
proof -
  from assms obtain ep ms where found: "mux_find control_patterns req = Found ep ms"
    and serve: "cp_serve lib pprof ep ms req body cp s w = (cp', s', w')"
    by (auto simp: cp_Handler_def split: mux_result.splits)
  have "changing ep" using serve_changes [OF serve] assms(2) by blast
  from changing_request [OF found this] obtain ls segs path q where mem: "(Method req, ls, segs) \<in> set changing_paths"
    and fits: "pattern_fits segs path ms" "path = [] \<or> hd path = CHR ''/''" "PathUnescape path = Some q"
    and url: "Path (req_URL req) = slashed ls @ q" by blast
  show ?thesis
  proof (cases "segs = []")
    case True
    with fits have "q = []" by simp
    with mem url True show ?thesis by (auto simp: changing_paths_def slashed_def)
  next
    case False
    with fits(1,2) mem have "path \<noteq> []" "hd path = CHR ''/''" "fst (first_segment path) \<noteq> ''/''"
      by (auto simp: changing_paths_def)
    from segment_path [OF this fits(3)] obtain q2 where "q = CHR ''/'' # fst (first_segment path) @ q2" by blast
    with mem url False show ?thesis by (auto simp: changing_paths_def slashed_def)
  qed
qed

text \<open>A request by method and path.\<close>

definition operation_request :: "string \<Rightarrow> string \<Rightarrow> request" where
  "operation_request meth path = (bare_get path)\<lparr>Method := meth\<rparr>"

text \<open>A cluster of which only the number of removals is seen.\<close>

definition sample_removals :: "nat cluster_ops" where
  "sample_removals = \<lparr>co_status = (\<lambda>_. Inl []), co_members = (\<lambda>_. Inl []), co_sync = (\<lambda>_. Inl []),
     co_add = (\<lambda>_ _ n. (Some [], n)), co_remove = (\<lambda>_ n. (None, Suc n)), co_transfer = (\<lambda>_ n. (Some [], n))\<rparr>"

theorem control_changes_only_by_witness:
  "\<exists>req cp' s' w'. cp_Handler sample_cp_lib (\<lambda>_ w. w) [] (SetCluster (Some sample_removals) (cp_NewServer Default [])) 0 req new_response =
       (cp', s', w') \<and> s' = 1 \<and> Method req = ''DELETE'' \<and> (\<exists>i. Path (req_URL req) = ''/api/v1/cluster/members/'' @ i)"
proof -
  let ?req = "operation_request ''DELETE'' ''/api/v1/cluster/members/n2''"
  let ?cp = "SetCluster (Some sample_removals) (cp_NewServer Default [])"
  have "mux_find control_patterns ?req = Found RemoveMember [''n2'']" by code_simp
  moreover obtain s' w' where rem: "removeClusterMember sample_cp_lib ''n2'' ?cp 0 new_response = (s', w')" by (metis surj_pair)
  ultimately have run: "cp_Handler sample_cp_lib (\<lambda>_ w. w) [] ?cp 0 ?req new_response = (?cp, s', w')"
    by (simp add: cp_Handler_def cp_serve_def path_id_def)
  have one: "s' = 1" using rem by (simp add: removeClusterMember_def SetCluster_def sample_removals_def)
  then have "(?cp, s') \<noteq> (?cp, 0)" by simp
  from control_changes_only_by [OF run this] have "\<exists>i. Path (req_URL ?req) = ''/api/v1/cluster/members/'' @ i"
    by (auto simp: operation_request_def)
  moreover have "Method ?req = ''DELETE''" by (simp add: operation_request_def)
  ultimately show ?thesis using run one by blast
qed

end
