(* ===== verification/Cluster.thy ===== *)
theory Cluster imports ControlPlane Auth begin

text \<open>
  The package \<^verbatim>\<open>internal/cluster\<close>: the replicated table of client assignments (the state machine under
  Raft), the placement and forwarding of requests, membership, the loops that join a cluster and
  follow its leadership, and the HTTP endpoints. Raft itself is a parameter: the record
  \<open>raft_ops\<close> over its state \<open>'r\<close>. JSON encoders and decoders are parameters too.
\<close>

unbundle bit_operations_syntax

section \<open>The replicated state machine\<close>

record Assignment =
  asg_ClientKey :: string
  asg_NodeID :: string
  asg_PeerURL :: string
  asg_ExpiresAt :: time

record command =
  cmd_Type :: string
  cmd_Assignment :: Assignment

type_synonym assignments = "string \<rightharpoonup> Assignment"

definition no_assignment :: Assignment where
  "no_assignment = \<lparr>asg_ClientKey = [], asg_NodeID = [], asg_PeerURL = [], asg_ExpiresAt = 0\<rparr>"

text \<open>A log entry that does not decode, or is no assignment, changes nothing.\<close>

definition fsm_Apply :: "(string \<Rightarrow> command option) \<Rightarrow> string \<Rightarrow> assignments \<Rightarrow> assignments" where
  "fsm_Apply dec data s =
     (case dec data of
        None \<Rightarrow> s
      | Some c \<Rightarrow>
          if cmd_Type c \<noteq> ''assign'' then s
          else s(asg_ClientKey (cmd_Assignment c) \<mapsto> cmd_Assignment c))"

definition fsm_get :: "string \<Rightarrow> assignments \<Rightarrow> Assignment option" where
  "fsm_get key s = s key"

definition replay :: "(string \<Rightarrow> command option) \<Rightarrow> string list \<Rightarrow> assignments \<Rightarrow> assignments" where
  "replay dec log s = foldl (\<lambda>s data. fsm_Apply dec data s) s log"

subsection \<open>The table in memory\<close>

text \<open>
  The table is a Go map, hence a reference: \<open>maps\<close> is the memory of such maps, and the state machine and
  a snapshot each have the address of one. A snapshot is persisted while more of the log is applied.
\<close>

type_synonym maps = "assignments list"

definition apply_at :: "(string \<Rightarrow> command option) \<Rightarrow> nat \<Rightarrow> string \<Rightarrow> maps \<Rightarrow> maps" where
  "apply_at dec fsm data h = h[fsm := fsm_Apply dec data (h ! fsm)]"

text \<open>The loop of \<^verbatim>\<open>Snapshot\<close> over the keys of the table, in the order of the \<^verbatim>\<open>range\<close>.\<close>

definition copy_entry :: "nat \<Rightarrow> nat \<Rightarrow> string \<Rightarrow> maps \<Rightarrow> maps" where
  "copy_entry src dst key h = h[dst := (h ! dst)(key := (h ! src) key)]"

definition fsm_Snapshot :: "(assignments \<Rightarrow> string list) \<Rightarrow> nat \<Rightarrow> maps \<Rightarrow> nat \<times> maps" where
  "fsm_Snapshot order fsm h =
     (let dst = length h in (dst, fold (copy_entry fsm dst) (order (h ! fsm)) (h @ [Map.empty])))"

text \<open>What \<^verbatim>\<open>Persist\<close> writes and whether it closes or cancels its sink; the write and close results are arguments.\<close>

definition snapshot_Persist ::
  "(assignments \<Rightarrow> string option) \<Rightarrow> (string \<Rightarrow> bool) \<Rightarrow> bool \<Rightarrow> nat \<Rightarrow> maps \<Rightarrow> string option" where
  "snapshot_Persist enc written closed snap h =
     (case enc (h ! snap) of
        None \<Rightarrow> None
      | Some data \<Rightarrow> if written data \<and> closed then Some data else None)"

text \<open>Decoding makes a new map, which the state machine takes over; after an error it keeps its own.\<close>

definition fsm_Restore :: "(string \<Rightarrow> assignments option) \<Rightarrow> string \<Rightarrow> nat \<Rightarrow> maps \<Rightarrow> bool \<times> nat \<times> maps" where
  "fsm_Restore dec data fsm h =
     (case dec data of None \<Rightarrow> (False, fsm, h) | Some m \<Rightarrow> (True, length h, h @ [m]))"

section \<open>Raft as the code sees it\<close>

record raft_server =
  rs_ID :: string
  rs_Address :: string
  rs_Suffrage :: string

text \<open>Errors are their texts; \<open>rf_apply\<close> commits a command.\<close>

record 'r raft_ops =
  rf_state :: "'r \<Rightarrow> string"
  rf_leader :: "'r \<Rightarrow> string"
  rf_stats :: "'r \<Rightarrow> string \<Rightarrow> string"
  rf_config :: "'r \<Rightarrow> string + raft_server list"
  rf_add :: "string \<Rightarrow> string \<Rightarrow> 'r \<Rightarrow> string option \<times> 'r"
  rf_remove :: "string \<Rightarrow> 'r \<Rightarrow> string option \<times> 'r"
  rf_transfer :: "'r \<Rightarrow> string option \<times> 'r"
  rf_transfer_to :: "string \<Rightarrow> string \<Rightarrow> 'r \<Rightarrow> string option \<times> 'r"
  rf_apply :: "string \<Rightarrow> 'r \<Rightarrow> string option \<times> 'r"

definition IsLeader :: "'r raft_ops \<Rightarrow> 'r \<Rightarrow> bool" where
  "IsLeader ops r \<longleftrightarrow> rf_state ops r = ''Leader''"

definition LeaderAddress :: "'r raft_ops \<Rightarrow> 'r \<Rightarrow> string" where
  "LeaderAddress ops r = rf_leader ops r"

text \<open>A node whose \<^verbatim>\<open>raft\<close> field is nil (never from \<^verbatim>\<open>New\<close>) is \<open>None\<close>.\<close>

definition node_Ready :: "'r raft_ops \<Rightarrow> 'r option \<Rightarrow> bool \<times> string" where
  "node_Ready ops n =
     (case n of
        None \<Rightarrow> (False, ''cluster_unavailable'')
      | Some r \<Rightarrow>
          if rf_state ops r = ''Shutdown'' then (False, ''cluster_unavailable'')
          else if LeaderAddress ops r = [] then (False, ''cluster_no_leader'')
          else (True, ''ready''))"

text \<open>
  \<^verbatim>\<open>Close\<close>: cancelling the workers' context ends the lists that \<open>leadershipLoop\<close> and \<open>joinLoop\<close> run over;
  \<open>shutdown\<close> is Raft's, with its error.
\<close>

definition node_Close :: "('r \<Rightarrow> string option \<times> 'r) \<Rightarrow> 'r option \<Rightarrow> string option \<times> 'r option" where
  "node_Close shutdown n =
     (case n of
        None \<Rightarrow> (None, None)
      | Some r \<Rightarrow> (case shutdown r of (e, r') \<Rightarrow> (e, Some r')))"

text \<open>A closed node reports that it is not ready, by the documented state of a Raft node after its shutdown.\<close>

lemma closed_node_not_ready:
  assumes "\<And>r. rf_state ops (snd (shutdown r)) = ''Shutdown''"
  shows "node_Ready ops (snd (node_Close shutdown n)) = (False, ''cluster_unavailable'')"
  using assms by (auto simp: node_Close_def node_Ready_def split: option.split prod.split) (metis snd_conv)

section \<open>Membership\<close>

definition node_Join :: "'r raft_ops \<Rightarrow> ClusterPeer \<Rightarrow> 'r \<Rightarrow> string option \<times> 'r" where
  "node_Join ops peer r = rf_add ops (peer_ID peer) (peer_Address peer) r"

definition AddClusterMember :: "'r raft_ops \<Rightarrow> string \<Rightarrow> string \<Rightarrow> 'r \<Rightarrow> string option \<times> 'r" where
  "AddClusterMember ops i addr r =
     (if i = [] \<or> addr = [] then (Some ''member id and address are required'', r) else rf_add ops i addr r)"

definition RemoveClusterMember :: "'r raft_ops \<Rightarrow> ClusterConfig \<Rightarrow> string \<Rightarrow> 'r \<Rightarrow> string option \<times> 'r" where
  "RemoveClusterMember ops cfg i r =
     (if i = [] then (Some ''member id is required'', r)
      else if i = NodeID cfg then (Some ''removing the local cluster member is not supported'', r)
      else rf_remove ops i r)"

definition TransferLeadership :: "(nat \<Rightarrow> bool) \<Rightarrow> 'r raft_ops \<Rightarrow> string \<Rightarrow> 'r \<Rightarrow> string option \<times> 'r" where
  "TransferLeadership table ops i r =
     (if i = [] then rf_transfer ops r
      else
        (case rf_config ops r of
           Inl e \<Rightarrow> (Some e, r)
         | Inr srvs \<Rightarrow>
             (case find (\<lambda>s. rs_ID s = i) srvs of
                Some s \<Rightarrow> rf_transfer_to ops (rs_ID s) (rs_Address s) r
              | None \<Rightarrow> (Some (''cluster member '' @ go_quote table i @ '' was not found''), r))))"

definition stats_json :: "'r raft_ops \<Rightarrow> 'r \<Rightarrow> json" where
  "stats_json ops r = JObject (map (\<lambda>k. (k, JString (rf_stats ops r k)))
     [''commit_index'', ''applied_index'', ''last_log_index''])"

definition node_ClusterStatus :: "'r raft_ops \<Rightarrow> ClusterConfig \<Rightarrow> 'r option \<Rightarrow> string + json" where
  "node_ClusterStatus ops cfg n =
     (case n of
        None \<Rightarrow> Inl ''cluster is unavailable''
      | Some r \<Rightarrow> Inr (JObject
          [(''node_id'', JString (NodeID cfg)), (''state'', JString (rf_state ops r)),
           (''leader'', JBool (IsLeader ops r)), (''leader_address'', JString (LeaderAddress ops r)),
           (''stats'', stats_json ops r)]))"

definition node_ClusterMembers :: "'r raft_ops \<Rightarrow> ClusterConfig \<Rightarrow> 'r \<Rightarrow> string + json" where
  "node_ClusterMembers ops cfg r =
     and_then (rf_config ops r)
       (\<lambda>srvs. Inr (JArray (map (\<lambda>s. JObject
          [(''id'', JString (rs_ID s)), (''address'', JString (rs_Address s)),
           (''suffrage'', JString (rs_Suffrage s)), (''is_self'', JBool (rs_ID s = NodeID cfg)),
           (''is_leader'', JBool (rs_ID s = NodeID cfg \<and> IsLeader ops r))]) srvs)))"

definition node_ClusterSync :: "'r raft_ops \<Rightarrow> ClusterConfig \<Rightarrow> 'r option \<Rightarrow> string + json" where
  "node_ClusterSync ops cfg n =
     (case n of
        None \<Rightarrow> Inl ''cluster is unavailable''
      | Some r \<Rightarrow> Inr (JObject
          [(''node_id'', JString (NodeID cfg)), (''leader_address'', JString (LeaderAddress ops r)),
           (''state'', JString (rf_state ops r)), (''commit_index'', JString (rf_stats ops r ''commit_index'')),
           (''applied_index'', JString (rf_stats ops r ''applied_index'')),
           (''last_log_index'', JString (rf_stats ops r ''last_log_index'')),
           (''in_sync'', JBool (rf_stats ops r ''commit_index'' = rf_stats ops r ''applied_index''))]))"

text \<open>The node as the control plane's cluster controller.\<close>

definition node_controller :: "(nat \<Rightarrow> bool) \<Rightarrow> 'r raft_ops \<Rightarrow> ClusterConfig \<Rightarrow> 'r cluster_ops" where
  "node_controller table ops cfg =
     \<lparr>co_status = (\<lambda>r. node_ClusterStatus ops cfg (Some r)), co_members = node_ClusterMembers ops cfg,
      co_sync = (\<lambda>r. node_ClusterSync ops cfg (Some r)), co_add = AddClusterMember ops,
      co_remove = RemoveClusterMember ops cfg, co_transfer = TransferLeadership table ops\<rparr>"

section \<open>Assignments\<close>

text \<open>
  \<^verbatim>\<open>Assign\<close>: refused by a follower; the expiry defaults to the configured lifetime; the encoded
  command goes to Raft.
\<close>

definition Assign ::
  "(nat \<Rightarrow> bool) \<Rightarrow> 'r raft_ops \<Rightarrow> (command \<Rightarrow> string option) \<Rightarrow> ClusterConfig \<Rightarrow> time \<Rightarrow> Assignment \<Rightarrow> 'r \<Rightarrow> string option \<times> 'r" where
  "Assign table ops enc cfg now a r =
     (if \<not> IsLeader ops r then (Some (''cluster leader is '' @ go_quote table (LeaderAddress ops r)), r)
      else
        let a' = (if asg_ExpiresAt a = 0 then a\<lparr>asg_ExpiresAt := now + AssignmentTTL cfg\<rparr> else a) in
        (case enc \<lparr>cmd_Type = ''assign'', cmd_Assignment = a'\<rparr> of
           None \<Rightarrow> (Some ''encode command'', r)
         | Some data \<Rightarrow> rf_apply ops data r))"

definition get_Assignment :: "time \<Rightarrow> string \<Rightarrow> assignments \<Rightarrow> Assignment option" where
  "get_Assignment now key s =
     (case fsm_get key s of
        None \<Rightarrow> None
      | Some a \<Rightarrow> if asg_ExpiresAt a < now then None else Some a)"

text \<open>The 32-bit FNV-1a hash.\<close>

definition fnv1a :: "string \<Rightarrow> 32 word" where
  "fnv1a s = foldl (\<lambda>h c. (h XOR of_nat (code c)) * 16777619) 2166136261 s"

definition cluster_members :: "ClusterConfig \<Rightarrow> (string \<times> string) list" where
  "cluster_members cfg = (NodeID cfg, []) # map (\<lambda>p. (peer_ID p, PublicURL p)) (elems (Peers cfg))"

definition assignmentFor :: "ClusterConfig \<Rightarrow> time \<Rightarrow> string \<Rightarrow> Assignment" where
  "assignmentFor cfg now key =
     (let members = cluster_members cfg;
          member = members ! unat (fnv1a key mod of_nat (length members))
      in \<lparr>asg_ClientKey = key, asg_NodeID = fst member, asg_PeerURL = snd member,
          asg_ExpiresAt = now + AssignmentTTL cfg\<rparr>)"

definition clientKey :: "request \<Rightarrow> string" where
  "clientKey req =
     (let value = header_get (Header req) ''X-Go-Serve-Client-Key'' in
      if value \<noteq> [] then value
      else (case SplitHost (RemoteAddr req) of Some host \<Rightarrow> host | None \<Rightarrow> RemoteAddr req))"

section \<open>Proxying\<close>

text \<open>
  An answer of another node: status, headers in order, body, and whether the body came in full. A
  client refuses to send a request whose \<^verbatim>\<open>RequestURI\<close> is set.
\<close>

record peer_reply =
  pr_status :: int
  pr_headers :: "(string \<times> string) list"
  pr_body :: string
  pr_complete :: bool

definition client_Do :: "(request \<Rightarrow> peer_reply option) \<Rightarrow> request \<Rightarrow> peer_reply option" where
  "client_Do send req = (if RequestURI req \<noteq> [] then None else send req)"

text \<open>The request that \<^verbatim>\<open>forward\<close> sends: the clone keeps the server request's \<^verbatim>\<open>RequestURI\<close>.\<close>

definition forwarded :: "url \<Rightarrow> request \<Rightarrow> request" where
  "forwarded base req =
     req\<lparr>req_URL := (req_URL req)\<lparr>Scheme := Scheme base, Host := Host base\<rparr>,
         Header := header_set ''X-Go-Serve-Forwarded'' ''1'' (Header req)\<rparr>"

definition forward ::
  "(string \<Rightarrow> url option) \<Rightarrow> (request \<Rightarrow> peer_reply option) \<Rightarrow> request \<Rightarrow> string \<Rightarrow> response \<Rightarrow> bool \<times> response" where
  "forward parse send req peer w =
     (case parse peer of
        None \<Rightarrow> (False, w)
      | Some base \<Rightarrow>
          (case client_Do send (forwarded base req) of
             None \<Rightarrow> (False, w)
           | Some reply \<Rightarrow>
               let w1 = w\<lparr>resp_header := foldl (\<lambda>h (k, v). header_add k v h) (resp_header w) (pr_headers reply)\<rparr>
               in (pr_complete reply, write_body (pr_body reply) (write_header (pr_status reply) w1))))"

text \<open>
  A node: Raft's state and the assignments its state machine has applied.
\<close>

record 'r node =
  nd_raft :: 'r
  nd_fsm :: assignments

text \<open>Where \<^verbatim>\<open>Proxy\<close> sends a request: to the handler behind it, or to a peer.\<close>

datatype placement = Here | Peer string

record proxy_env =
  px_now :: time
  px_expiry :: time
  px_assign :: time
  px_encode :: "command \<Rightarrow> string option"
  px_table :: "nat \<Rightarrow> bool"
  px_parse :: "string \<Rightarrow> url option"
  px_send :: "request \<Rightarrow> peer_reply option"

definition place ::
  "'r raft_ops \<Rightarrow> proxy_env \<Rightarrow> ClusterConfig \<Rightarrow> request \<Rightarrow> 'r node \<Rightarrow> placement \<times> 'r node" where
  "place ops e cfg req n =
     (if header_get (Header req) ''X-Go-Serve-Forwarded'' = ''1'' \<or>
         \<not> IsLeader ops (nd_raft n) \<and> LeaderAddress ops (nd_raft n) = []
      then (Here, n)
      else
        let key = clientKey req;
            found = get_Assignment (px_now e) key (nd_fsm n);
            go = (\<lambda>a. if asg_NodeID a = [] \<or> asg_NodeID a = NodeID cfg \<or> asg_PeerURL a = [] then Here
                   else Peer (asg_PeerURL a))
        in case found of
             Some a \<Rightarrow> (go a, n)
           | None \<Rightarrow>
               if IsLeader ops (nd_raft n) then
                 let a = assignmentFor cfg (px_expiry e) key in
                 (case Assign (px_table e) ops (px_encode e) cfg (px_assign e) a (nd_raft n) of
                    (Some err, r) \<Rightarrow> (Here, n\<lparr>nd_raft := r\<rparr>)
                  | (None, r) \<Rightarrow> (go a, n\<lparr>nd_raft := r\<rparr>))
               else (go no_assignment, n))"

text \<open>
  The handlers act on a program state \<open>'w\<close> that holds the node: \<open>get\<close> reads it and \<open>put\<close> writes it back.
\<close>

definition Proxy ::
  "'r raft_ops \<Rightarrow> proxy_env \<Rightarrow> ClusterConfig \<Rightarrow> ('w \<Rightarrow> 'r node) \<Rightarrow> ('r node \<Rightarrow> 'w \<Rightarrow> 'w) \<Rightarrow> 'w handler \<Rightarrow> 'w handler" where
  "Proxy ops e cfg get put next s req w =
     (case place ops e cfg req (get s) of
        (Here, n1) \<Rightarrow> next (put n1 s) req w
      | (Peer url, n1) \<Rightarrow>
          (case forward (px_parse e) (px_send e) req url w of
             (True, w1) \<Rightarrow> (put n1 s, req, w1)
           | (False, w1) \<Rightarrow> (put n1 s, req, http_error ''cluster peer unavailable'' 502 w1)))"

section \<open>The cluster's endpoints\<close>

definition assignment_json :: "(time \<Rightarrow> string) \<Rightarrow> Assignment \<Rightarrow> json" where
  "assignment_json show_time a = JObject
     [(''client_key'', JString (asg_ClientKey a)), (''node_id'', JString (asg_NodeID a)),
      (''peer_url'', JString (asg_PeerURL a)), (''expires_at'', JString (show_time (asg_ExpiresAt a)))]"

text \<open>\<open>dec\<close> reads a join request's body; \<open>clock 0\<close> and \<open>clock 1\<close> are the two readings for an expiry.\<close>

definition clusterHandler ::
  "'r raft_ops \<Rightarrow> cp_lib \<Rightarrow> (string \<Rightarrow> (string \<times> string) option) \<Rightarrow> (time \<Rightarrow> string) \<Rightarrow> (nat \<Rightarrow> time) \<Rightarrow>
   ClusterConfig \<Rightarrow> string \<Rightarrow> ('w \<Rightarrow> 'r node) \<Rightarrow> ('r node \<Rightarrow> 'w \<Rightarrow> 'w) \<Rightarrow> 'w handler \<Rightarrow> 'w handler" where
  "clusterHandler ops lib dec show_time clock cfg body get put next s req w =
     (let path = Path (req_URL req); n = get s; r = nd_raft n;
          err = (\<lambda>msg. JObject [(''error'', JString msg)]) in
      if path = ''/cluster/health'' then
        (s, req, writeJSON lib 200 (JObject [(''node_id'', JString (NodeID cfg)),
           (''leader'', JBool (IsLeader ops r)), (''leader_address'', JString (LeaderAddress ops r))]) w)
      else if path = ''/cluster/join'' \<and> Method req = ''POST'' then
        (case dec body of
           None \<Rightarrow> (s, req, writeJSON lib 400 (err ''id and address are required'') w)
         | Some (i, addr) \<Rightarrow>
             if i = [] \<or> addr = [] then (s, req, writeJSON lib 400 (err ''id and address are required'') w)
             else if \<not> IsLeader ops r then (s, req, writeJSON lib 503 (err ''cluster node is not leader'') w)
             else
               (case rf_add ops i addr r of
                  (Some e, r1) \<Rightarrow> (put (n\<lparr>nd_raft := r1\<rparr>) s, req, writeJSON lib 409 (err e) w)
                | (None, r1) \<Rightarrow>
                    (put (n\<lparr>nd_raft := r1\<rparr>) s, req, writeJSON lib 200 (JObject [(''status'', JString ''joined'')]) w)))
      else if path = ''/cluster/assignment'' then
        (case get_Assignment (clock 0) (query_get (RawQuery (req_URL req)) ''client_key'') (nd_fsm n) of
           None \<Rightarrow> (s, req, not_found w)
         | Some a \<Rightarrow>
             if asg_ExpiresAt a < clock 1 then (s, req, not_found w)
             else (s, req, writeJSON lib 200 (assignment_json show_time a) w))
      else next s req w)"

text \<open>The node's multiplexer: paths below \<^verbatim>\<open>/cluster/\<close> go to the cluster's handler.\<close>

definition node_patterns :: "bool pattern list" where
  "node_patterns = [handle [] ''/cluster/'' True, handle [] ''/'' False]"

definition node_Handler ::
  "'r raft_ops \<Rightarrow> cp_lib \<Rightarrow> (string \<Rightarrow> (string \<times> string) option) \<Rightarrow> (time \<Rightarrow> string) \<Rightarrow> (nat \<Rightarrow> time) \<Rightarrow>
   ClusterConfig \<Rightarrow> string \<Rightarrow> ('w \<Rightarrow> 'r node) \<Rightarrow> ('r node \<Rightarrow> 'w \<Rightarrow> 'w) \<Rightarrow> 'w handler \<Rightarrow> 'w handler" where
  "node_Handler ops lib dec show_time clock cfg body get put next s req w =
     (case mux_find node_patterns req of
        Found cluster ms \<Rightarrow>
          if cluster then clusterHandler ops lib dec show_time clock cfg body get put next s req w
          else next s req w
      | answer \<Rightarrow> (s, req, mux_answer (lib_url_parse lib) answer req w))"

section \<open>Loops\<close>

text \<open>
  The request that joins a cluster through a peer. The only header it sets is the content type.
\<close>

definition join_request :: "(string \<Rightarrow> url option) \<Rightarrow> ClusterPeer \<Rightarrow> request option" where
  "join_request parse peer =
     map_option
       (\<lambda>u. \<lparr>Method = ''POST'', req_Host = Host u, req_URL = u, RequestURI = [],
          Header = header_set ''Content-Type'' ''application/json'' Map.empty, RemoteAddr = [],
          ContentLength = 0, Signals = None\<rparr>)
       (parse (trim_right_set ''/'' (AdminURL peer) @ ''/cluster/join''))"

text \<open>
  One pass over the peers: whether one of them accepted, and the requests sent. \<open>send\<close> is the status
  a peer answers (\<open>None\<close>: no answer).
\<close>

fun join_round ::
  "(string \<Rightarrow> url option) \<Rightarrow> (request \<Rightarrow> int option) \<Rightarrow> ClusterPeer list \<Rightarrow> bool \<times> request list" where
  "join_round parse send [] = (False, [])"
| "join_round parse send (p # ps) =
     (if AdminURL p = [] then join_round parse send ps
      else
        (case join_request parse p of
           None \<Rightarrow> join_round parse send ps
         | Some req \<Rightarrow>
             (case send req of
                None \<Rightarrow> (case join_round parse send ps of (ok, sent) \<Rightarrow> (ok, req # sent))
              | Some status \<Rightarrow>
                  if 200 \<le> status \<and> status < 300 then (True, [req])
                  else (case join_round parse send ps of (ok, sent) \<Rightarrow> (ok, req # sent)))))"

text \<open>
  The loop: a pass, then another at each tick until one is accepted or the context is done. The list
  has what the peers answer in each pass; it ends when the context is done.
\<close>

fun joinLoop ::
  "(string \<Rightarrow> url option) \<Rightarrow> ClusterPeer list \<Rightarrow> (request \<Rightarrow> int option) list \<Rightarrow> bool \<times> request list" where
  "joinLoop parse peers [] = (False, [])"
| "joinLoop parse peers (send # rounds) =
     (case join_round parse send peers of
        (True, sent) \<Rightarrow> (True, sent)
      | (False, sent) \<Rightarrow> (case joinLoop parse peers rounds of (ok, rest) \<Rightarrow> (ok, sent @ rest)))"

datatype vip_call = OnLeader | OnFollower

text \<open>The leadership notifications read until the context is done, and the hook's calls.\<close>

fun leadership_from :: "bool \<Rightarrow> bool \<Rightarrow> bool list \<Rightarrow> vip_call list" where
  "leadership_from hook previous [] = []"
| "leadership_from hook previous (leader # ls) =
     (if leader = previous then leadership_from hook previous ls
      else
        (if hook then [if leader then OnLeader else OnFollower] else []) @ leadership_from hook leader ls)"

definition leadershipLoop :: "bool \<Rightarrow> bool list \<Rightarrow> vip_call list" where
  "leadershipLoop hook ls = leadership_from hook False ls"

text \<open>The command of a hook call: the shell command line (\<open>None\<close>: nothing is run).\<close>

definition hook_run :: "ClusterConfig \<Rightarrow> vip_call \<Rightarrow> string list option" where
  "hook_run cfg call =
     (let cmd = (case call of OnLeader \<Rightarrow> OnLeaderCommand cfg | OnFollower \<Rightarrow> OnFollowerCommand cfg) in
      if cmd = [] then None
      else Some [''/bin/sh'', ''-c'', cmd, ''go-serve-vip'', VirtualIP cfg, Interface cfg])"

text \<open>The voters that a bootstrapping node starts the cluster with.\<close>

definition bootstrap_servers :: "ClusterConfig \<Rightarrow> raft_server list" where
  "bootstrap_servers cfg =
     \<lparr>rs_ID = NodeID cfg, rs_Address = AdvertiseAddr cfg, rs_Suffrage = ''Voter''\<rparr> #
     map (\<lambda>p. \<lparr>rs_ID = peer_ID p, rs_Address = peer_Address p, rs_Suffrage = ''Voter''\<rparr>) (elems (Peers cfg))"

text \<open>
  \<^verbatim>\<open>New\<close>: the outcome of each step that touches the file system, the network or Raft (an error's
  text), the voters it bootstraps with, and whether it starts the join loop. That the cluster
  already exists is no error.
\<close>

record boot_env =
  bo_mkdir :: "string option"
  bo_store :: "string option"
  bo_snapshots :: "string option"
  bo_resolve :: "string option"
  bo_transport :: "string option"
  bo_raft :: "string option"
  bo_bootstrap :: "string option"
  bo_exists :: bool

definition boot_step :: "string \<Rightarrow> string option \<Rightarrow> string + unit" where
  "boot_step what outcome = (case outcome of None \<Rightarrow> Inr () | Some e \<Rightarrow> Inl (what @ '': '' @ e))"

definition node_New :: "boot_env \<Rightarrow> ClusterConfig \<Rightarrow> string + raft_server list option \<times> bool" where
  "node_New e cfg =
     (if \<not> Enabled cfg then Inl ''cluster is disabled''
      else
        and_then (boot_step ''create cluster data directory'' (bo_mkdir e)) (\<lambda>_.
        and_then (boot_step ''open raft store'' (bo_store e)) (\<lambda>_.
        and_then (boot_step ''open raft snapshots'' (bo_snapshots e)) (\<lambda>_.
        and_then (boot_step ''resolve raft advertise address'' (bo_resolve e)) (\<lambda>_.
        and_then (boot_step ''open raft transport'' (bo_transport e)) (\<lambda>_.
        and_then (boot_step ''create raft node'' (bo_raft e)) (\<lambda>_.
          if Bootstrap cfg then
            (if bo_exists e then Inr (Some (bootstrap_servers cfg), False)
             else and_then (boot_step ''bootstrap raft cluster'' (bo_bootstrap e))
               (\<lambda>_. Inr (Some (bootstrap_servers cfg), False)))
          else Inr (None, True))))))))"

section \<open>Facts\<close>

text \<open>
  As the code is, an assignment that was made is never removed, expired or not, so the replicated table
  (and each of its snapshots) has an entry for every client key the cluster has ever placed.
\<close>

lemma assignments_never_removed: "dom s \<subseteq> dom (replay dec log s)"
proof (induction log arbitrary: s)
  case (Cons data log)
  have "dom s \<subseteq> dom (fsm_Apply dec data s)" by (auto simp: fsm_Apply_def split: option.split)
  with Cons [of "fsm_Apply dec data s"] show ?case by (auto simp: replay_def)
qed (simp add: replay_def)

lemma replay_append: "replay dec (l1 @ l2) s = replay dec l2 (replay dec l1 s)"
  by (simp add: replay_def)

text \<open>The assignments a log contains, in order.\<close>

definition assigns :: "(string \<Rightarrow> command option) \<Rightarrow> string list \<Rightarrow> Assignment list" where
  "assigns dec log =
     concat (map (\<lambda>data. case dec data of
        Some c \<Rightarrow> if cmd_Type c = ''assign'' then [cmd_Assignment c] else []
      | None \<Rightarrow> []) log)"

lemma replay_assigns:
  "replay dec log s = foldl (\<lambda>m a. m(asg_ClientKey a \<mapsto> a)) s (assigns dec log)"
  by (induction log arbitrary: s) (auto simp: replay_def assigns_def fsm_Apply_def split: option.split)

lemma foldl_last:
  "foldl (\<lambda>m a. m(asg_ClientKey a \<mapsto> a)) s as k =
     (case find (\<lambda>a. asg_ClientKey a = k) (rev as) of Some a \<Rightarrow> Some a | None \<Rightarrow> s k)"
  by (induction as rule: rev_induct) auto

lemma cluster_member_index:
  assumes "length (cluster_members cfg) < 2 ^ 32"
  shows "unat (fnv1a key mod of_nat (length (cluster_members cfg))) < length (cluster_members cfg)"
proof -
  have "unat (of_nat (length (cluster_members cfg)) :: 32 word) = length (cluster_members cfg)"
    using assms by (simp add: unat_of_nat)
  then show ?thesis by (simp add: unat_mod_distrib cluster_members_def)
qed

text \<open>The leader places a key on itself or on a configured peer.\<close>

lemma assignmentFor_member:
  assumes "length (cluster_members cfg) < 2 ^ 32"
  shows "(asg_NodeID (assignmentFor cfg now key), asg_PeerURL (assignmentFor cfg now key)) \<in> set (cluster_members cfg)"
  using nth_mem [OF cluster_member_index [OF assms]] by (simp add: assignmentFor_def Let_def)

text \<open>
  A key the leader placed on itself has no peer URL, so every node serves it, not only the leader.
\<close>

lemma leader_keys_served_everywhere:
  assumes "get_Assignment (px_now e) (clientKey req) (nd_fsm n) = Some a" and "asg_PeerURL a = []"
  shows "place ops e cfg req n = (Here, n)"
  using assms by (simp add: place_def Let_def)

text \<open>A request that a node forwards is served where it arrives: no chain of nodes passes it on twice.\<close>

lemma forwarded_goes_nowhere:
  "place ops e cfg (forwarded base req) n = (Here, n)"
  by (simp add: place_def forwarded_def header_get_set)

lemma forward_fails:
  assumes "RequestURI req \<noteq> []"
  shows "forward parse send req peer w = (False, w)"
  using assms by (simp add: forward_def client_Do_def forwarded_def split: option.split)

lemma leadership_remdups:
  "leadership_from True previous ls = map (\<lambda>l. if l then OnLeader else OnFollower) (tl (remdups_adj (previous # ls)))"
  by (induction ls arbitrary: previous) (auto simp: remdups_adj_Cons split: list.split)

text \<open>
  The request that joins a cluster has no credentials, so a peer whose administration is protected
  answers 401 and the join loop goes on for ever.
\<close>

lemma join_unauthorized:
  assumes "join_request parse p = Some req" and "lib_cookie lib (Header req) (cookieName m) = None"
    and "status_of w = None"
  shows "\<exists>req' w'. Authorize lib m clock [] req w = (False, req', w') \<and> status_of w' = Some 401"
proof -
  from assms(1) have req: "header_get (Header req) ''Authorization'' = []" "Method req = ''POST''"
    by (auto simp: join_request_def header_get_set) (simp add: header_get_def)
  have "bearer_claims m t [] = None" for t
    by (simp add: bearer_claims_def has_prefix_def split: option.split)
  with req assms(2) have "authenticate lib m clock req = None"
    by (simp add: authenticate_def Let_def)
  with req assms(3) show ?thesis by (simp add: Authorize_def)
qed

lemma joinLoop_refused:
  assumes "\<And>send req status. send \<in> set rounds \<Longrightarrow> send req = Some status \<Longrightarrow> status = 401"
  shows "\<not> fst (joinLoop parse peers rounds)"
proof -
  have round: "\<not> fst (join_round parse send ps)" if "send \<in> set rounds" for send ps
  proof (induction ps)
    case Nil
    then show ?case by simp
  next
    case (Cons p ps)
    have "\<not> (200 \<le> status \<and> status < 300)" if "send req = Some status" for req status
      using assms [OF \<open>send \<in> set rounds\<close> that] by simp
    with Cons show ?case by (auto split: option.split prod.split)
  qed
  have "\<not> fst (joinLoop parse peers rs)" if "set rs \<subseteq> set rounds" for rs
    using that
  proof (induction rs)
    case Nil
    then show ?case by simp
  next
    case (Cons send rs)
    then show ?case using round [of send peers]
      by (cases "join_round parse send peers") (auto split: bool.split prod.split)
  qed
  then show ?thesis by simp
qed

section \<open>Properties\<close>

text \<open>
  The table that a log produces maps each client to the last assignment the log has for it;
  entries that do not decode or are of another type do not matter.
\<close>

lemma last_assignment_wins:
  "fsm_get key (replay dec log Map.empty) = find (\<lambda>a. asg_ClientKey a = key) (rev (assigns dec log))"
  by (simp add: fsm_get_def replay_assigns foldl_last split: option.split)

text \<open>Applying entries at one address is applying them to its map, and touches no other.\<close>

lemma apply_at_run:
  assumes "fsm < length h"
  shows "length (foldl (\<lambda>h data. apply_at dec fsm data h) h log) = length h \<and>
    (\<forall>i < length h. foldl (\<lambda>h data. apply_at dec fsm data h) h log ! i =
      (if i = fsm then replay dec log (h ! fsm) else h ! i))"
  using assms
proof (induction log arbitrary: h)
  case (Cons data log)
  from Cons.IH [of "apply_at dec fsm data h"] Cons.prems show ?case
    by (auto simp: apply_at_def replay_def)
qed (simp add: replay_def)

lemma copy_entries:
  assumes "src < length h" and "dst < length h" and "src \<noteq> dst"
  shows "length (fold (copy_entry src dst) keys h) = length h \<and>
    (\<forall>i < length h. i \<noteq> dst \<longrightarrow> fold (copy_entry src dst) keys h ! i = h ! i) \<and>
    fold (copy_entry src dst) keys h ! dst = (\<lambda>k. if k \<in> set keys then (h ! src) k else (h ! dst) k)"
  using assms
proof (induction keys arbitrary: h)
  case (Cons key keys)
  from Cons.IH [of "copy_entry src dst key h"] Cons.prems show ?case
    by (auto simp: copy_entry_def fun_eq_iff)
qed simp

lemma snapshot_copies:
  assumes "fsm_Snapshot order fsm h = (snap, h')" and "fsm < length h" and "set (order (h ! fsm)) = dom (h ! fsm)"
  shows "snap = length h" and "length h' = Suc (length h)" and "h' ! snap = h ! fsm"
    and "i < length h \<Longrightarrow> h' ! i = h ! i"
  using assms copy_entries [of fsm "h @ [Map.empty]" "length h" "order (h ! fsm)"]
  by (auto simp: fsm_Snapshot_def Let_def nth_append fun_eq_iff domIff)

text \<open>Tables of valid text: the only ones that JSON keeps as they are.\<close>

definition text_assignment :: "Assignment \<Rightarrow> bool" where
  "text_assignment a \<longleftrightarrow> valid_utf8 (asg_ClientKey a) \<and> valid_utf8 (asg_NodeID a) \<and> valid_utf8 (asg_PeerURL a)"

definition text_table :: "assignments \<Rightarrow> bool" where
  "text_table m \<longleftrightarrow> finite (dom m) \<and> (\<forall>k \<in> dom m. valid_utf8 k) \<and> (\<forall>a \<in> ran m. text_assignment a)"

lemma text_replay:
  assumes "\<And>data c. dec data = Some c \<Longrightarrow> text_assignment (cmd_Assignment c)" and "text_table m"
  shows "text_table (replay dec log m)"
  using assms(2)
proof (induction log arbitrary: m)
  case (Cons data log)
  have "text_table (fsm_Apply dec data m)"
    using assms(1) [of data] Cons.prems
    by (auto simp: fsm_Apply_def text_table_def text_assignment_def ran_def split: option.split)
  with Cons.IH show ?case by (simp add: replay_def)
qed (simp add: replay_def)

text \<open>
  Claim C37: a snapshot has the table of the log at the time it was taken, whatever the node applies
  between taking and persisting it, and taking it leaves the node's own table alone; a node that
  restores the persisted snapshot, whatever it held before, and applies the rest of the log has the
  same table as one that applied the whole log. This rests on what JSON does: decoding gives valid
  UTF-8, and a table of valid UTF-8 that can be encoded is decoded to itself (other text would come
  back changed, but no table made from a decoded log has any).
\<close>

theorem restore_resumes_replay:
  assumes "\<And>data c. dec data = Some c \<Longrightarrow> text_assignment (cmd_Assignment c)"
    and "\<And>m data. text_table m \<Longrightarrow> enc m = Some data \<Longrightarrow> unenc data = Some m"
    and "fsm < length h" and "h ! fsm = replay dec before Map.empty" and "set (order (h ! fsm)) = dom (h ! fsm)"
    and "fsm_Snapshot order fsm h = (snap, h1)"
    and "h2 = foldl (\<lambda>h data. apply_at dec fsm data h) h1 meanwhile"
    and "snapshot_Persist enc written closed snap h2 = Some data"
    and "fsm_Restore unenc data old g = (ok, fsm', g1)"
    and "g2 = foldl (\<lambda>h data. apply_at dec fsm' data h) g1 after"
  shows "h2 ! fsm = replay dec (before @ meanwhile) Map.empty \<and>
    ok \<and> g2 ! fsm' = replay dec (before @ after) Map.empty \<and> (\<forall>i < length g. g2 ! i = g ! i)"
proof -
  note copy = snapshot_copies [OF assms(6,3,5)]
  from copy(1,2) assms(3) have "fsm < length h1" "snap < length h1" "fsm \<noteq> snap" by simp_all
  with apply_at_run [of fsm h1 dec meanwhile] assms(7)
  have h2: "h2 ! fsm = replay dec meanwhile (h1 ! fsm)" "h2 ! snap = h1 ! snap" by simp_all
  have "text_table (replay dec before Map.empty)"
    by (rule text_replay [OF assms(1)]) (simp_all add: text_table_def)
  moreover have "enc (replay dec before Map.empty) = Some data"
    using assms(8) h2(2) copy(3) assms(4) by (auto simp: snapshot_Persist_def split: option.splits if_splits)
  ultimately have "unenc data = Some (replay dec before Map.empty)" by (rule assms(2))
  with assms(9) have g1: "ok" "fsm' = length g" "g1 = g @ [replay dec before Map.empty]"
    by (simp_all add: fsm_Restore_def)
  with apply_at_run [of fsm' g1 dec after] assms(10) show ?thesis
    using h2(1) copy(4) [OF assms(3)] assms(4) by (simp add: replay_append nth_append)
qed

definition sample_assignment :: Assignment where
  "sample_assignment = \<lparr>asg_ClientKey = ''c'', asg_NodeID = ''n2'', asg_PeerURL = ''http://n2'', asg_ExpiresAt = 1000\<rparr>"

definition sample_command :: "string \<Rightarrow> command option" where
  "sample_command data =
     (if data = ''a'' then Some \<lparr>cmd_Type = ''assign'', cmd_Assignment = sample_assignment\<rparr>
      else if data = ''b'' then Some \<lparr>cmd_Type = ''assign'', cmd_Assignment = sample_assignment\<lparr>asg_NodeID := ''n3''\<rparr>\<rparr>
      else None)"

text \<open>A codec of the one table that the sample persists.\<close>

definition sample_table :: assignments where
  "sample_table = [''c'' \<mapsto> sample_assignment]"

definition sample_encode :: "assignments \<Rightarrow> string option" where
  "sample_encode m = (if dom m = {''c''} \<and> m ''c'' = Some sample_assignment then Some ''snap'' else None)"

definition sample_decode :: "string \<Rightarrow> assignments option" where
  "sample_decode data = (if data = ''snap'' then Some sample_table else None)"

theorem restore_resumes_replay_witness:
  "\<exists>snap h1 ok fsm' g1. fsm_Snapshot (\<lambda>_. [''c'']) 0 [sample_table] = (snap, h1) \<and>
     snapshot_Persist sample_encode (\<lambda>_. True) True snap (apply_at sample_command 0 ''b'' h1) = Some ''snap'' \<and>
     fsm_Restore sample_decode ''snap'' 0 [Map.empty] = (ok, fsm', g1) \<and>
     fsm_get ''c'' (apply_at sample_command fsm' ''b'' g1 ! fsm') = Some (sample_assignment\<lparr>asg_NodeID := ''n3''\<rparr>)"
proof -
  have replayed: "replay sample_command [''a''] Map.empty = sample_table"
    by (simp add: replay_def fsm_Apply_def sample_command_def sample_table_def sample_assignment_def)
  have both: "fsm_get ''c'' (replay sample_command ([''a''] @ [''b'']) Map.empty) = Some (sample_assignment\<lparr>asg_NodeID := ''n3''\<rparr>)"
    by (simp add: replay_def fsm_Apply_def sample_command_def fsm_get_def sample_assignment_def)
  have keys: "dom sample_table = {''c''}" by (simp add: sample_table_def)
  obtain snap h1 where snap: "fsm_Snapshot (\<lambda>_. [''c'']) 0 [sample_table] = (snap, h1)" by fastforce
  have copied: "snap = 1" "h1 = [sample_table, sample_table]"
    using snap by (auto simp: fsm_Snapshot_def copy_entry_def Let_def sample_table_def)
  then have persisted: "snapshot_Persist sample_encode (\<lambda>_. True) True snap (apply_at sample_command 0 ''b'' h1) = Some ''snap''"
    by (simp add: snapshot_Persist_def apply_at_def sample_encode_def sample_table_def)
  obtain ok fsm' g1 where restored: "fsm_Restore sample_decode ''snap'' 0 [Map.empty] = (ok, fsm', g1)"
    by (rule prod_cases3)
  have "valid_utf8 ''c''" "valid_utf8 ''n2''" "valid_utf8 ''n3''" "valid_utf8 ''http://n2''"
    by (simp_all add: decode_rune_def code_def)
  then have decoded: "text_assignment (cmd_Assignment c)" if "sample_command data = Some c" for data c
    using that by (auto simp: sample_command_def text_assignment_def sample_assignment_def split: if_splits)
  have coded: "sample_decode data = Some m" if "sample_encode m = Some data" for m data
  proof -
    from that have m: "dom m = dom sample_table" "m ''c'' = sample_table ''c''" "data = ''snap''"
      by (auto simp: sample_encode_def sample_table_def split: if_splits)
    then have "m = sample_table" using keys by (metis domIff ext singletonD)
    with m(3) show ?thesis by (simp add: sample_decode_def)
  qed
  have "apply_at sample_command fsm' ''b'' g1 ! fsm' = replay sample_command ([''a''] @ [''b'']) Map.empty"
    using restore_resumes_replay [where before = "[''a'']" and meanwhile = "[''b'']" and after = "[''b'']",
        OF decoded coded _ _ _ snap refl _ restored refl]
      persisted replayed keys by simp
  with both snap persisted restored show ?thesis by metis
qed

text \<open>
  Claim C38: as the code is, every request that is placed on a peer is answered 502 and reaches neither
  the peer nor the local handler: the request that \<^verbatim>\<open>forward\<close> sends still has the \<^verbatim>\<open>RequestURI\<close> of
  the server request, with which an HTTP client refuses to send it.
\<close>

theorem placed_on_peer_fails:
  assumes "place ops e cfg req (get s) = (Peer url, n1)" and "RequestURI req \<noteq> []" and "status_of w = None"
  shows "\<exists>w'. Proxy ops e cfg get put next s req w = (put n1 s, req, w') \<and> status_of w' = Some 502"
  using assms forward_fails [OF assms(2)] by (simp add: Proxy_def)

definition sample_raft :: "unit raft_ops" where
  "sample_raft = \<lparr>rf_state = (\<lambda>_. ''Follower''), rf_leader = (\<lambda>_. ''10.0.0.2:7000''), rf_stats = (\<lambda>_ _. []),
     rf_config = (\<lambda>_. Inr []), rf_add = (\<lambda>_ _ r. (None, r)), rf_remove = (\<lambda>_ r. (None, r)),
     rf_transfer = (\<lambda>r. (None, r)), rf_transfer_to = (\<lambda>_ _ r. (None, r)), rf_apply = (\<lambda>_ r. (None, r))\<rparr>"

definition sample_proxy_env :: proxy_env where
  "sample_proxy_env = \<lparr>px_now = 5, px_expiry = 5, px_assign = 5, px_encode = (\<lambda>_. None), px_table = (\<lambda>_. False), px_parse = sample_parse,
     px_send = (\<lambda>_. Some \<lparr>pr_status = 200, pr_headers = [], pr_body = ''ok'', pr_complete = True\<rparr>)\<rparr>"

definition sample_node :: "unit node" where
  "sample_node = \<lparr>nd_raft = (), nd_fsm = [''192.0.2.1'' \<mapsto> sample_assignment]\<rparr>"

theorem placed_on_peer_fails_witness:
  "\<exists>w'. Proxy sample_raft sample_proxy_env ((Cluster Default)\<lparr>NodeID := ''n1''\<rparr>) (\<lambda>n. n) (\<lambda>n _. n)
      (\<lambda>s req w. (s, req, write_header 200 w)) sample_node sample_request new_response =
     (sample_node, sample_request, w') \<and> status_of w' = Some 502"
proof (rule placed_on_peer_fails)
  have "SplitHost ''192.0.2.1:5000'' = Some ''192.0.2.1''" by code_simp
  then show "place sample_raft sample_proxy_env ((Cluster Default)\<lparr>NodeID := ''n1''\<rparr>) sample_request sample_node =
    (Peer ''http://n2'', sample_node)"
    by (simp add: place_def sample_request_def header_get_def IsLeader_def LeaderAddress_def sample_raft_def
        clientKey_def get_Assignment_def fsm_get_def sample_assignment_def sample_proxy_env_def sample_node_def)
qed (simp_all add: sample_request_def)

text \<open>
  The hook for the virtual address is run exactly at changes of leadership, starting from
  follower, so its calls alternate and begin with the leader's, however often a state is notified.
\<close>

lemma hook_follows_leadership:
  "leadershipLoop True ls = map (\<lambda>l. if l then OnLeader else OnFollower) (tl (remdups_adj (False # ls)))"
  by (simp add: leadershipLoop_def leadership_remdups)

end
