(* ===== verification/Listeners.thy ===== *)
theory Listeners imports Prelude begin

text \<open>
  The two listeners of \<^verbatim>\<open>internal/dataplane\<close>: \<^verbatim>\<open>LimitListener\<close> (server.go), which bounds the
  connections that are open at once (as long as calls of \<^verbatim>\<open>Close\<close> on one of them do not overlap), and
  the certificate loader behind \<^verbatim>\<open>TLSListener\<close> (tls.go), which caches a key pair until a file's modification time changes.
\<close>

section \<open>The limiting listener\<close>

text \<open>
  A connection handed out: whether its underlying connection is open, whether its field \<^verbatim>\<open>release\<close> is
  set, and how many calls of \<^verbatim>\<open>Close\<close> are before the test of that field, between the test and the call,
  and between the call and the assignment that clears it. \<^verbatim>\<open>Close\<close> has no lock, so calls may overlap.
  \<open>lc_released\<close> counts the tokens that calls have taken, for the theorems.
\<close>

record limitedConn =
  lc_open :: bool
  lc_release :: bool
  lc_testing :: nat
  lc_calling :: nat
  lc_clearing :: nat
  lc_released :: nat

text \<open>
  \<open>ls_used\<close> is the number of tokens in the channel \<^verbatim>\<open>slots\<close>, \<open>ls_accepting\<close> the \<^verbatim>\<open>Accept\<close> calls between
  taking a token and their result, and \<open>ls_panics\<close> the calls of \<^verbatim>\<open>Close\<close> that called a nil \<^verbatim>\<open>release\<close>. A
  limit below one leaves the listener as it is: \<open>ls_limit\<close> is \<open>None\<close>.
\<close>

record limitedListener =
  ls_limit :: "int option"
  ls_used :: nat
  ls_accepting :: nat
  ls_conns :: "limitedConn list"
  ls_panics :: nat

definition LimitListener :: "int \<Rightarrow> limitedListener" where
  "LimitListener limit =
     \<lparr>ls_limit = (if limit < 1 then None else Some limit), ls_used = 0, ls_accepting = 0, ls_conns = [], ls_panics = 0\<rparr>"

text \<open>The first half of \<^verbatim>\<open>Accept\<close>; \<open>None\<close> while the channel is full.\<close>

definition accept_begin :: "limitedListener \<Rightarrow> limitedListener option" where
  "accept_begin l =
     (case ls_limit l of
        None \<Rightarrow> Some (l\<lparr>ls_accepting := ls_accepting l + 1\<rparr>)
      | Some limit \<Rightarrow>
          if int (ls_used l) < limit
          then Some (l\<lparr>ls_used := ls_used l + 1, ls_accepting := ls_accepting l + 1\<rparr>) else None)"

text \<open>Receiving a token; \<open>None\<close> while the channel is empty.\<close>

definition take_token :: "limitedListener \<Rightarrow> limitedListener option" where
  "take_token l = (if ls_used l = 0 then None else Some (l\<lparr>ls_used := ls_used l - 1\<rparr>))"

definition new_conn :: "bool \<Rightarrow> limitedConn" where
  "new_conn wrapped = \<lparr>lc_open = True, lc_release = wrapped, lc_testing = 0, lc_calling = 0, lc_clearing = 0, lc_released = 0\<rparr>"

text \<open>The second half: a connection, or the error after which the token is given back.\<close>

definition accept_end :: "bool \<Rightarrow> limitedListener \<Rightarrow> limitedListener option" where
  "accept_end ok l =
     (let l1 = l\<lparr>ls_accepting := ls_accepting l - 1\<rparr> in
      if ok then Some (l1\<lparr>ls_conns := ls_conns l @ [new_conn (ls_limit l \<noteq> None)]\<rparr>)
      else if ls_limit l = None then Some l1 else take_token l1)"

text \<open>
  A call of \<^verbatim>\<open>Close\<close> in its steps: it closes the underlying connection, tests \<^verbatim>\<open>release\<close>, reads the field
  again and calls it (which takes a token, or panics when another call has cleared the field), and
  clears the field.
\<close>

definition close_begin :: "limitedConn \<Rightarrow> limitedConn" where
  "close_begin c = c\<lparr>lc_open := False, lc_testing := lc_testing c + 1\<rparr>"

definition close_test :: "limitedConn \<Rightarrow> limitedConn" where
  "close_test c =
     c\<lparr>lc_testing := lc_testing c - 1, lc_calling := lc_calling c + (if lc_release c then 1 else 0)\<rparr>"

definition close_release :: "nat \<Rightarrow> limitedListener \<Rightarrow> limitedListener option" where
  "close_release i l =
     (let c = ls_conns l ! i; called = c\<lparr>lc_calling := lc_calling c - 1\<rparr> in
      if \<not> lc_release c then Some (l\<lparr>ls_conns := (ls_conns l)[i := called], ls_panics := ls_panics l + 1\<rparr>)
      else map_option (\<lambda>l. l\<lparr>ls_conns := (ls_conns l)
          [i := called\<lparr>lc_clearing := lc_clearing c + 1, lc_released := lc_released c + 1\<rparr>]\<rparr>) (take_token l))"

definition close_clear :: "limitedConn \<Rightarrow> limitedConn" where
  "close_clear c = c\<lparr>lc_release := False, lc_clearing := lc_clearing c - 1\<rparr>"

datatype listener_event =
    AcceptBegin
  | AcceptEnd bool
  | CloseBegin nat
  | CloseTest nat
  | CloseRelease nat
  | CloseClear nat

text \<open>The steps of one call that no other overlaps.\<close>

definition conn_Close :: "nat \<Rightarrow> listener_event list" where
  "conn_Close i = [CloseBegin i, CloseTest i, CloseRelease i, CloseClear i]"

definition conn_step :: "(limitedConn \<Rightarrow> bool) \<Rightarrow> (limitedConn \<Rightarrow> limitedConn) \<Rightarrow> nat \<Rightarrow> limitedListener \<Rightarrow> limitedListener" where
  "conn_step possible f i l =
     (if i < length (ls_conns l) \<and> possible (ls_conns l ! i) then l\<lparr>ls_conns := (ls_conns l)[i := f (ls_conns l ! i)]\<rparr> else l)"

text \<open>Events that cannot happen (no token, no such connection, no call at that point) change nothing.\<close>

fun listener_step :: "limitedListener \<Rightarrow> listener_event \<Rightarrow> limitedListener" where
  "listener_step l AcceptBegin = (case accept_begin l of None \<Rightarrow> l | Some l' \<Rightarrow> l')"
| "listener_step l (AcceptEnd ok) =
     (if 0 < ls_accepting l then (case accept_end ok l of None \<Rightarrow> l | Some l' \<Rightarrow> l') else l)"
| "listener_step l (CloseBegin i) = conn_step (\<lambda>c. True) close_begin i l"
| "listener_step l (CloseTest i) = conn_step (\<lambda>c. 0 < lc_testing c) close_test i l"
| "listener_step l (CloseRelease i) =
     (if i < length (ls_conns l) \<and> 0 < lc_calling (ls_conns l ! i)
      then (case close_release i l of None \<Rightarrow> l | Some l' \<Rightarrow> l') else l)"
| "listener_step l (CloseClear i) = conn_step (\<lambda>c. 0 < lc_clearing c) close_clear i l"

definition open_conns :: "limitedListener \<Rightarrow> nat" where
  "open_conns l = length (filter lc_open (ls_conns l))"

text \<open>The tokens that were taken for connections that had given theirs back already.\<close>

definition surplus :: "limitedListener \<Rightarrow> nat" where
  "surplus l = sum_list (map (\<lambda>c. lc_released c - 1) (ls_conns l))"

text \<open>No call of \<^verbatim>\<open>Close\<close> is under way on a connection; each call begins then.\<close>

definition at_rest :: "limitedConn \<Rightarrow> bool" where
  "at_rest c \<longleftrightarrow> lc_testing c = 0 \<and> lc_calling c = 0 \<and> lc_clearing c = 0"

fun closes_apart :: "limitedListener \<Rightarrow> listener_event list \<Rightarrow> bool" where
  "closes_apart l [] = True"
| "closes_apart l (e # es) =
     ((case e of CloseBegin i \<Rightarrow> i < length (ls_conns l) \<longrightarrow> at_rest (ls_conns l ! i) | _ \<Rightarrow> True) \<and>
      closes_apart (listener_step l e) es)"

subsection \<open>Invariants\<close>

text \<open>A connection on which no call has begun is as it was handed out.\<close>

definition conn_inv :: "limitedConn \<Rightarrow> bool" where
  "conn_inv c \<longleftrightarrow> (lc_open c \<longrightarrow> c = new_conn True)"

definition owed :: "limitedConn list \<Rightarrow> int" where
  "owed cs = sum_list (map (\<lambda>c. 1 - int (lc_released c)) cs)"

definition listener_inv :: "int \<Rightarrow> limitedListener \<Rightarrow> bool" where
  "listener_inv limit l \<longleftrightarrow>
     ls_limit l = Some limit \<and> int (ls_used l) \<le> limit \<and> int (ls_used l) = int (ls_accepting l) + owed (ls_conns l) \<and>
     list_all conn_inv (ls_conns l)"

lemma sum_list_update_int:
  "i < length xs \<Longrightarrow> sum_list (map f (xs[i := x])) = sum_list (map f xs) - f (xs ! i) + (f x :: int)"
proof (induction xs arbitrary: i)
  case (Cons y ys)
  then show ?case by (cases i) auto
qed simp

lemma owed_append [simp]: "owed (cs @ [new_conn b]) = owed cs + 1"
  by (simp add: owed_def new_conn_def)

lemma owed_update [simp]:
  "i < length cs \<Longrightarrow> owed (cs[i := c]) = owed cs + int (lc_released (cs ! i)) - int (lc_released c)"
  by (simp add: owed_def sum_list_update_int)

lemma conn_step_inv:
  assumes "listener_inv limit l" and "\<And>c. conn_inv c \<Longrightarrow> possible c \<Longrightarrow> conn_inv (f c) \<and> lc_released (f c) = lc_released c"
  shows "listener_inv limit (conn_step possible f i l)"
proof (cases "i < length (ls_conns l) \<and> possible (ls_conns l ! i)")
  case True
  with assms have "conn_inv (ls_conns l ! i)" by (simp add: listener_inv_def list_all_length)
  with assms True show ?thesis by (simp add: conn_step_def listener_inv_def list_all_update)
next
  case False
  then have "conn_step possible f i l = l" unfolding conn_step_def by (rule if_not_P)
  with assms(1) show ?thesis by simp
qed

lemma close_release_inv:
  assumes "listener_inv limit l" and "i < length (ls_conns l)" and "0 < lc_calling (ls_conns l ! i)"
    and "close_release i l = Some l'"
  shows "listener_inv limit l'"
proof -
  have "conn_inv (ls_conns l ! i)" using assms(1,2) by (simp add: listener_inv_def list_all_length)
  with assms show ?thesis
    by (auto simp: close_release_def take_token_def Let_def listener_inv_def list_all_update
        conn_inv_def new_conn_def split: if_splits)
qed

lemma listener_inv_step:
  assumes "listener_inv limit l"
  shows "listener_inv limit (listener_step l e)"
proof (cases e)
  case AcceptBegin
  with assms show ?thesis by (auto simp: listener_inv_def accept_begin_def)
next
  case (AcceptEnd ok)
  with assms show ?thesis
    by (auto simp: listener_inv_def accept_end_def take_token_def conn_inv_def Let_def)
next
  case (CloseRelease i)
  with assms close_release_inv show ?thesis by (auto split: option.split)
qed (use assms in \<open>auto intro!: conn_step_inv
      simp: close_begin_def close_test_def close_clear_def conn_inv_def new_conn_def\<close>)

lemma listener_inv_run:
  "1 \<le> limit \<Longrightarrow> listener_inv limit (foldl listener_step (LimitListener limit) es)"
  by (induction es rule: rev_induct)
    (simp_all add: listener_inv_step, simp add: listener_inv_def LimitListener_def owed_def)

lemma owed_open:
  "list_all conn_inv cs \<Longrightarrow> owed cs = int (length (filter lc_open cs)) - int (sum_list (map (\<lambda>c. lc_released c - 1) cs)) +
     int (length (filter (\<lambda>c. \<not> lc_open c \<and> lc_released c = 0) cs))"
  by (induction cs) (auto simp: owed_def conn_inv_def new_conn_def)

text \<open>While calls do not overlap, at most one is under way on a connection, and it takes one token.\<close>

definition single :: "limitedConn \<Rightarrow> bool" where
  "single c \<longleftrightarrow>
     lc_testing c + lc_calling c + lc_clearing c \<le> 1 \<and> lc_released c \<le> 1 \<and>
     (lc_release c \<longleftrightarrow> lc_released c = 0 \<or> 0 < lc_clearing c) \<and>
     (0 < lc_calling c \<longrightarrow> lc_released c = 0) \<and> (0 < lc_clearing c \<longrightarrow> lc_released c = 1) \<and>
     (lc_open c \<or> \<not> at_rest c \<or> lc_released c = 1)"

definition all_single :: "limitedListener \<Rightarrow> bool" where
  "all_single l \<longleftrightarrow> list_all single (ls_conns l) \<and> ls_panics l = 0"

lemma conn_step_single:
  assumes "all_single l" and "\<And>c. single c \<Longrightarrow> i < length (ls_conns l) \<Longrightarrow> c = ls_conns l ! i \<Longrightarrow> possible c \<Longrightarrow> single (f c)"
  shows "all_single (conn_step possible f i l)"
  using assms by (auto simp: conn_step_def all_single_def list_all_length nth_list_update)

lemma single_step:
  assumes "all_single l" and "ls_limit l \<noteq> None"
    and "case e of CloseBegin i \<Rightarrow> i < length (ls_conns l) \<longrightarrow> at_rest (ls_conns l ! i) | _ \<Rightarrow> True"
  shows "all_single (listener_step l e)"
proof (cases e)
  case AcceptBegin
  with assms show ?thesis by (auto simp: all_single_def accept_begin_def split: option.split)
next
  case (AcceptEnd ok)
  with assms(1,2) show ?thesis
    by (auto simp: all_single_def accept_end_def take_token_def single_def new_conn_def Let_def)
next
  case (CloseRelease i)
  have "all_single l'" if "i < length (ls_conns l)" "0 < lc_calling (ls_conns l ! i)" "close_release i l = Some l'" for l'
  proof -
    have "single (ls_conns l ! i)" using assms(1) that(1) by (simp add: all_single_def list_all_length)
    with that assms(1) show ?thesis
      by (auto simp: close_release_def take_token_def Let_def all_single_def list_all_update single_def at_rest_def split: if_splits)
  qed
  with assms(1) CloseRelease show ?thesis by (auto split: option.split)
next
  case (CloseBegin i)
  with assms show ?thesis by (auto intro!: conn_step_single simp: single_def at_rest_def close_begin_def)
qed (use assms(1) in \<open>auto intro!: conn_step_single simp: single_def at_rest_def close_test_def close_clear_def\<close>)

lemma single_run:
  assumes "closes_apart l es" and "all_single l" and "listener_inv limit l"
  shows "all_single (foldl listener_step l es)"
  using assms
proof (induction es arbitrary: l)
  case (Cons e es)
  have "ls_limit l \<noteq> None" using Cons.prems(3) by (simp add: listener_inv_def)
  with Cons.prems have "all_single (listener_step l e)" by (intro single_step) simp_all
  with Cons.IH [of "listener_step l e"] Cons.prems listener_inv_step [OF Cons.prems(3), of e] show ?case by simp
qed simp

lemma single_surplus: "all_single l \<Longrightarrow> surplus l = 0"
  by (auto simp: all_single_def surplus_def single_def list_all_iff sum_list_eq_0_iff)

lemma single_at_rest:
  "all_single l \<Longrightarrow> list_all at_rest (ls_conns l) \<Longrightarrow> filter (\<lambda>c. \<not> lc_open c \<and> lc_released c = 0) (ls_conns l) = []"
  by (auto simp: all_single_def single_def list_all_iff filter_empty_conv)

subsection \<open>The bound\<close>

text \<open>
  Claim C34: in every interleaving of accepts, failed accepts and the steps of \<^verbatim>\<open>Close\<close>, the connections
  open and the accepts under way exceed the limit by at most the tokens that overlapping calls of
  \<^verbatim>\<open>Close\<close> on one connection have taken twice. If calls on one connection do not overlap (repeated ones
  may follow one another), no token is taken twice and no call panics, so the limit holds; and then,
  with no call under way, an accept has to wait only if so many connections are open or accepted as
  the limit says: every closed connection has made room for another.
\<close>

theorem connections_bounded:
  assumes "1 \<le> limit" and "l = foldl listener_step (LimitListener limit) es"
  shows "int (ls_accepting l + open_conns l) \<le> limit + int (surplus l) \<and>
    (closes_apart (LimitListener limit) es \<longrightarrow> surplus l = 0 \<and> ls_panics l = 0 \<and>
      (list_all at_rest (ls_conns l) \<longrightarrow> (accept_begin l = None \<longleftrightarrow> int (ls_accepting l + open_conns l) = limit)))"
proof -
  have inv: "listener_inv limit l" using listener_inv_run assms by blast
  then have conns: "list_all conn_inv (ls_conns l)" by (simp add: listener_inv_def)
  have "listener_inv limit (LimitListener limit)" using listener_inv_run [OF assms(1), of "[]"] by simp
  moreover have "all_single (LimitListener limit)" by (simp add: all_single_def LimitListener_def)
  ultimately have single: "closes_apart (LimitListener limit) es \<Longrightarrow> all_single l"
    using single_run assms(2) by blast
  have full: "accept_begin l = None \<longleftrightarrow> int (ls_used l) = limit"
    using inv by (auto simp: listener_inv_def accept_begin_def)
  have used: "int (ls_used l) = int (ls_accepting l) + int (open_conns l) - int (surplus l) +
      int (length (filter (\<lambda>c. \<not> lc_open c \<and> lc_released c = 0) (ls_conns l)))" "int (ls_used l) \<le> limit"
    using inv owed_open [OF conns] by (simp_all add: listener_inv_def open_conns_def surplus_def)
  then have "int (ls_accepting l + open_conns l) \<le> limit + int (surplus l)" by simp
  moreover have "surplus l = 0 \<and> ls_panics l = 0 \<and>
      (list_all at_rest (ls_conns l) \<longrightarrow> (accept_begin l = None \<longleftrightarrow> int (ls_accepting l + open_conns l) = limit))"
    if "all_single l"
    using that used(1) full single_surplus [OF that] single_at_rest [OF that] by (simp add: all_single_def)
  ultimately show ?thesis using single by blast
qed

definition sample_closes :: "listener_event list" where
  "sample_closes = [AcceptBegin, AcceptEnd True, AcceptBegin] @ conn_Close 0 @ conn_Close 0 @ [AcceptBegin, AcceptEnd True]"

theorem connections_bounded_witness:
  "open_conns (foldl listener_step (LimitListener 1) sample_closes) = 1 \<and>
   accept_begin (foldl listener_step (LimitListener 1) sample_closes) = None"
proof -
  let ?l = "foldl listener_step (LimitListener 1) sample_closes"
  have "open_conns ?l = 1 \<and> ls_accepting ?l = 0 \<and> list_all at_rest (ls_conns ?l)" by code_simp
  moreover have "closes_apart (LimitListener 1) sample_closes" by code_simp
  ultimately show ?thesis using connections_bounded [of 1 ?l sample_closes, OF _ refl] by simp
qed

text \<open>
  Two overlapping calls of \<^verbatim>\<open>Close\<close> on one connection can both see \<^verbatim>\<open>release\<close> set: the second takes the
  token of another connection and the limit is passed, or it finds the field cleared and panics.
\<close>

lemma overlapping_closes_pass_the_limit:
  "open_conns (foldl listener_step (LimitListener 2)
     [AcceptBegin, AcceptEnd True, AcceptBegin, AcceptEnd True,
      CloseBegin 0, CloseBegin 0, CloseTest 0, CloseTest 0, CloseRelease 0, CloseRelease 0, CloseClear 0, CloseClear 0,
      AcceptBegin, AcceptEnd True, AcceptBegin, AcceptEnd True]) = 3"
  "ls_panics (foldl listener_step (LimitListener 2)
     [AcceptBegin, AcceptEnd True,
      CloseBegin 0, CloseBegin 0, CloseTest 0, CloseTest 0, CloseRelease 0, CloseClear 0, CloseRelease 0]) = 1"
  by code_simp+

section \<open>The certificate loader\<close>

record 'c certificateLoader =
  cl_cert :: "'c option"
  cl_certMod :: time
  cl_keyMod :: time

definition new_loader :: "'c certificateLoader" where
  "new_loader = \<lparr>cl_cert = None, cl_certMod = 0, cl_keyMod = 0\<rparr>"

datatype tls_error = StatFailed | LoadFailed

text \<open>
  \<open>certInfo\<close> and \<open>keyInfo\<close> are the files' modification times (\<open>None\<close>: \<^verbatim>\<open>os.Stat\<close> failed) and \<open>pair\<close>
  what reading the two files gives.
\<close>

definition load ::
  "time option \<Rightarrow> time option \<Rightarrow> 'c option \<Rightarrow> 'c certificateLoader \<Rightarrow> (tls_error + 'c) \<times> 'c certificateLoader" where
  "load certInfo keyInfo pair l =
     (case (certInfo, keyInfo) of
        (Some cm, Some km) \<Rightarrow>
          (case cl_cert l of
             Some c \<Rightarrow>
               if cm = cl_certMod l \<and> km = cl_keyMod l then (Inr c, l)
               else
                 (case pair of
                    None \<Rightarrow> (Inl LoadFailed, l)
                  | Some c' \<Rightarrow> (Inr c', \<lparr>cl_cert = Some c', cl_certMod = cm, cl_keyMod = km\<rparr>))
           | None \<Rightarrow>
               (case pair of
                  None \<Rightarrow> (Inl LoadFailed, l)
                | Some c' \<Rightarrow> (Inr c', \<lparr>cl_cert = Some c', cl_certMod = cm, cl_keyMod = km\<rparr>)))
      | _ \<Rightarrow> (Inl StatFailed, l))"

text \<open>The loader without its cache.\<close>

definition load_direct :: "time option \<Rightarrow> time option \<Rightarrow> 'c option \<Rightarrow> tls_error + 'c" where
  "load_direct certInfo keyInfo pair =
     (if certInfo = None \<or> keyInfo = None then Inl StatFailed
      else case pair of None \<Rightarrow> Inl LoadFailed | Some c \<Rightarrow> Inr c)"

definition TLSListener ::
  "time option \<Rightarrow> time option \<Rightarrow> 'c option \<Rightarrow> tls_error + 'c certificateLoader" where
  "TLSListener certInfo keyInfo pair =
     (case load certInfo keyInfo pair new_loader of (Inl e, _) \<Rightarrow> Inl e | (Inr _, l) \<Rightarrow> Inr l)"

text \<open>
  A sequence of handshakes over files whose content is a function of their modification times.
\<close>

definition pair_at :: "(time \<Rightarrow> time \<Rightarrow> 'c option) \<Rightarrow> time option \<times> time option \<Rightarrow> 'c option" where
  "pair_at content ts = (case ts of (Some cm, Some km) \<Rightarrow> content cm km | _ \<Rightarrow> None)"

definition handshake ::
  "(time \<Rightarrow> time \<Rightarrow> 'c option) \<Rightarrow> time option \<times> time option \<Rightarrow> 'c certificateLoader \<Rightarrow>
   (tls_error + 'c) \<times> 'c certificateLoader" where
  "handshake content ts l = load (fst ts) (snd ts) (pair_at content ts) l"

definition loader_inv :: "(time \<Rightarrow> time \<Rightarrow> 'c option) \<Rightarrow> 'c certificateLoader \<Rightarrow> bool" where
  "loader_inv content l \<longleftrightarrow> (cl_cert l = None \<or> content (cl_certMod l) (cl_keyMod l) = cl_cert l)"

lemma loader_step:
  assumes "loader_inv content l"
  shows "fst (handshake content ts l) = load_direct (fst ts) (snd ts) (pair_at content ts) \<and>
    loader_inv content (snd (handshake content ts l))"
  using assms
  by (cases ts) (auto simp: handshake_def load_def load_direct_def loader_inv_def pair_at_def split: option.splits)

lemma loader_run:
  "loader_inv content (foldl (\<lambda>l ts. snd (handshake content ts l)) new_loader tss)"
  by (induction tss rule: rev_induct) (simp_all add: loader_step, simp add: loader_inv_def new_loader_def)

text \<open>
  The cache cannot be seen: after any history of handshakes, a handshake gets the
  certificate that reading the files would give at that moment, as long as a file that changes
  gets a new modification time.
\<close>

lemma loader_cache_transparent:
  "fst (handshake content ts (foldl (\<lambda>l ts. snd (handshake content ts l)) new_loader tss)) =
     load_direct (fst ts) (snd ts) (pair_at content ts)"
  by (simp add: loader_step loader_run)

end
