(* ===== verification/Lifecycle.thy ===== *)
theory Lifecycle imports Gateway Cluster Listeners begin

text \<open>
  The program, \<^verbatim>\<open>cmd/server/main.go\<close>: how the components are put together at start, with each step
  that can fail, and how the process shuts down: the signal's goroutine, the two \<^verbatim>\<open>Serve\<close> goroutines
  and \<^verbatim>\<open>main\<close>, which waits for the first of their errors.
\<close>

section \<open>Start\<close>

datatype start_error =
    LoadConfigFailed load_error | InvalidConfiguration config_error | AuthFailed auth_error
  | RuntimeFailed dp_error | ClusterFailed string | ControlListenFailed | PublicListenFailed
  | NilListenerClosed tls_error

text \<open>
  What the start draws from its environment: the \<^verbatim>\<open>-config\<close> flag and its file, the functions of the
  authentication, the outcomes of the cluster's start and of the two \<^verbatim>\<open>net.Listen\<close> calls, and the
  certificate files.
\<close>

record start_env =
  st_path :: string
  st_parse :: "string \<Rightarrow> url option"
  st_table :: "nat \<Rightarrow> bool"
  st_decode :: "string \<Rightarrow> Config \<Rightarrow> (Config \<times> string list) option"
  st_read :: "string \<Rightarrow> string option"
  st_discover :: "string \<Rightarrow> string \<Rightarrow> (string \<Rightarrow> Claims option) option"
  st_fresh :: "string option"
  st_auth_lib :: auth_lib
  st_boot :: boot_env
  st_control_listen :: bool
  st_public_listen :: bool
  st_certInfo :: "time option"
  st_keyInfo :: "time option"
  st_pair :: "string option"

text \<open>The state that the control plane's callbacks act on: manager, metrics and the cluster node.\<close>

record 'r world =
  wd_gateway :: gateway
  wd_node :: "'r node option"

definition on_node :: "('r \<Rightarrow> string option \<times> 'r) \<Rightarrow> 'r world \<Rightarrow> string option \<times> 'r world" where
  "on_node f wd =
     (case wd_node wd of
        None \<Rightarrow> (Some ''cluster is unavailable'', wd)
      | Some n \<Rightarrow> (case f (nd_raft n) of (e, r) \<Rightarrow> (e, wd\<lparr>wd_node := Some (n\<lparr>nd_raft := r\<rparr>)\<rparr>)))"

definition ask_node :: "('r \<Rightarrow> string + json) \<Rightarrow> 'r world \<Rightarrow> string + json" where
  "ask_node f wd = (case wd_node wd of None \<Rightarrow> Inl ''cluster is unavailable'' | Some n \<Rightarrow> f (nd_raft n))"

definition world_activate :: "(nat \<Rightarrow> bool) \<Rightarrow> (string \<Rightarrow> url option) \<Rightarrow> Config \<Rightarrow> 'r world \<Rightarrow> string option \<times> 'r world" where
  "world_activate table parse c wd =
     (case gw_activate table parse c (wd_gateway wd) of (e, gw) \<Rightarrow> (e, wd\<lparr>wd_gateway := gw\<rparr>))"

definition world_publish :: "int \<Rightarrow> 'r world \<Rightarrow> 'r world" where
  "world_publish v wd = wd\<lparr>wd_gateway := gw_publish v (wd_gateway wd)\<rparr>"

definition world_controller :: "(nat \<Rightarrow> bool) \<Rightarrow> 'r raft_ops \<Rightarrow> ClusterConfig \<Rightarrow> 'r world cluster_ops" where
  "world_controller table ops cfg =
     (let c = node_controller table ops cfg in
      \<lparr>co_status = ask_node (co_status c), co_members = ask_node (co_members c), co_sync = ask_node (co_sync c),
       co_add = (\<lambda>i a. on_node (co_add c i a)), co_remove = (\<lambda>i. on_node (co_remove c i)),
       co_transfer = (\<lambda>i. on_node (co_transfer c i))\<rparr>)"

definition world_ready :: "'r raft_ops \<Rightarrow> 'r world \<Rightarrow> bool \<times> string" where
  "world_ready ops wd = node_Ready ops (map_option nd_raft (wd_node wd))"

record 'r program =
  pg_config :: Config
  pg_auth :: "Middleware option"
  pg_world :: "'r world"
  pg_control :: "'r world ControlServer"
  pg_listener :: limitedListener
  pg_loader :: "string certificateLoader option"

definition wrap :: "('e \<Rightarrow> 'f) \<Rightarrow> 'e + 'a \<Rightarrow> 'f + 'a" where
  "wrap f r = (case r of Inl e \<Rightarrow> Inl (f e) | Inr x \<Rightarrow> Inr x)"

definition start_config :: "start_env \<Rightarrow> start_error + Config" where
  "start_config e =
     and_then
       (if st_path e \<noteq> [] then wrap LoadConfigFailed (LoadFile (st_parse e) (st_decode e) (st_read e) (st_path e))
        else Inr Default)
       (\<lambda>cfg. and_then (wrap InvalidConfiguration (Validate (st_parse e) cfg)) (\<lambda>_. Inr cfg))"

definition start_auth :: "start_env \<Rightarrow> Config \<Rightarrow> start_error + Middleware option" where
  "start_auth e cfg =
     (if Mode (Auth cfg) = ''disabled'' then Inr None
      else wrap AuthFailed (and_then (auth_New (st_parse e) (st_discover e) (st_read e) (st_fresh e) (Auth cfg))
        (\<lambda>m. Inr (Some m))))"

definition start_authorizer :: "start_env \<Rightarrow> Middleware option \<Rightarrow> authorize option" where
  "start_authorizer e m = map_option (Authorize (st_auth_lib e)) m"

definition start_metrics :: "Config \<Rightarrow> Metrics" where
  "start_metrics cfg =
     (if Enabled (Cluster cfg) then SetNodeIdentity (NodeID (Cluster cfg)) new_metrics else new_metrics)"

definition start_cluster :: "start_env \<Rightarrow> 'r \<Rightarrow> Config \<Rightarrow> start_error + 'r node option" where
  "start_cluster e r cfg =
     (if \<not> Enabled (Cluster cfg) then Inr None
      else wrap ClusterFailed (and_then (node_New (st_boot e) (Cluster cfg))
        (\<lambda>_. Inr (Some \<lparr>nd_raft = r, nd_fsm = Map.empty\<rparr>))))"

text \<open>
  The error branch of \<^verbatim>\<open>TLSListener\<close> closes the variable that the call has just overwritten with its nil
  result: the process panics in \<^verbatim>\<open>publicListener.Close()\<close>, before the error is logged.
\<close>

definition start_tls :: "start_env \<Rightarrow> start_error + string certificateLoader option" where
  "start_tls e =
     (case TLSListener (st_certInfo e) (st_keyInfo e) (st_pair e) of
        Inl err \<Rightarrow> Inl (NilListenerClosed err)
      | Inr l \<Rightarrow> Inr (Some l))"

definition start_listen :: "start_env \<Rightarrow> Config \<Rightarrow> start_error + string certificateLoader option" where
  "start_listen e cfg =
     (if \<not> st_control_listen e then Inl ControlListenFailed
      else if \<not> st_public_listen e then Inl PublicListenFailed
      else if TLSCertFile (Config.Server cfg) \<noteq> [] then start_tls e
      else Inr None)"

definition start_control ::
  "start_env \<Rightarrow> 'r raft_ops \<Rightarrow> Config \<Rightarrow> 'r node option \<Rightarrow> 'r world ControlServer" where
  "start_control e ops cfg n =
     (let cp = SetMetrics (Some world_publish) (cp_NewServer cfg [world_activate (st_table e) (st_parse e)]) in
      if n = None then cp
      else SetCluster (Some (world_controller (st_table e) ops (Cluster cfg))) (SetReadinessCheck (Some (world_ready ops)) cp))"

text \<open>\<open>r\<close> is Raft's state when the node starts.\<close>

definition startup :: "start_env \<Rightarrow> 'r raft_ops \<Rightarrow> 'r \<Rightarrow> start_error + 'r program" where
  "startup e ops r =
     and_then (start_config e) (\<lambda>cfg.
     and_then (start_auth e cfg) (\<lambda>auth.
     and_then (wrap RuntimeFailed (manager_New (st_parse e) cfg (start_authorizer e auth) True)) (\<lambda>mgr.
     and_then (start_cluster e r cfg) (\<lambda>n.
     and_then (start_listen e cfg) (\<lambda>loader.
       Inr \<lparr>pg_config = cfg, pg_auth = auth,
            pg_world = \<lparr>wd_gateway = \<lparr>gw_manager = mgr, gw_metrics = start_metrics cfg\<rparr>, wd_node = n\<rparr>,
            pg_control = start_control e ops cfg n,
            pg_listener = LimitListener (MaxConnections (Limits cfg)), pg_loader = loader\<rparr>)))))"

text \<open>A certificate that cannot be loaded at start is a panic, never a reported configuration error.\<close>

lemma unreadable_certificate_panics:
  assumes "start_config e = Inr cfg" and "start_auth e cfg = Inr auth"
    and "manager_New (st_parse e) cfg (start_authorizer e auth) True = Inr mgr"
    and "start_cluster e r cfg = Inr n" and "st_control_listen e" and "st_public_listen e"
    and "TLSCertFile (Config.Server cfg) \<noteq> []" and "TLSListener (st_certInfo e) (st_keyInfo e) (st_pair e) = Inl err"
  shows "startup e ops r = Inl (NilListenerClosed err)"
  using assms by (simp add: startup_def start_listen_def start_tls_def wrap_def)

section \<open>Shutdown\<close>

datatype serve_result = ServerClosed | ServeFailed

text \<open>
  The stages of the signal's goroutine: waiting for the signal, draining (it sleeps), shutting down
  the control server, then the public one, closing the runtime, closing the cluster, done.
\<close>

datatype stage = Waiting | Draining | ShutControl | ShutPublic | CloseRuntime | CloseCluster | Finished

text \<open>The stages are passed in this order.\<close>

fun stage_rank :: "stage \<Rightarrow> nat" where
  "stage_rank Waiting = 0"
| "stage_rank Draining = 1"
| "stage_rank ShutControl = 2"
| "stage_rank ShutPublic = 3"
| "stage_rank CloseRuntime = 4"
| "stage_rank CloseCluster = 5"
| "stage_rank Finished = 6"

lemma stage_rank_inject: "stage_rank s = stage_rank t \<longleftrightarrow> s = t"
  by (cases s; cases t) simp_all

instantiation stage :: linorder
begin

definition less_eq_stage :: "stage \<Rightarrow> stage \<Rightarrow> bool" where
  "less_eq_stage s t \<longleftrightarrow> stage_rank s \<le> stage_rank t"

definition less_stage :: "stage \<Rightarrow> stage \<Rightarrow> bool" where
  "less_stage s t \<longleftrightarrow> stage_rank s < stage_rank t"

instance
  by standard (auto simp: less_eq_stage_def less_stage_def stage_rank_inject)

end

lemmas stage_order = less_eq_stage_def less_stage_def

text \<open>
  Of each server: whether its goroutine is in \<^verbatim>\<open>Serve\<close>, what \<^verbatim>\<open>Serve\<close> has returned and the goroutine not
  yet sent, and whether the wait of \<^verbatim>\<open>Shutdown\<close> is over (its connections are idle, or the timeout has
  passed). \<open>ps_errors\<close> is the channel, whose two places make every send possible.
\<close>

record process =
  ps_signalled :: bool
  ps_stage :: stage
  ps_control_serving :: bool
  ps_control_result :: "serve_result option"
  ps_control_drained :: bool
  ps_public_serving :: bool
  ps_public_result :: "serve_result option"
  ps_public_drained :: bool
  ps_errors :: "serve_result list"
  ps_exit :: "int option"

definition process_start :: process where
  "process_start = \<lparr>ps_signalled = False, ps_stage = Waiting,
     ps_control_serving = True, ps_control_result = None, ps_control_drained = False,
     ps_public_serving = True, ps_public_result = None, ps_public_drained = False, ps_errors = [], ps_exit = None\<rparr>"

text \<open>
  The goroutines that \<^verbatim>\<open>main\<close> has started: the one that waits for the signal and shuts down, and those of
  the servers. \<^verbatim>\<open>Serve\<close> returns \<^verbatim>\<open>ErrServerClosed\<close> once its server's \<^verbatim>\<open>Shutdown\<close> has started, and \<^verbatim>\<open>Shutdown\<close>
  returns when \<^verbatim>\<open>Serve\<close> has and its wait is over.
\<close>

inductive worker_step :: "process \<Rightarrow> process \<Rightarrow> bool" where
  Drain: "ps_exit p = None \<Longrightarrow> ps_signalled p \<Longrightarrow> ps_stage p = Waiting \<Longrightarrow>
    worker_step p (p\<lparr>ps_stage := Draining\<rparr>)"
| StopControl: "ps_exit p = None \<Longrightarrow> ps_stage p = Draining \<Longrightarrow> worker_step p (p\<lparr>ps_stage := ShutControl\<rparr>)"
| ControlClosed: "ps_exit p = None \<Longrightarrow> ps_control_serving p \<Longrightarrow> ps_stage p = ShutControl \<Longrightarrow>
    worker_step p (p\<lparr>ps_control_serving := False, ps_control_result := Some ServerClosed\<rparr>)"
| ControlReports: "ps_exit p = None \<Longrightarrow> ps_control_result p = Some r \<Longrightarrow>
    worker_step p (p\<lparr>ps_control_result := None, ps_errors := ps_errors p @ [r]\<rparr>)"
| ControlDrained: "ps_exit p = None \<Longrightarrow> ps_stage p = ShutControl \<Longrightarrow> \<not> ps_control_drained p \<Longrightarrow>
    worker_step p (p\<lparr>ps_control_drained := True\<rparr>)"
| StopPublic: "ps_exit p = None \<Longrightarrow> ps_stage p = ShutControl \<Longrightarrow> \<not> ps_control_serving p \<Longrightarrow> ps_control_drained p \<Longrightarrow>
    worker_step p (p\<lparr>ps_stage := ShutPublic\<rparr>)"
| PublicClosed: "ps_exit p = None \<Longrightarrow> ps_public_serving p \<Longrightarrow> ps_stage p = ShutPublic \<Longrightarrow>
    worker_step p (p\<lparr>ps_public_serving := False, ps_public_result := Some ServerClosed\<rparr>)"
| PublicReports: "ps_exit p = None \<Longrightarrow> ps_public_result p = Some r \<Longrightarrow>
    worker_step p (p\<lparr>ps_public_result := None, ps_errors := ps_errors p @ [r]\<rparr>)"
| PublicDrained: "ps_exit p = None \<Longrightarrow> ps_stage p = ShutPublic \<Longrightarrow> \<not> ps_public_drained p \<Longrightarrow>
    worker_step p (p\<lparr>ps_public_drained := True\<rparr>)"
| StopRuntime: "ps_exit p = None \<Longrightarrow> ps_stage p = ShutPublic \<Longrightarrow> \<not> ps_public_serving p \<Longrightarrow> ps_public_drained p \<Longrightarrow>
    worker_step p (p\<lparr>ps_stage := CloseRuntime\<rparr>)"
| StopCluster: "ps_exit p = None \<Longrightarrow> ps_stage p = CloseRuntime \<Longrightarrow> worker_step p (p\<lparr>ps_stage := CloseCluster\<rparr>)"
| Finish: "ps_exit p = None \<Longrightarrow> ps_stage p = CloseCluster \<Longrightarrow> worker_step p (p\<lparr>ps_stage := Finished\<rparr>)"

text \<open>\<^verbatim>\<open>main\<close> leaves with the first error in the channel, and the process ends with it.\<close>

inductive main_step :: "process \<Rightarrow> process \<Rightarrow> bool" where
  Exit: "ps_exit p = None \<Longrightarrow> ps_errors p = err # errs \<Longrightarrow>
    main_step p (p\<lparr>ps_errors := errs, ps_exit := Some (case err of ServerClosed \<Rightarrow> 0 | ServeFailed \<Rightarrow> 1)\<rparr>)"

text \<open>What comes from outside: the signal, and errors of the listeners.\<close>

inductive outside_step :: "process \<Rightarrow> process \<Rightarrow> bool" where
  Signal: "ps_exit p = None \<Longrightarrow> \<not> ps_signalled p \<Longrightarrow> outside_step p (p\<lparr>ps_signalled := True\<rparr>)"
| ControlFails: "ps_exit p = None \<Longrightarrow> ps_control_serving p \<Longrightarrow>
    outside_step p (p\<lparr>ps_control_serving := False, ps_control_result := Some ServeFailed\<rparr>)"
| PublicFails: "ps_exit p = None \<Longrightarrow> ps_public_serving p \<Longrightarrow>
    outside_step p (p\<lparr>ps_public_serving := False, ps_public_result := Some ServeFailed\<rparr>)"

inductive process_step :: "process \<Rightarrow> process \<Rightarrow> bool" where
  Worker: "worker_step p p' \<Longrightarrow> process_step p p'"
| Main: "main_step p p' \<Longrightarrow> process_step p p'"
| Outside: "outside_step p p' \<Longrightarrow> process_step p p'"

inductive process_reachable :: "process \<Rightarrow> bool" where
  Started: "process_reachable process_start"
| Stepped: "process_reachable p \<Longrightarrow> process_step p p' \<Longrightarrow> process_reachable p'"

inductive_simps process_step_iff: "process_step p p'"
inductive_simps exits_iff: "main_step p p'"

definition process_inv :: "process \<Rightarrow> bool" where
  "process_inv p \<longleftrightarrow>
     (ps_control_serving p \<or> ps_control_result p \<noteq> None \<or> ps_errors p \<noteq> [] \<or> ps_exit p \<noteq> None) \<and>
     (ps_public_serving p \<or> ps_public_result p \<noteq> None \<or> ps_errors p \<noteq> [] \<or> ps_exit p \<noteq> None) \<and>
     (ps_control_serving p \<longrightarrow> ps_control_result p = None) \<and> (ps_public_serving p \<longrightarrow> ps_public_result p = None) \<and>
     (ShutPublic \<le> ps_stage p \<longrightarrow> \<not> ps_control_serving p \<and> ps_control_drained p) \<and>
     (CloseRuntime \<le> ps_stage p \<longrightarrow> \<not> ps_public_serving p \<and> ps_public_drained p) \<and>
     (ps_signalled p \<or> ps_stage p = Waiting)"

lemma process_inv_worker: "worker_step p p' \<Longrightarrow> process_inv p \<Longrightarrow> process_inv p'"
  by (induction rule: worker_step.induct) (auto simp: process_inv_def stage_order)

lemma process_inv_step: "process_step p p' \<Longrightarrow> process_inv p \<Longrightarrow> process_inv p'"
  by (elim process_step.cases main_step.cases outside_step.cases)
    (auto simp: process_inv_worker, auto simp: process_inv_def stage_order)

lemma stages_advance: "process_step p p' \<Longrightarrow> ps_stage p \<le> ps_stage p'"
  by (auto simp: stage_order elim!: process_step.cases worker_step.cases main_step.cases outside_step.cases)

lemma process_reachable_inv: "process_reachable p \<Longrightarrow> process_inv p"
  by (induction rule: process_reachable.induct)
    (simp add: process_inv_def process_start_def stage_order, rule process_inv_step)

text \<open>
  From the moment the graceful shutdown of the data plane may start, the process can exit at
  any time: the control server's \<^verbatim>\<open>ErrServerClosed\<close> is in the channel that \<^verbatim>\<open>main\<close> waits on, or about to be
  sent, and \<^verbatim>\<open>main\<close> returns with it, whether or not requests in flight have been drained.
\<close>

lemma exit_races_data_plane_drain:
  assumes "process_reachable p" and "ps_exit p = None" and "ShutPublic \<le> ps_stage p"
  shows "\<exists>p'. process_step\<^sup>*\<^sup>* p p' \<and> ps_exit p' \<noteq> None \<and> ps_public_serving p' = ps_public_serving p \<and>
    ps_public_drained p' = ps_public_drained p"
proof -
  have leave: "\<exists>p'. process_step q p' \<and> ps_exit p' \<noteq> None \<and> ps_public_serving p' = ps_public_serving q \<and>
      ps_public_drained p' = ps_public_drained q"
    if "ps_exit q = None" "ps_errors q = err # errs" for q err errs
    using Main [OF Exit [OF that]] by force
  show ?thesis
  proof (cases "ps_errors p")
    case (Cons err errs)
    from leave [OF assms(2) this] show ?thesis by blast
  next
    case Nil
    with process_reachable_inv [OF assms(1)] assms(2,3) obtain r where r: "ps_control_result p = Some r"
      by (auto simp: process_inv_def)
    let ?q = "p\<lparr>ps_control_result := None, ps_errors := ps_errors p @ [r]\<rparr>"
    have "process_step p ?q" by (rule Worker, rule ControlReports [OF assms(2) r])
    moreover obtain p' where "process_step ?q p'" "ps_exit p' \<noteq> None" "ps_public_serving p' = ps_public_serving ?q"
      "ps_public_drained p' = ps_public_drained ?q"
      using leave [of ?q r "[]"] assms(2) Nil by auto
    ultimately show ?thesis by (intro exI [of _ p']) (auto intro: converse_rtranclp_into_rtranclp)
  qed
qed

text \<open>A run of the shutdown, with the servers' reports not yet sent.\<close>

lemma worked: "process_reachable p \<Longrightarrow> worker_step p p' \<Longrightarrow> process_reachable p'"
  by (rule Stepped, assumption, rule Worker)

definition before_public_drain :: process where
  "before_public_drain = process_start\<lparr>ps_signalled := True, ps_stage := ShutPublic,
     ps_control_serving := False, ps_control_result := Some ServerClosed, ps_control_drained := True\<rparr>"

lemma before_public_drain_reachable: "process_reachable before_public_drain"
proof -
  have s1: "process_reachable (process_start\<lparr>ps_signalled := True\<rparr>)"
    by (rule Stepped [OF Started Outside], rule Signal) (simp_all add: process_start_def)
  have s2: "process_reachable (process_start\<lparr>ps_signalled := True, ps_stage := Draining\<rparr>)"
    by (rule worked [OF s1 Drain]) (simp_all add: process_start_def)
  have s3: "process_reachable (process_start\<lparr>ps_signalled := True, ps_stage := ShutControl\<rparr>)"
    using worked [OF s2 StopControl] by (simp add: process_start_def)
  have s4: "process_reachable (before_public_drain\<lparr>ps_stage := ShutControl, ps_control_drained := False\<rparr>)"
    using worked [OF s3 ControlClosed] by (simp add: process_start_def before_public_drain_def)
  have s5: "process_reachable (before_public_drain\<lparr>ps_stage := ShutControl\<rparr>)"
    using worked [OF s4 ControlDrained] by (simp add: process_start_def before_public_drain_def)
  show ?thesis
    using worked [OF s5 StopPublic] by (simp add: process_start_def before_public_drain_def)
qed

text \<open>
  Claim C33: the runtime and its health checks, and after them the cluster node, are closed only when
  both servers have stopped serving, whatever failed on the way; and no step of the shutdown is undone.
\<close>

theorem runtime_closed_after_servers:
  assumes "process_reachable p" and "CloseRuntime \<le> ps_stage p" and "process_step\<^sup>*\<^sup>* p p'"
  shows "ps_signalled p \<and> \<not> ps_control_serving p \<and> \<not> ps_public_serving p \<and> CloseRuntime \<le> ps_stage p'"
proof -
  from assms(3) have "ps_stage p \<le> ps_stage p'"
    by (induction rule: rtranclp_induct) (auto dest: stages_advance)
  moreover have "ShutPublic \<le> ps_stage p" "ps_stage p \<noteq> Waiting" using assms(2) by (auto simp: stage_order)
  ultimately show ?thesis using process_reachable_inv [OF assms(1)] assms(2) by (auto simp: process_inv_def)
qed

definition runtime_closing :: process where
  "runtime_closing = before_public_drain\<lparr>ps_stage := CloseRuntime,
     ps_public_serving := False, ps_public_result := Some ServerClosed, ps_public_drained := True\<rparr>"

lemmas runtime_closing_fields = runtime_closing_def before_public_drain_def process_start_def

lemma runtime_closing_reachable: "process_reachable runtime_closing"
proof -
  have s1: "process_reachable (runtime_closing\<lparr>ps_stage := ShutPublic, ps_public_drained := False\<rparr>)"
    using worked [OF before_public_drain_reachable PublicClosed] by (simp add: runtime_closing_fields)
  have s2: "process_reachable (runtime_closing\<lparr>ps_stage := ShutPublic\<rparr>)"
    using worked [OF s1 PublicDrained] by (simp add: runtime_closing_fields)
  show ?thesis using worked [OF s2 StopRuntime] by (simp add: runtime_closing_fields)
qed

theorem runtime_closed_after_servers_witness:
  "\<not> ps_public_serving runtime_closing \<and> CloseRuntime \<le> ps_stage (runtime_closing\<lparr>ps_stage := CloseCluster\<rparr>)"
proof -
  have "process_step\<^sup>*\<^sup>* runtime_closing (runtime_closing\<lparr>ps_stage := CloseCluster\<rparr>)"
    by (rule r_into_rtranclp, rule Worker, rule StopCluster) (simp_all add: runtime_closing_fields)
  from runtime_closed_after_servers [OF runtime_closing_reachable _ this] show ?thesis
    by (simp add: runtime_closing_def stage_order)
qed

section \<open>The end of the process\<close>

text \<open>
  What is left to do: the exit, the signal, the stages and the waits, and of each server the return
  of \<^verbatim>\<open>Serve\<close> and its report.
\<close>

definition server_steps :: "bool \<Rightarrow> serve_result option \<Rightarrow> bool \<Rightarrow> nat" where
  "server_steps serving result drained =
     (if serving then 2 else if result \<noteq> None then 1 else 0) + (if drained then 0 else 1)"

definition steps_left :: "process \<Rightarrow> nat" where
  "steps_left p =
     (if ps_exit p \<noteq> None then 0
      else 1 + (if ps_signalled p then 0 else 1) + (6 - stage_rank (ps_stage p)) +
        server_steps (ps_control_serving p) (ps_control_result p) (ps_control_drained p) +
        server_steps (ps_public_serving p) (ps_public_result p) (ps_public_drained p))"

lemma step_decreases:
  assumes "process_step p p'" and "process_inv p"
  shows "steps_left p' < steps_left p"
  using assms
  by (elim process_step.cases worker_step.cases main_step.cases outside_step.cases)
    (auto simp: steps_left_def server_steps_def process_inv_def)



text \<open>Once signalled, the goroutines always have a step until the shutdown is finished.\<close>

lemma worker_progress:
  assumes "process_inv p" and "ps_exit p = None" and "ps_signalled p" and "ps_stage p \<noteq> Finished"
  shows "\<exists>p'. worker_step p p'"
proof (cases "ps_stage p")
  case ShutControl
  with assms(2) show ?thesis
    by (cases "ps_control_serving p"; cases "ps_control_drained p") (blast intro: ControlClosed ControlDrained StopPublic)+
next
  case ShutPublic
  with assms(2) show ?thesis
    by (cases "ps_public_serving p"; cases "ps_public_drained p") (blast intro: PublicClosed PublicDrained StopRuntime)+
qed (use assms(2-4) in \<open>blast intro: Drain StopControl StopCluster Finish\<close>)+




text \<open>So the shutdown that \<^verbatim>\<open>main\<close> does not cut short closes the runtime and the cluster.\<close>

lemma shutdown_completes:
  assumes "process_reachable p" and "ps_exit p = None" and "ps_signalled p"
  shows "\<exists>p'. worker_step\<^sup>*\<^sup>* p p' \<and> ps_stage p' = Finished \<and> \<not> ps_control_serving p' \<and> \<not> ps_public_serving p'"
  using assms
proof (induction "steps_left p" arbitrary: p rule: less_induct)
  case less
  note inv = process_reachable_inv [OF less.prems(1)]
  show ?case
  proof (cases "ps_stage p = Finished")
    case True
    with inv show ?thesis by (intro exI [of _ p]) (simp add: process_inv_def stage_order)
  next
    case False
    with worker_progress [OF inv less.prems(2,3)] obtain q where q: "worker_step p q" by blast
    then have "ps_exit q = None" "ps_signalled q" using less.prems(2,3) by (auto elim: worker_step.cases)
    with less.hyps [OF step_decreases [OF Worker [OF q] inv] worked [OF less.prems(1) q]] q
    show ?thesis by (blast intro: converse_rtranclp_into_rtranclp)
  qed
qed

section \<open>The running program\<close>

text \<open>
  Every runtime, current or not, has the authorizer \<open>auth\<close>, and without one it has no route that
  requires it.
\<close>

definition guarded_heap :: "authorize option \<Rightarrow> Server \<Rightarrow> bool" where
  "guarded_heap auth s \<longleftrightarrow>
     list_all (\<lambda>rt. rt_authorizer rt = auth \<and> (auth = None \<longrightarrow> list_all (\<lambda>r. \<not> cr_requireAuth r) (rt_routes rt))) (srv_heap s)"

text \<open>The authorizer matches the authentication mode.\<close>

definition guarded :: "authorize option \<Rightarrow> Manager \<Rightarrow> bool" where
  "guarded auth m \<longleftrightarrow>
     (auth = None \<longrightarrow> Mode (Auth (mgr_config m)) = ''disabled'') \<and> guarded_heap auth (mgr_dataPlane m)"

lemma guarded_events [simp]: "guarded_heap auth (s\<lparr>srv_events := ev\<rparr>) = guarded_heap auth s"
  by (simp add: guarded_heap_def)

lemma guarded_update:
  assumes "guarded_heap auth s" and "\<And>rt. rt_authorizer (f rt) = rt_authorizer rt \<and> rt_routes (f rt) = rt_routes rt"
  shows "guarded_heap auth (update_runtime g f s)"
  using assms by (auto simp: guarded_heap_def list_all_length update_runtime_nth)

lemma guarded_stop: "guarded_heap auth s \<Longrightarrow> guarded_heap auth (stop cur s)"
  by (auto simp: stop_def intro!: guarded_update split: option.split)

lemma guarded_handler:
  assumes "guarded_heap auth s" and "dataplane_Handler env s req w = (s', req', res)"
  shows "guarded_heap auth s'"
  using assms
  by (auto simp: dataplane_Handler_def enter_def serve_in_def leave_def Let_def guarded_update
      split: sum.splits prod.splits option.splits if_splits)

lemma compiled_open:
  assumes "compilable parse cfg" and "Mode (Auth cfg) = ''disabled''"
  shows "list_all (\<lambda>r. \<not> cr_requireAuth r) (rt_routes (runtime_of parse auth cfg))"
proof -
  have "valid_config parse cfg" using assms(1) by (simp add: compilable_def Validate_ok)
  with assms(2) show ?thesis
    by (simp add: valid_config_def runtime_of_def list_all_iff compile_route_def)
qed

lemma guarded_reconfigure:
  assumes "Reconfigure parse c s = Inr s'" and "current s \<noteq> None" and "guarded_heap auth s"
    and "auth = None \<longrightarrow> Mode (Auth c) = ''disabled''"
  shows "guarded_heap auth s'"
proof -
  from assms(2) obtain g where g: "srv_current s = Some g" "g < length (srv_heap s)"
    by (auto simp: current_def split: option.splits if_splits)
  with assms(3) have "currentAuthorizer (current s) = auth"
    by (simp add: current_def currentAuthorizer_def guarded_heap_def list_all_length)
  with assms(1) have c: "compilable parse c" and s': "s' = stop (srv_current s)
      (s\<lparr>srv_heap := srv_heap s @ [runtime_of parse auth c], srv_current := Some (length (srv_heap s))\<rparr>)"
    by (simp_all add: Reconfigure_Inr)
  have "rt_authorizer (runtime_of parse auth c) = auth" by (simp add: runtime_of_def)
  with assms(3,4) compiled_open [OF c, of auth] show ?thesis
    unfolding s' by (intro guarded_stop) (auto simp: guarded_heap_def)
qed

lemma guarded_activate:
  assumes "guarded auth m" and "manager_inv m" and "manager_Activate parse c m = (e, m')"
  shows "guarded auth m'"
proof (cases "same_restart_sections (mgr_config m) c")
  case False
  with assms show ?thesis by (simp add: manager_Activate_def)
next
  case True
  have cur: "current (mgr_dataPlane m) \<noteq> None" using assms(2) by (auto simp: manager_inv_def)
  have mode: "Mode (Auth (Clone c)) = Mode (Auth (mgr_config m))" "Mode (Auth c) = Mode (Auth (mgr_config m))"
    using True by (simp_all add: same_restart_sections_def Clone_def)
  have "guarded_heap auth dp" if "Reconfigure parse c (mgr_dataPlane m) = Inr dp" for dp
    by (rule guarded_reconfigure [OF that cur]) (use assms(1) mode in \<open>simp_all add: guarded_def\<close>)
  with assms(1,3) mode True show ?thesis
    by (auto simp: manager_Activate_def guarded_def record_activation_def split: sum.splits if_splits)
qed

lemma wrap_Inr [simp]: "wrap f r = Inr x \<longleftrightarrow> r = Inr x"
  by (simp add: wrap_def split: sum.split)

lemma startup_guarded:
  assumes "startup e ops r = Inr pg"
  shows "guarded (start_authorizer e (pg_auth pg)) (gw_manager (wd_gateway (pg_world pg))) \<and>
    manager_inv (gw_manager (wd_gateway (pg_world pg)))"
proof -
  from assms obtain cfg auth mgr where cfg: "start_auth e cfg = Inr auth"
    and mgr: "manager_New (st_parse e) cfg (start_authorizer e auth) True = Inr mgr"
    and pg: "pg_auth pg = auth" "gw_manager (wd_gateway (pg_world pg)) = mgr"
    by (auto simp: startup_def and_then_eq_Inr)
  let ?rt = "runtime_of (st_parse e) (start_authorizer e auth) cfg"
  from mgr have comp: "compilable (st_parse e) cfg" and heap: "srv_heap (mgr_dataPlane mgr) = [?rt]"
    and mc: "mgr_config mgr = Clone cfg"
    by (auto simp: manager_New_def NewServerWithEvents_def ReconfigureWithAuthorizer_def compile_Inr
        and_then_eq_Inr stop_def)
  have "auth = None \<longrightarrow> Mode (Auth cfg) = ''disabled''"
    using cfg by (auto simp: start_auth_def and_then_eq_Inr split: if_splits)
  moreover have "rt_authorizer ?rt = start_authorizer e auth" by (simp add: runtime_of_def)
  moreover have "Mode (Auth (Clone cfg)) = Mode (Auth cfg)" by (simp add: Clone_def)
  ultimately show ?thesis
    using compiled_open [OF comp] heap manager_New_inv [OF mgr]
    by (auto simp: guarded_def guarded_heap_def pg mc start_authorizer_def)
qed

text \<open>
  In a program that has started, after any sequence of activations (accepted or refused), a route that
  requires authentication is served with the authorizer made at start: the case of a protected route
  without an authorizer never comes up.
\<close>

lemma protected_routes_have_authorizer:
  assumes "guarded (start_authorizer e a) m" and "rt \<in> set (srv_heap (mgr_dataPlane m))"
    and "route \<in> set (rt_routes rt)" and "cr_requireAuth route"
  shows "\<exists>mw. a = Some mw \<and> rt_authorizer rt = Some (Authorize (st_auth_lib e) mw)"
  using assms by (cases a) (auto simp: guarded_def guarded_heap_def start_authorizer_def list_all_iff)

definition sample_auth_config :: Config where
  "sample_auth_config = sample_config\<lparr>
     Auth := (Auth sample_config)\<lparr>Mode := ''bearer'', IssuerURL := ''http://idp'', ClientID := ''gw''\<rparr>,
     Routes := Some [\<lparr>route_Name = ''api'', route_Host = [], PathPrefix = ''/api'', Methods = None,
       route_Upstream = ''api'', RequireAuth = True, route_Scopes = None, route_Headers = None\<rparr>]\<rparr>"

definition sample_start :: start_env where
  "sample_start = \<lparr>st_path = ''gw.toml'', st_parse = sample_parse, st_table = (\<lambda>_. False), st_decode = (\<lambda>_ _. Some (sample_auth_config, [])),
     st_read = (\<lambda>_. Some []), st_discover = (\<lambda>_ _. mw_verifier sample_middleware), st_fresh = Some ''k'',
     st_auth_lib = sample_lib,
     st_boot = \<lparr>bo_mkdir = None, bo_store = None, bo_snapshots = None, bo_resolve = None, bo_transport = None,
       bo_raft = None, bo_bootstrap = None, bo_exists = False\<rparr>,
     st_control_listen = True, st_public_listen = True, st_certInfo = None, st_keyInfo = None, st_pair = None\<rparr>"

text \<open>The middleware that it makes.\<close>

definition sample_bearer :: Middleware where
  "sample_bearer = newMiddleware ''bearer'' (mw_verifier sample_middleware) ''k'' ''go_serve_session''"

lemma sample_start_ok:
  "\<exists>pg. startup sample_start sample_raft () = Inr pg \<and> pg_auth pg = Some sample_bearer \<and>
     srv_heap (mgr_dataPlane (gw_manager (wd_gateway (pg_world pg)))) =
       [runtime_of sample_parse (Some (Authorize sample_lib sample_bearer)) sample_auth_config]"
proof -
  have ok: "is_ok (Validate sample_parse sample_auth_config)" by code_simp
  then have valid: "Validate sample_parse sample_auth_config = Inr ()" by (simp add: unit_result)
  have comp: "compilable sample_parse sample_auth_config"
    using ok by (simp add: compilable_def sample_auth_config_def sample_config_def upstream_ok_def absolute_url_def sample_parse_def)
  have cfg: "start_config sample_start = Inr sample_auth_config"
    by (simp add: start_config_def sample_start_def LoadFile_def ParseTOML_def valid wrap_def)
  have auth: "start_auth sample_start sample_auth_config = Inr (Some sample_bearer)"
    by (simp add: start_auth_def sample_start_def sample_auth_config_def auth_New_def session_key_def wrap_def Let_def
        sample_middleware_def sample_bearer_def sample_config_def Default_def)
  let ?auth = "start_authorizer sample_start (Some sample_bearer)"
  let ?rt = "runtime_of sample_parse ?auth sample_auth_config"
  have "compile sample_parse ?auth sample_auth_config = Inr ?rt" using comp by (simp add: compile_Inr)
  then obtain mgr where mgr: "manager_New sample_parse sample_auth_config ?auth True = Inr mgr"
    and heap: "srv_heap (mgr_dataPlane mgr) = [?rt]"
    by (simp add: manager_New_def NewServerWithEvents_def ReconfigureWithAuthorizer_def stop_def)
  have rest: "start_cluster sample_start () sample_auth_config = Inr None"
    "start_listen sample_start sample_auth_config = Inr None" "st_parse sample_start = sample_parse"
    "st_auth_lib sample_start = sample_lib"
    by (simp_all add: start_cluster_def start_listen_def sample_start_def sample_auth_config_def sample_config_def Default_def)
  then have "?auth = Some (Authorize sample_lib sample_bearer)" by (simp add: start_authorizer_def)
  with cfg auth mgr heap rest show ?thesis by (simp add: startup_def wrap_def)
qed

end
