(* ===== verification/Program.thy ===== *)
theory Program imports Lifecycle begin

text \<open>
  The running program: the two handler chains that \<^verbatim>\<open>main\<close> builds (authentication, metrics, cluster and
  control plane on one listener; metrics, placement and data plane on the other), the interpretation of
  the control plane's interface on the whole program's state, and the properties of the composition.
\<close>

section \<open>The parts of the state\<close>

definition metrics_of :: "'r program \<Rightarrow> Metrics" where
  "metrics_of pg = gw_metrics (wd_gateway (pg_world pg))"

definition put_metrics :: "Metrics \<Rightarrow> 'r program \<Rightarrow> 'r program" where
  "put_metrics m pg =
     pg\<lparr>pg_world := (pg_world pg)\<lparr>wd_gateway := (wd_gateway (pg_world pg))\<lparr>gw_metrics := m\<rparr>\<rparr>\<rparr>"

definition manager_of :: "'r program \<Rightarrow> Manager" where
  "manager_of pg = gw_manager (wd_gateway (pg_world pg))"

definition put_manager :: "Manager \<Rightarrow> 'r program \<Rightarrow> 'r program" where
  "put_manager m pg =
     pg\<lparr>pg_world := (pg_world pg)\<lparr>wd_gateway := (wd_gateway (pg_world pg))\<lparr>gw_manager := m\<rparr>\<rparr>\<rparr>"

text \<open>The node exists throughout or not at all: the handlers that read it are built only when it does.\<close>

definition node_of :: "'r program \<Rightarrow> 'r node" where
  "node_of pg = the (wd_node (pg_world pg))"

definition put_node :: "'r node \<Rightarrow> 'r program \<Rightarrow> 'r program" where
  "put_node n pg = pg\<lparr>pg_world := (pg_world pg)\<lparr>wd_node := Some n\<rparr>\<rparr>"

text \<open>The metrics are the event sink of the data plane and of the manager: their events are counted.\<close>

definition count_events :: "'r program \<Rightarrow> 'r program" where
  "count_events pg =
     (let m = manager_of pg; dp = mgr_dataPlane m
      in put_manager (m\<lparr>mgr_dataPlane := dp\<lparr>srv_events := []\<rparr>\<rparr>)
           (put_metrics (fold record_event (srv_events dp) (metrics_of pg)) pg))"

section \<open>The handler chains\<close>

text \<open>What a request on the control listener draws from its environment.\<close>

record control_env =
  ce_lib :: cp_lib
  ce_auth_lib :: auth_lib
  ce_auth :: auth_env
  ce_pprof :: "string \<Rightarrow> response \<Rightarrow> response"
  ce_body :: string
  ce_join :: "string \<Rightarrow> (string \<times> string) option"
  ce_show_time :: "time \<Rightarrow> string"
  ce_clock :: "nat \<Rightarrow> time"
  ce_table :: "nat \<Rightarrow> bool"
  ce_series :: "requestSeries visit"
  ce_outcomes :: "string visit"

definition control_api :: "control_env \<Rightarrow> 'r program handler" where
  "control_api ce pg req w =
     (case cp_Handler (ce_lib ce) (ce_pprof ce) (ce_body ce) (pg_control pg) (pg_world pg) req w of
        (cp', wd', w') \<Rightarrow> (count_events (pg\<lparr>pg_control := cp', pg_world := wd'\<rparr>), req, w'))"

definition with_node :: "'r raft_ops \<Rightarrow> control_env \<Rightarrow> 'r program handler" where
  "with_node ops ce pg =
     (if wd_node (pg_world pg) = None then control_api ce pg
      else node_Handler ops (ce_lib ce) (ce_join ce) (ce_show_time ce) (ce_clock ce) (Cluster (pg_config pg))
             (ce_body ce) node_of put_node (control_api ce) pg)"

definition observed :: "'r raft_ops \<Rightarrow> control_env \<Rightarrow> 'r program handler" where
  "observed ops ce =
     metrics_Endpoint (ce_table ce) (ce_series ce) (ce_outcomes ce) metrics_of
       (metrics_Middleware metrics_of put_metrics (with_node ops ce))"

text \<open>The control listener's handler; \<open>None\<close> is the panic of a callback without a verifier.\<close>

definition control_handler ::
  "'r raft_ops \<Rightarrow> control_env \<Rightarrow> 'r program \<Rightarrow> request \<Rightarrow> response \<Rightarrow> ('r program \<times> request \<times> response) option" where
  "control_handler ops ce pg req w =
     (case pg_auth pg of
        None \<Rightarrow> Some (observed ops ce pg req w)
      | Some m \<Rightarrow>
          map_option (\<lambda>(m', pg', req', w'). (pg'\<lparr>pg_auth := Some m'\<rparr>, req', w'))
            (Protect (ce_auth_lib ce) (ce_auth ce) (observed ops ce) m pg req w))"

text \<open>
  The public listener's handler. A panic in the data plane leaves the response as it was when the
  handler was called; \<^verbatim>\<open>net/http\<close> then closes the connection.
\<close>

definition gateway_handler :: "serve_env \<Rightarrow> 'r program handler" where
  "gateway_handler env pg req w =
     (case dataplane_Handler env (mgr_dataPlane (manager_of pg)) req w of
        (dp, req', res) \<Rightarrow>
          (count_events (put_manager ((manager_of pg)\<lparr>mgr_dataPlane := dp\<rparr>) pg), req',
           case res of None \<Rightarrow> w | Some w' \<Rightarrow> w'))"

definition public_handler :: "'r raft_ops \<Rightarrow> serve_env \<Rightarrow> proxy_env \<Rightarrow> 'r program handler" where
  "public_handler ops env px =
     metrics_Middleware metrics_of put_metrics
       (\<lambda>pg. if wd_node (pg_world pg) = None then gateway_handler env pg
             else Proxy ops px (Cluster (pg_config pg)) node_of put_node (gateway_handler env) pg)"

section \<open>The control plane's interface on the whole state\<close>

definition world_active :: "'r world \<Rightarrow> Config" where
  "world_active wd = gw_active (wd_gateway wd)"

text \<open>\<open>auth\<close> is the authorizer made at start, and \<open>fl\<close> are the generations of the requests in flight.\<close>

definition manager_safe :: "authorize option \<Rightarrow> nat list \<Rightarrow> Manager \<Rightarrow> bool" where
  "manager_safe auth fl m \<longleftrightarrow> guarded auth m \<and> admitted fl (mgr_dataPlane m)"

definition world_sound :: "authorize option \<Rightarrow> nat list \<Rightarrow> 'r world \<Rightarrow> bool" where
  "world_sound auth fl wd \<longleftrightarrow> gw_sound (wd_gateway wd) \<and> manager_safe auth fl (gw_manager (wd_gateway wd))"

lemma gw_activate_safe:
  assumes "gw_activate table parse c gw = (e, gw')" and "gw_sound gw" and "manager_safe auth fl (gw_manager gw)"
  shows "manager_safe auth fl (gw_manager gw')"
  using assms Activate_admitted guarded_activate
  by (fastforce simp: gw_activate_def gw_sound_def manager_safe_def split: prod.splits)

interpretation world: activator "world_activate table parse" world_publish world_active "world_sound auth fl"
  for table parse auth fl
proof (unfold_locales, goal_cases)
  case (1 wd c wd')
  then show ?case using manager.accepted [of "wd_gateway wd" table parse c]
    by (auto simp: world_activate_def world_active_def world_sound_def gw_activate_safe split: prod.splits)
next
  case (2 wd c e wd')
  then show ?case using manager.refused [of "wd_gateway wd" table parse c e]
    by (auto simp: world_activate_def world_active_def world_sound_def gw_activate_safe split: prod.splits)
next
  case (3 wd v)
  then show ?case using manager.published [of "wd_gateway wd" v]
    by (auto simp: world_publish_def world_active_def world_sound_def gw_publish_def)
qed

lemma world_controller_harmless: "harmless world_active (world_sound auth fl) (world_controller table ops cfg)"
  by (auto simp: harmless_def world_controller_def on_node_def Let_def world_active_def world_sound_def
      split: option.split prod.split)

definition program_controls :: "(nat \<Rightarrow> bool) \<Rightarrow> (string \<Rightarrow> url option) \<Rightarrow> authorize option \<Rightarrow> nat list \<Rightarrow> 'r program \<Rightarrow> bool" where
  "program_controls table parse auth fl pg \<longleftrightarrow>
     controls (world_activate table parse) world_publish world_active (world_sound auth fl) (pg_control pg) (pg_world pg) \<and>
     (\<forall>co. cp_cluster (pg_control pg) = Some co \<longrightarrow> (\<forall>auth fl. harmless world_active (world_sound auth fl) co))"

text \<open>What is said of the program whose parts the invariant speaks of.\<close>

lemma program_controls_agree:
  assumes "program_controls table parse auth fl pg"
  shows "cp_current (pg_control pg) = mgr_config (manager_of pg) \<and>
    running_config (mgr_dataPlane (manager_of pg)) = Some (cp_current (pg_control pg)) \<and>
    manager_safe auth fl (manager_of pg)"
  using assms
  by (auto simp: program_controls_def controls_def control_inv_def world_active_def world_sound_def gw_active_def
      gw_sound_def manager_of_def manager_inv_running)

lemma startup_controls:
  assumes "startup e ops r = Inr pg"
  shows "program_controls (st_table e) (st_parse e) (start_authorizer e (pg_auth pg)) [] pg"
proof -
  from assms obtain cfg auth mgr n where mgr: "manager_New (st_parse e) cfg (start_authorizer e auth) True = Inr mgr"
    and pg: "pg_world pg = \<lparr>wd_gateway = \<lparr>gw_manager = mgr, gw_metrics = start_metrics cfg\<rparr>, wd_node = n\<rparr>"
      "pg_control pg = start_control e ops cfg n"
    by (auto simp: startup_def and_then_eq_Inr)
  have "manager_safe (start_authorizer e (pg_auth pg)) [] mgr"
    using startup_guarded [OF assms] manager_New_admitted [OF mgr] by (simp add: manager_safe_def pg(1))
  with manager_New_inv [OF mgr]
  have "control_inv (world_activate (st_table e) (st_parse e)) world_publish world_active (world_sound (start_authorizer e (pg_auth pg)) [])
      \<lparr>ct_server = pg_control pg, ct_world = pg_world pg, ct_log = []\<rparr>"
    by (simp add: control_inv_def pg start_control_def Let_def SetCluster_def SetReadinessCheck_def SetMetrics_def
        cp_NewServer_def cp_current_def snapshot_facts log_ok_def world_active_def world_sound_def gw_active_def gw_sound_def)
  moreover have "harmless world_active (world_sound auth' fl) ops'" if "cp_cluster (pg_control pg) = Some ops'" for auth' fl ops'
    using that world_controller_harmless [of auth' fl "st_table e" ops "Cluster cfg"]
    by (auto simp: pg start_control_def Let_def SetCluster_def SetReadinessCheck_def SetMetrics_def cp_NewServer_def
        split: if_splits)
  ultimately show ?thesis unfolding program_controls_def controls_def by blast
qed

section \<open>What keeps the agreement\<close>

lemma parts_simps [simp]:
  "manager_of (put_metrics m pg) = manager_of pg" "metrics_of (put_metrics m pg) = m"
  "manager_of (put_manager mgr pg) = mgr" "metrics_of (put_manager mgr pg) = metrics_of pg"
  "manager_of (put_node n pg) = manager_of pg" "metrics_of (put_node n pg) = metrics_of pg"
  "pg_control (put_metrics m pg) = pg_control pg" "pg_control (put_manager mgr pg) = pg_control pg"
  "pg_control (put_node n pg) = pg_control pg" "pg_control (count_events pg) = pg_control pg"
  "pg_auth (put_metrics m pg) = pg_auth pg" "pg_auth (put_manager mgr pg) = pg_auth pg"
  "pg_auth (put_node n pg) = pg_auth pg" "pg_auth (count_events pg) = pg_auth pg"
  "mgr_config (manager_of (count_events pg)) = mgr_config (manager_of pg)"
  by (simp_all add: manager_of_def put_metrics_def metrics_of_def put_manager_def put_node_def count_events_def Let_def)

lemma running_events [simp]: "running_config (s\<lparr>srv_events := ev\<rparr>) = running_config s"
  by (simp add: running_config_def current_def split: option.split)

lemma running_count_events [simp]:
  "running_config (mgr_dataPlane (manager_of (count_events pg))) = running_config (mgr_dataPlane (manager_of pg))"
  by (simp add: count_events_def Let_def)

lemma running_update:
  assumes "\<And>rt. rt_cfg (f rt) = rt_cfg rt"
  shows "running_config (update_runtime g f s) = running_config s"
  using assms by (auto simp: running_config_def current_def update_runtime_def nth_list_update_if split: option.split)

lemma running_handler:
  assumes "dataplane_Handler env s req w = (s', req', res)"
  shows "running_config s' = running_config s"
proof (cases "enter s req w")
  case (Inl r)
  with assms show ?thesis by (cases r) (simp add: dataplane_Handler_def)
next
  case (Inr r)
  then obtain g s1 where r: "r = (g, s1)" and "running_config s1 = running_config s"
    by (auto simp: enter_def running_update split: option.splits if_splits)
  with assms Inr show ?thesis
    by (auto simp: dataplane_Handler_def serve_in_def leave_def Let_def running_update)
qed

lemma program_controls_same:
  assumes "program_controls table parse auth fl pg" and "pg_control pg' = pg_control pg"
    and "mgr_config (manager_of pg') = mgr_config (manager_of pg)"
    and "running_config (mgr_dataPlane (manager_of pg')) = running_config (mgr_dataPlane (manager_of pg))"
    and "manager_safe auth fl' (manager_of pg')"
  shows "program_controls table parse auth fl' pg'"
proof -
  from assms(1) obtain log where inv: "control_inv (world_activate table parse) world_publish world_active (world_sound auth fl)
      \<lparr>ct_server = pg_control pg, ct_world = pg_world pg, ct_log = log\<rparr>"
    by (auto simp: program_controls_def controls_def)
  with assms(3-5) have "world_active (pg_world pg') = world_active (pg_world pg)" "world_sound auth fl' (pg_world pg')"
    by (simp_all add: control_inv_def world_active_def world_sound_def gw_active_def gw_sound_def manager_inv_running
        manager_of_def)
  with inv have "control_inv (world_activate table parse) world_publish world_active (world_sound auth fl')
      \<lparr>ct_server = pg_control pg', ct_world = pg_world pg', ct_log = log\<rparr>"
    by (auto simp: control_inv_def assms(2))
  with assms(1,2) show ?thesis by (auto simp: program_controls_def controls_def)
qed

lemma program_controls_safe: "program_controls table parse auth fl pg \<Longrightarrow> manager_safe auth fl (manager_of pg)"
  using program_controls_agree by blast

lemma safe_count_events [simp]:
  "manager_safe auth fl (manager_of (count_events pg)) = manager_safe auth fl (manager_of pg)"
  by (simp add: count_events_def Let_def manager_safe_def guarded_def)

text \<open>A handler keeps the agreement.\<close>

definition keeps :: "(nat \<Rightarrow> bool) \<Rightarrow> (string \<Rightarrow> url option) \<Rightarrow> authorize option \<Rightarrow> nat list \<Rightarrow> 'r program handler \<Rightarrow> bool" where
  "keeps table parse auth fl h \<longleftrightarrow> (\<forall>pg req w. program_controls table parse auth fl pg \<longrightarrow> program_controls table parse auth fl (fst (h pg req w)))"

lemma keepsD: "keeps table parse auth fl h \<Longrightarrow> program_controls table parse auth fl pg \<Longrightarrow> h pg req w = (pg', req', w') \<Longrightarrow> program_controls table parse auth fl pg'"
  unfolding keeps_def by (metis fst_conv)

lemma keeps_metrics:
  assumes "program_controls table parse auth fl pg"
  shows "program_controls table parse auth fl (put_metrics m pg)"
  using assms by (rule program_controls_same) (simp_all add: program_controls_safe [OF assms])

lemma keeps_node:
  assumes "program_controls table parse auth fl pg"
  shows "program_controls table parse auth fl (put_node n pg)"
  using assms by (rule program_controls_same) (simp_all add: program_controls_safe [OF assms])

lemma keeps_count:
  assumes "program_controls table parse auth fl pg"
  shows "program_controls table parse auth fl (count_events pg)"
  using assms by (rule program_controls_same) (simp_all add: program_controls_safe [OF assms])

lemma keeps_auth: "program_controls table parse auth fl (pg\<lparr>pg_auth := a\<rparr>) = program_controls table parse auth fl pg"
  by (simp add: program_controls_def)

lemma keeps_Middleware:
  assumes "keeps table parse auth fl h"
  shows "keeps table parse auth fl (metrics_Middleware metrics_of put_metrics h)"
  unfolding keeps_def
proof (intro allI impI)
  fix pg :: "'a program" and req w
  assume "program_controls table parse auth fl pg"
  then have pg: "program_controls table parse auth fl (put_metrics m pg)" for m by (rule keeps_metrics)
  obtain pg' req' w' where h: "h (put_metrics (request_started (metrics_of pg)) pg) (WithSignals req) w = (pg', req', w')"
    by (metis prod_cases3)
  from keepsD [OF assms pg h] show "program_controls table parse auth fl (fst (metrics_Middleware metrics_of put_metrics h pg req w))"
    by (simp add: metrics_Middleware_def Let_def h keeps_metrics)
qed

lemma keeps_Endpoint: "keeps table parse auth fl h \<Longrightarrow> keeps table parse auth fl (metrics_Endpoint printable order order' get h)"
  by (simp add: keeps_def metrics_Endpoint_def)

lemma keeps_control_api: "keeps table parse auth fl (control_api ce)"
  unfolding keeps_def
proof (intro allI impI)
  fix pg :: "'a program" and req w
  assume "program_controls table parse auth fl pg"
  then have c: "controls (world_activate table parse) world_publish world_active (world_sound auth fl) (pg_control pg) (pg_world pg)"
    and co: "\<forall>co. cp_cluster (pg_control pg) = Some co \<longrightarrow> (\<forall>auth fl. harmless world_active (world_sound auth fl) co)"
    by (simp_all add: program_controls_def)
  obtain cp' wd' w' where h: "cp_Handler (ce_lib ce) (ce_pprof ce) (ce_body ce) (pg_control pg) (pg_world pg) req w = (cp', wd', w')"
    by (metis prod_cases3)
  from world.controls_Handler [OF c h] co Handler_cluster [OF h]
  have "program_controls table parse auth fl (pg\<lparr>pg_control := cp', pg_world := wd'\<rparr>)"
    by (simp add: program_controls_def)
  then show "program_controls table parse auth fl (fst (control_api ce pg req w))" by (simp add: control_api_def h keeps_count)
qed

lemma keeps_node_Handler:
  assumes "keeps table parse auth fl h"
  shows "keeps table parse auth fl (node_Handler ops lib dec show_time clock cfg body get put_node h)"
  using assms
  by (auto simp: keeps_def node_Handler_def clusterHandler_def Let_def keeps_node
      split: mux_result.split option.split prod.split)

lemma keeps_choice:
  assumes "keeps table parse auth fl h" and "\<And>pg. keeps table parse auth fl (h' pg)"
  shows "keeps table parse auth fl (\<lambda>pg. if c pg then h pg else h' pg pg)"
  using assms by (simp add: keeps_def)

lemma keeps_with_node: "keeps table parse auth fl (with_node ops ce)"
  unfolding with_node_def by (intro keeps_choice keeps_control_api keeps_node_Handler)

lemma keeps_observed: "keeps table parse auth fl (observed ops ce)"
  unfolding observed_def by (intro keeps_Endpoint keeps_Middleware keeps_with_node)

lemma keeps_gateway: "keeps table parse auth fl (gateway_handler env)"
  unfolding keeps_def
proof (intro allI impI)
  fix pg :: "'a program" and req w
  assume pg: "program_controls table parse auth fl pg"
  obtain dp req' res where h: "dataplane_Handler env (mgr_dataPlane (manager_of pg)) req w = (dp, req', res)"
    by (metis prod_cases3)
  have "program_controls table parse auth fl (put_manager ((manager_of pg)\<lparr>mgr_dataPlane := dp\<rparr>) pg)"
    using pg
    by (rule program_controls_same) (use program_controls_safe [OF pg] running_handler [OF h] admitted_handler [OF _ h]
      guarded_handler [OF _ h] in \<open>simp_all add: manager_safe_def guarded_def\<close>)
  then show "program_controls table parse auth fl (fst (gateway_handler env pg req w))"
    by (simp add: gateway_handler_def h keeps_count)
qed

lemma keeps_Proxy:
  assumes "keeps table parse auth fl h"
  shows "keeps table parse auth fl (Proxy ops px cfg get put_node h)"
  using assms by (auto simp: keeps_def Proxy_def keeps_node split: prod.split placement.split bool.split)

lemma keeps_public: "keeps table parse auth fl (public_handler ops env px)"
  unfolding public_handler_def by (intro keeps_Middleware keeps_choice keeps_gateway keeps_Proxy)

lemma keeps_Protect:
  assumes "keeps table parse auth fl h" and "program_controls table parse auth fl pg" and "Protect lib e h m pg req w = Some (m', pg', req', w')"
  shows "program_controls table parse auth fl pg'"
  using assms(2,3) keepsD [OF assms(1)]
  by (auto simp: Protect_def auth_Handler_def Let_def split: if_splits prod.splits bool.splits)

lemma keeps_control:
  assumes "program_controls table parse auth fl pg" and "control_handler ops ce pg req w = Some (pg', req', w')"
  shows "program_controls table parse auth fl pg'"
proof (cases "pg_auth pg")
  case None
  with assms(2) have "observed ops ce pg req w = (pg', req', w')" by (simp add: control_handler_def)
  from keepsD [OF keeps_observed assms(1) this] show ?thesis .
next
  case (Some m)
  with assms(2) obtain m1 pg1 where p: "Protect (ce_auth_lib ce) (ce_auth ce) (observed ops ce) m pg req w = Some (m1, pg1, req', w')"
    and pg': "pg' = pg1\<lparr>pg_auth := Some m1\<rparr>" by (auto simp: control_handler_def)
  from keeps_Protect [OF keeps_observed assms(1) p] show ?thesis by (simp add: pg' keeps_auth)
qed

lemma running_traffic:
  assumes "dp_step parse d d'" and "srv_current (dp_server d') = srv_current (dp_server d)"
    and "running_config (dp_server d) \<noteq> None"
  shows "running_config (dp_server d') = running_config (dp_server d)"
  using assms
proof (induction rule: dp_step.induct)
  case (Enter d req w g s')
  then show ?case by (auto simp: enter_def running_update split: option.splits if_splits)
next
  case (Serve g d env req w r s')
  then show ?case by (auto simp: serve_in_def Let_def running_update)
next
  case (Leave d xs g ys)
  then show ?case by (simp add: leave_def running_update)
next
  case (Probe g d k u prs u' ev)
  then show ?case by (simp add: running_update)
next
  case (Reload cfg d s')
  have "srv_current s' = Some (length (srv_heap (dp_server d)))"
    using Reload.hyps(2) by (auto simp: Reconfigure_Inr stop_def split: option.splits)
  with Reload.prems show ?case by (auto simp: running_config_def current_def split: option.splits if_splits)
next
  case (Shut d)
  then show ?case by (auto simp: Close_def stop_def running_update split: option.splits)
qed

lemma guarded_traffic:
  assumes "dp_step parse d d'" and "srv_current (dp_server d') = srv_current (dp_server d)"
    and "running_config (dp_server d) \<noteq> None" and "guarded_heap auth (dp_server d)"
  shows "guarded_heap auth (dp_server d')"
  using assms
proof (induction rule: dp_step.induct)
  case (Reload cfg d s')
  have "srv_current s' = Some (length (srv_heap (dp_server d)))"
    using Reload.hyps(2) by (auto simp: Reconfigure_Inr stop_def split: option.splits)
  with Reload.prems show ?case by (auto simp: running_config_def current_def split: option.splits if_splits)
qed (auto simp: enter_def serve_in_def leave_def Close_def Let_def guarded_update guarded_stop
  split: option.splits if_splits)

section \<open>The program's steps\<close>

text \<open>The program with the requests of the data plane's traffic that are in flight: their generations.\<close>

record 'r running =
  rn_program :: "'r program"
  rn_inflight :: "nat list"

definition with_program :: "'r running \<Rightarrow> 'r program \<Rightarrow> 'r running" where
  "with_program rn pg = rn\<lparr>rn_program := pg\<rparr>"

text \<open>The data plane's own state within the program.\<close>

definition data_plane_of :: "'r running \<Rightarrow> dataplane" where
  "data_plane_of rn = \<lparr>dp_server = mgr_dataPlane (manager_of (rn_program rn)), dp_inflight = rn_inflight rn\<rparr>"

definition put_data_plane :: "dataplane \<Rightarrow> 'r running \<Rightarrow> 'r running" where
  "put_data_plane d rn =
     (let pg = rn_program rn in
      \<lparr>rn_program = count_events (put_manager ((manager_of pg)\<lparr>mgr_dataPlane := dp_server d\<rparr>) pg),
       rn_inflight = dp_inflight d\<rparr>)"

text \<open>
  A request on the control listener, a request on the public listener served as a whole, a step of the
  data plane's own traffic (requests that interleave, health checks, the runtime's end) that installs no
  other runtime, the signal's draining, and whatever Raft does to the node.
\<close>

inductive program_step :: "'r raft_ops \<Rightarrow> (string \<Rightarrow> url option) \<Rightarrow> 'r running \<Rightarrow> 'r running \<Rightarrow> bool" for ops parse where
  Control: "control_handler ops ce (rn_program rn) req w = Some (pg', req', w') \<Longrightarrow>
    program_step ops parse rn (with_program rn pg')"
| Public: "public_handler ops env px (rn_program rn) req w = (pg', req', w') \<Longrightarrow>
    program_step ops parse rn (with_program rn pg')"
| Traffic: "dp_step parse (data_plane_of rn) d' \<Longrightarrow>
    srv_current (dp_server d') = srv_current (dp_server (data_plane_of rn)) \<Longrightarrow>
    program_step ops parse rn (put_data_plane d' rn)"
| Draining: "program_step ops parse rn
    (with_program rn ((rn_program rn)\<lparr>pg_control := SetDraining (pg_control (rn_program rn))\<rparr>))"
| Raft: "wd_node (pg_world (rn_program rn)) = Some n \<Longrightarrow>
    program_step ops parse rn (with_program rn (put_node n' (rn_program rn)))"

inductive program_reachable :: "start_env \<Rightarrow> 'r raft_ops \<Rightarrow> 'r \<Rightarrow> 'r running \<Rightarrow> bool" for e ops r where
  Started: "startup e ops r = Inr pg \<Longrightarrow> program_reachable e ops r \<lparr>rn_program = pg, rn_inflight = []\<rparr>"
| Stepped: "program_reachable e ops r rn \<Longrightarrow> program_step ops (st_parse e) rn rn' \<Longrightarrow> program_reachable e ops r rn'"

lemma program_controls_step:
  assumes "program_step ops parse rn rn'" and pg: "program_controls table parse auth (rn_inflight rn) (rn_program rn)"
  shows "program_controls table parse auth (rn_inflight rn') (rn_program rn')"
  using assms(1)
proof (cases rule: program_step.cases)
  case (Control ce req w pg' req' w')
  then show ?thesis using keeps_control [OF pg] by (simp add: with_program_def)
next
  case (Public env px req w pg' req' w')
  then show ?thesis using keepsD [OF keeps_public pg] by (simp add: with_program_def)
next
  case (Traffic d')
  let ?pg = "rn_program rn"
  note agree = program_controls_agree [OF pg]
  have run: "running_config (dp_server (data_plane_of rn)) \<noteq> None" using agree by (simp add: data_plane_of_def)
  have "program_controls table parse auth (dp_inflight d') (put_manager ((manager_of ?pg)\<lparr>mgr_dataPlane := dp_server d'\<rparr>) ?pg)"
    using pg by (rule program_controls_same)
      (use running_traffic [OF Traffic(2,3) run] admitted_step [OF Traffic(2)] guarded_traffic [OF Traffic(2,3) run] agree
        in \<open>simp_all add: data_plane_of_def manager_safe_def guarded_def\<close>)
  from keeps_count [OF this] show ?thesis by (simp add: Traffic(1) put_data_plane_def Let_def)
next
  case Draining
  have "program_controls table parse auth (rn_inflight rn)
      ((rn_program rn)\<lparr>pg_control := SetDraining (pg_control (rn_program rn))\<rparr>)"
    using pg world.controls_drain unfolding program_controls_def by (auto simp: SetDraining_def)
  then show ?thesis by (simp add: Draining with_program_def)
next
  case (Raft n n')
  with keeps_node [OF pg] show ?thesis by (simp add: with_program_def)
qed

lemma program_reachable_controls:
  assumes "program_reachable e ops r rn"
  shows "\<exists>pg. startup e ops r = Inr pg \<and>
    program_controls (st_table e) (st_parse e) (start_authorizer e (pg_auth pg)) (rn_inflight rn) (rn_program rn)"
  using assms
proof (induction rule: program_reachable.induct)
  case (Started pg)
  with startup_controls [OF this] show ?case by simp
next
  case (Stepped rn rn')
  with program_controls_step [OF Stepped.hyps(2)] show ?case by blast
qed

lemma program_reachable_agree:
  assumes "program_reachable e ops r rn"
  shows "cp_current (pg_control (rn_program rn)) = mgr_config (manager_of (rn_program rn))"
    and "running_config (mgr_dataPlane (manager_of (rn_program rn))) = Some (cp_current (pg_control (rn_program rn)))"
    and "admitted (rn_inflight rn) (mgr_dataPlane (manager_of (rn_program rn)))"
    and "startup e ops r = Inr pg \<Longrightarrow> guarded (start_authorizer e (pg_auth pg)) (manager_of (rn_program rn))"
  using program_reachable_controls [OF assms] program_controls_agree unfolding manager_safe_def by fastforce+

section \<open>Properties\<close>

text \<open>
  Claim C2: in the whole program, from its start on and through any sequence of requests to either
  listener, data plane traffic, health checks, draining and Raft activity, the configuration that the
  control plane reports is the one the runtime manager holds and the one the data plane runs.
\<close>

theorem program_runs_reported_config:
  assumes "program_reachable e ops r rn" and "pg = rn_program rn"
  shows "cp_current (pg_control pg) = mgr_config (manager_of pg) \<and>
    running_config (mgr_dataPlane (manager_of pg)) = Some (cp_current (pg_control pg))"
  using program_reachable_agree [OF assms(1)] assms(2) by simp

text \<open>
  Claim C4: in the whole program, also while configurations are replaced over the control plane and
  requests of earlier runtimes are still served, each runtime has slots taken for exactly the requests
  in flight in it, never more than \<^verbatim>\<open>max_in_flight\<close> of the configuration it was made of; every runtime
  but the current one is stopped, and the current one was made of the configuration reported.
\<close>

theorem program_in_flight_bounded:
  assumes "program_reachable e ops r rn" and "pg = rn_program rn" and "s = mgr_dataPlane (manager_of pg)"
    and "g < length (srv_heap s)" and "rt = srv_heap s ! g"
  shows "rt_slots rt = count_list (rn_inflight rn) g \<and>
    int (count_list (rn_inflight rn) g) \<le> MaxInFlight (Limits (rt_cfg rt)) \<and>
    (rt_stopped rt \<or> srv_current s = Some g) \<and>
    (srv_current s = Some g \<longrightarrow> rt_cfg rt = cp_current (pg_control pg))"
proof -
  have "admitted (rn_inflight rn) s" and run: "running_config s = Some (cp_current (pg_control pg))"
    using program_reachable_agree [OF assms(1)] by (simp_all add: assms(2,3))
  with assms(4) show ?thesis
    by (auto simp: admitted_def rt_admits_def assms(5) running_config_def current_def)
qed

text \<open>
  Claim C1: in the whole program, whatever configurations were activated since its start, a request that
  any of its runtimes sends to an upstream carries identity headers only on a route that requires
  authentication, and there those of one identity that the middleware made at start has authenticated
  from the request's own cookie or token, with the scopes of the route.
\<close>

theorem program_identity_trustworthy:
  assumes "program_reachable e ops r rn" and "startup e ops r = Inr pg"
    and "rt \<in> set (srv_heap (mgr_dataPlane (manager_of (rn_program rn))))"
    and "sv_upstream (serve env sink rt req w) = Some out"
  shows "\<exists>route. route_spec (rt_routes rt) (stripped req) = Some route \<and>
    (if cr_requireAuth route
     then \<exists>m c. pg_auth pg = Some m \<and>
       proved (st_auth_lib e) m (se_auth_clock env) (cr_scopes route) (stripped req) c \<and> carries (Header out) c
     else list_all (\<lambda>k. Header out k = None) trusted_headers)"
proof -
  note safe = program_reachable_agree(4) [OF assms(1,2)]
  have "rt_authorizer rt = start_authorizer e (pg_auth pg)"
    using safe assms(3) by (auto simp: guarded_def guarded_heap_def list_all_iff)
  then obtain m where m: "rt_authorizer rt = None \<or> pg_auth pg = Some m" "authorized_by (st_auth_lib e) m rt"
    by (cases "pg_auth pg") (auto simp: start_authorizer_def authorized_by_def)
  from upstream_identity [OF assms(4) m(2)] obtain route where route: "route_spec (rt_routes rt) (stripped req) = Some route"
    and id: "if cr_requireAuth route
      then \<exists>c. proved (st_auth_lib e) m (se_auth_clock env) (cr_scopes route) (stripped req) c \<and> carries (Header out) c
      else list_all (\<lambda>k. Header out k = None) trusted_headers" by blast
  have "route \<in> set (rt_routes rt)" using route by (auto simp: route_spec_def dest!: first_longest_Some)
  then have "pg_auth pg = Some m" if "cr_requireAuth route"
    using protected_routes_have_authorizer [OF safe assms(3) _ that] m(1) by auto
  with route id show ?thesis by auto
qed

text \<open>
  The middleware stands before every path of the control plane that is no login page, so a probe of
  \<^verbatim>\<open>/health\<close> or \<^verbatim>\<open>/ready\<close> that carries no credentials and asks for no page is answered 401, whatever
  the state of the server.
\<close>

lemma probe_unauthorized:
  assumes "pg_auth pg = Some m" and "authenticate (ce_auth_lib ce) m (env_clock (ce_auth ce)) req = None"
    and "Path (req_URL req) \<in> {''/health'', ''/ready''}" and "\<not> acceptsHTML req" and "status_of w = None"
  shows "\<exists>req' w'. control_handler ops ce pg req w = Some (pg, req', w') \<and> status_of w' = Some 401"
  using assms
  by (cases pg) (auto simp: control_handler_def Protect_def Authorize_def Let_def writeUnauthorized_def)

text \<open>
  Claim C3: with authentication configured, a request to the control listener that authenticates as no
  one changes nothing but login states: not the configuration, the runtime, the cluster or the metrics;
  and it gets an answer only from the login pages, a redirect to them, or 401.
\<close>

theorem control_needs_identity:
  assumes "pg_auth pg = Some m" and "authenticate (ce_auth_lib ce) m (env_clock (ce_auth ce)) req = None"
    and "control_handler ops ce pg req w = Some (pg', req', w')" and "status_of w = None"
  shows "\<exists>sts. pg' = pg\<lparr>pg_auth := Some (m\<lparr>states := sts\<rparr>)\<rparr> \<and>
    (Path (req_URL req) \<in> {''/oauth2/login'', ''/oauth2/callback'', ''/oauth2/logout''} \<or>
     sts = states m \<and> status_of w' \<in> {Some 302, Some 401})"
proof -
  obtain m1 pg1 where p: "Protect (ce_auth_lib ce) (ce_auth ce) (observed ops ce) m pg req w = Some (m1, pg1, req', w')"
    and pg': "pg' = pg1\<lparr>pg_auth := Some m1\<rparr>" using assms(1,3) by (auto simp: control_handler_def)
  show ?thesis
  proof (cases "Path (req_URL req) \<in> {''/oauth2/login'', ''/oauth2/callback'', ''/oauth2/logout''}")
    case True
    with p have "pg1 = pg \<and> (\<exists>sts. m1 = m\<lparr>states := sts\<rparr>)"
      by (auto simp: Protect_def auth_Handler_def login_def callback_def Let_def
          split: option.splits prod.splits if_splits intro: exI [of _ "states m"])
    with True pg' show ?thesis by blast
  next
    case False
    obtain req1 w1 where a: "Authorize (ce_auth_lib ce) m (env_clock (ce_auth ce)) [] req w = (False, req1, w1)"
      and w1: "status_of w1 \<in> {Some 302, Some 401}"
      using assms(2,4) by (simp add: Authorize_def Let_def redirectToLogin_def writeUnauthorized_def)
    with p False have "pg1 = pg" "m1 = m" "w' = w1" by (auto simp: Protect_def Let_def)
    with pg' w1 show ?thesis by (intro exI [of _ "states m"]) simp
  qed
qed

lemma sample_program:
  "\<exists>pg m. startup sample_start sample_raft () = Inr pg \<and> pg_auth pg = Some m"
  using sample_start_ok by blast

theorem program_runs_reported_config_witness:
  "\<exists>pg. startup sample_start sample_raft () = Inr pg \<and>
     running_config (mgr_dataPlane (manager_of pg)) = Some (cp_current (pg_control pg))"
proof -
  from sample_program obtain pg where pg: "startup sample_start sample_raft () = Inr pg" by blast
  from program_runs_reported_config [OF Started [OF this]] pg show ?thesis by auto
qed

lemma sample_runtime: "\<exists>g. srv_current (mgr_dataPlane (manager_of pg)) = Some g \<and> g < length (srv_heap (mgr_dataPlane (manager_of pg)))"
  if "startup e ops r = Inr pg"
  using program_controls_safe [OF startup_controls [OF that]] by (auto simp: manager_safe_def admitted_def)

theorem program_in_flight_bounded_witness:
  "\<exists>pg g. startup sample_start sample_raft () = Inr pg \<and> srv_current (mgr_dataPlane (manager_of pg)) = Some g \<and>
     rt_slots (srv_heap (mgr_dataPlane (manager_of pg)) ! g) = 0 \<and>
     rt_cfg (srv_heap (mgr_dataPlane (manager_of pg)) ! g) = cp_current (pg_control pg)"
proof -
  from sample_program obtain pg where pg: "startup sample_start sample_raft () = Inr pg" by blast
  from sample_runtime [OF this] obtain g where g: "srv_current (mgr_dataPlane (manager_of pg)) = Some g"
    "g < length (srv_heap (mgr_dataPlane (manager_of pg)))" by blast
  from program_in_flight_bounded [OF Started [OF pg] _ refl _ refl] g pg show ?thesis by fastforce
qed

lemma sample_program_forwards:
  "map_option (\<lambda>_. ()) (sv_upstream (serve sample_env True
     (runtime_of sample_parse (Some (Authorize sample_lib sample_bearer)) sample_auth_config) sample_forger new_response)) = Some ()"
  by code_simp

theorem program_identity_trustworthy_witness:
  "\<exists>pg rt out c. startup sample_start sample_raft () = Inr pg \<and>
     sv_upstream (serve sample_env True rt sample_forger new_response) = Some out \<and>
     proved sample_lib sample_bearer (\<lambda>_. 5) [] (stripped sample_forger) c \<and> carries (Header out) c"
proof -
  let ?rt = "runtime_of sample_parse (Some (Authorize sample_lib sample_bearer)) sample_auth_config"
  from sample_start_ok obtain pg where pg: "startup sample_start sample_raft () = Inr pg" "pg_auth pg = Some sample_bearer"
    and heap: "srv_heap (mgr_dataPlane (manager_of pg)) = [?rt]" by (auto simp: manager_of_def)
  from sample_program_forwards obtain out where out: "sv_upstream (serve sample_env True ?rt sample_forger new_response) = Some out"
    by auto
  have "?rt \<in> set (srv_heap (mgr_dataPlane (manager_of (rn_program \<lparr>rn_program = pg, rn_inflight = []\<rparr>))))"
    using heap by simp
  from program_identity_trustworthy [OF program_reachable.Started [OF pg(1)] pg(1) this out] obtain route where
    route: "route_spec (rt_routes ?rt) (stripped sample_forger) = Some route"
    and id: "if cr_requireAuth route
      then \<exists>m c. pg_auth pg = Some m \<and> proved (st_auth_lib sample_start) m (se_auth_clock sample_env) (cr_scopes route)
        (stripped sample_forger) c \<and> carries (Header out) c
      else list_all (\<lambda>k. Header out k = None) trusted_headers" by blast
  have "route \<in> set (rt_routes ?rt)" using route by (auto simp: route_spec_def dest!: first_longest_Some)
  then have "cr_requireAuth route" "cr_scopes route = []"
    by (simp_all add: runtime_of_def sample_auth_config_def compile_route_def)
  moreover have "st_auth_lib sample_start = sample_lib" "se_auth_clock sample_env = (\<lambda>_. 5)"
    by (simp_all add: sample_start_def sample_env_def)
  ultimately show ?thesis using id pg out by auto
qed

definition sample_control_env :: control_env where
  "sample_control_env = \<lparr>ce_lib = sample_cp_lib, ce_auth_lib = sample_lib,
     ce_auth = \<lparr>env_clock = (\<lambda>_. 5), env_rand = (\<lambda>_. None)\<rparr>, ce_pprof = (\<lambda>_ w. w), ce_body = ''sample'',
     ce_join = (\<lambda>_. None), ce_show_time = (\<lambda>_. []), ce_clock = (\<lambda>_. 5), ce_table = (\<lambda>_. False),
     ce_series = (\<lambda>xs. xs), ce_outcomes = (\<lambda>xs. xs)\<rparr>"

text \<open>An attempt to replace the configuration without credentials.\<close>

definition sample_anonymous_put :: request where
  "sample_anonymous_put = (bare_request ''/api/v1/config'' [] [''If-Match'' \<mapsto> [''0'']])\<lparr>Method := ''PUT''\<rparr>"

lemma sample_anonymous: "authenticate sample_lib m clock sample_anonymous_put = None"
proof -
  have "bearer_claims m t [] = None" for t
    by (simp add: bearer_claims_def has_prefix_def split: option.split)
  then show ?thesis
    by (simp add: authenticate_def sample_anonymous_put_def bare_request_def sample_lib_def header_get_def Let_def)
qed

theorem control_needs_identity_witness:
  "\<exists>pg pg' req' w'. startup sample_start sample_raft () = Inr pg \<and>
     control_handler sample_raft sample_control_env pg sample_anonymous_put new_response = Some (pg', req', w') \<and>
     pg_control pg' = pg_control pg \<and> status_of w' \<in> {Some 302, Some 401}"
proof -
  from sample_program obtain pg m where pg: "startup sample_start sample_raft () = Inr pg" "pg_auth pg = Some m" by blast
  have path: "Path (req_URL sample_anonymous_put) \<notin> {''/oauth2/login'', ''/oauth2/callback'', ''/oauth2/logout''}"
    by (simp add: sample_anonymous_put_def bare_request_def)
  have none: "authenticate (ce_auth_lib sample_control_env) m (env_clock (ce_auth sample_control_env)) sample_anonymous_put = None"
    by (simp add: sample_control_env_def sample_anonymous)
  then obtain pg' req' w' where run: "control_handler sample_raft sample_control_env pg sample_anonymous_put new_response = Some (pg', req', w')"
    using path pg(2) by (auto simp: control_handler_def Protect_def Authorize_def Let_def)
  have "status_of new_response = None" by simp
  from control_needs_identity [OF pg(2) none run this] path obtain sts where
    "pg' = pg\<lparr>pg_auth := Some (m\<lparr>states := sts\<rparr>)\<rparr>" "status_of w' \<in> {Some 302, Some 401}" by blast
  with pg(1) run show ?thesis by force
qed

end
