(* ===== verification/ConfigStore.thy ===== *)
theory ConfigStore imports Config begin

text \<open>
  The configuration as it lies in memory: slices are references to arrays, maps are references, and
  \<^verbatim>\<open>Config.Clone\<close> of \<^verbatim>\<open>config/config.go\<close> allocates and assigns in a store. The copy in the store refines
  \<^verbatim>\<open>Clone\<close> on values, shares nothing with its original, and a snapshot cannot be changed by those who
  made it or read it.
\<close>

section \<open>The store\<close>

type_synonym addr = nat

text \<open>A slice is nil or an array's address and the slice's length; no code slices a configuration's slices.\<close>

type_synonym slice_ref = "(addr \<times> nat) option"

text \<open>The elements of the arrays: \<open>rc_fields\<close> and \<open>uc_fields\<close> hold what is neither a slice nor a map.\<close>

record RouteCell =
  rc_fields :: RouteConfig
  rc_methods :: slice_ref
  rc_scopes :: slice_ref
  rc_headers :: "addr option"

record UpstreamCell =
  uc_fields :: UpstreamConfig
  uc_urls :: slice_ref

datatype cell =
    Strings "string list"
  | RouteCells "RouteCell list"
  | UpstreamCells "UpstreamCell list"
  | PeerCells "ClusterPeer list"
  | Entries "string \<rightharpoonup> string"

text \<open>The addresses below \<open>next_addr\<close> have been allocated.\<close>

record store =
  cells :: "addr \<rightharpoonup> cell"
  next_addr :: addr

record ConfigRef =
  cf_fields :: Config
  cf_scopes :: slice_ref
  cf_peers :: slice_ref
  cf_routes :: slice_ref
  cf_upstreams :: slice_ref

definition alloc :: "cell \<Rightarrow> store \<Rightarrow> addr \<times> store" where
  "alloc c h = (next_addr h, h\<lparr>cells := (cells h)(next_addr h \<mapsto> c), next_addr := next_addr h + 1\<rparr>)"

definition write_cell :: "addr \<Rightarrow> cell \<Rightarrow> store \<Rightarrow> store" where
  "write_cell a c h = h\<lparr>cells := (cells h)(a \<mapsto> c)\<rparr>"

text \<open>What a cell holds, as an array of each kind.\<close>

fun strings_in :: "cell \<Rightarrow> string list" where
  "strings_in (Strings xs) = xs"
| "strings_in c = []"

fun routes_in :: "cell \<Rightarrow> RouteCell list" where
  "routes_in (RouteCells xs) = xs"
| "routes_in c = []"

fun upstreams_in :: "cell \<Rightarrow> UpstreamCell list" where
  "upstreams_in (UpstreamCells xs) = xs"
| "upstreams_in c = []"

fun peers_in :: "cell \<Rightarrow> ClusterPeer list" where
  "peers_in (PeerCells xs) = xs"
| "peers_in c = []"

fun entries_in :: "cell \<Rightarrow> string \<rightharpoonup> string" where
  "entries_in (Entries m) = m"
| "entries_in c = Map.empty"

text \<open>The value of a slice and of a map; \<open>content\<close> is one of the functions above.\<close>

definition slice_at :: "(cell \<Rightarrow> 'a list) \<Rightarrow> store \<Rightarrow> slice_ref \<Rightarrow> 'a slice" where
  "slice_at content h r =
     (case r of
        None \<Rightarrow> None
      | Some (a, n) \<Rightarrow> Some (take n (case cells h a of None \<Rightarrow> [] | Some c \<Rightarrow> content c)))"

definition map_at :: "store \<Rightarrow> addr option \<Rightarrow> (string \<rightharpoonup> string) option" where
  "map_at h r = map_option (\<lambda>a. case cells h a of None \<Rightarrow> Map.empty | Some c \<Rightarrow> entries_in c) r"

definition slice_length :: "slice_ref \<Rightarrow> nat" where
  "slice_length r = (case r of None \<Rightarrow> 0 | Some (a, n) \<Rightarrow> n)"

section \<open>The value of a configuration in the store\<close>

definition route_value :: "store \<Rightarrow> RouteCell \<Rightarrow> RouteConfig" where
  "route_value h c = (rc_fields c)\<lparr>Methods := slice_at strings_in h (rc_methods c),
     route_Scopes := slice_at strings_in h (rc_scopes c), route_Headers := map_at h (rc_headers c)\<rparr>"

definition upstream_value :: "store \<Rightarrow> UpstreamCell \<Rightarrow> UpstreamConfig" where
  "upstream_value h c = (uc_fields c)\<lparr>URLs := slice_at strings_in h (uc_urls c)\<rparr>"

definition config_value :: "store \<Rightarrow> ConfigRef \<Rightarrow> Config" where
  "config_value h c = (cf_fields c)\<lparr>
     Auth := (Auth (cf_fields c))\<lparr>AllowedScopes := slice_at strings_in h (cf_scopes c)\<rparr>,
     Routes := map_option (map (route_value h)) (slice_at routes_in h (cf_routes c)),
     Upstreams := map_option (map (upstream_value h)) (slice_at upstreams_in h (cf_upstreams c)),
     Cluster := (Cluster (cf_fields c))\<lparr>Peers := slice_at peers_in h (cf_peers c)\<rparr>\<rparr>"

section \<open>Cloning in the store\<close>

text \<open>\<^verbatim>\<open>append([]T(nil), s...)\<close>: nil when there is nothing to copy, otherwise a fresh array.\<close>

definition append_nil :: "(cell \<Rightarrow> 'a list) \<Rightarrow> ('a list \<Rightarrow> cell) \<Rightarrow> slice_ref \<Rightarrow> store \<Rightarrow> slice_ref \<times> store" where
  "append_nil content array r h =
     (let xs = elems (slice_at content h r) in
      if xs = [] then (None, h)
      else (case alloc (array xs) h of (a, h') \<Rightarrow> (Some (a, length xs), h')))"

text \<open>\<^verbatim>\<open>cloneStringMap\<close>: a fresh map with the same entries.\<close>

definition clone_map_in :: "addr option \<Rightarrow> store \<Rightarrow> addr option \<times> store" where
  "clone_map_in r h =
     (case map_at h r of
        None \<Rightarrow> (None, h)
      | Some m \<Rightarrow> (case alloc (Entries m) h of (a, h') \<Rightarrow> (Some a, h')))"

text \<open>Assignment to a field of an element of a slice of routes or upstreams.\<close>

definition put_route :: "slice_ref \<Rightarrow> nat \<Rightarrow> (RouteCell \<Rightarrow> RouteCell) \<Rightarrow> store \<Rightarrow> store" where
  "put_route r i f h =
     (case r of
        None \<Rightarrow> h
      | Some (a, n) \<Rightarrow>
          (case cells h a of
             Some (RouteCells cs) \<Rightarrow> write_cell a (RouteCells (cs[i := f (cs ! i)])) h
           | _ \<Rightarrow> h))"

definition put_upstream :: "slice_ref \<Rightarrow> nat \<Rightarrow> (UpstreamCell \<Rightarrow> UpstreamCell) \<Rightarrow> store \<Rightarrow> store" where
  "put_upstream r i f h =
     (case r of
        None \<Rightarrow> h
      | Some (a, n) \<Rightarrow>
          (case cells h a of
             Some (UpstreamCells cs) \<Rightarrow> write_cell a (UpstreamCells (cs[i := f (cs ! i)])) h
           | _ \<Rightarrow> h))"

text \<open>The bodies of the two loops; \<open>src\<close> is the slice of the original and \<open>dst\<close> that of the clone.\<close>

definition clone_route_at :: "slice_ref \<Rightarrow> slice_ref \<Rightarrow> nat \<Rightarrow> store \<Rightarrow> store" where
  "clone_route_at src dst i h =
     (let original = (\<lambda>h. elems (slice_at routes_in h src) ! i) in
      case append_nil strings_in Strings (rc_methods (original h)) h of (ms, h1) \<Rightarrow>
      let h2 = put_route dst i (\<lambda>c. c\<lparr>rc_methods := ms\<rparr>) h1 in
      case append_nil strings_in Strings (rc_scopes (original h2)) h2 of (ss, h3) \<Rightarrow>
      let h4 = put_route dst i (\<lambda>c. c\<lparr>rc_scopes := ss\<rparr>) h3 in
      case clone_map_in (rc_headers (original h4)) h4 of (m, h5) \<Rightarrow>
      put_route dst i (\<lambda>c. c\<lparr>rc_headers := m\<rparr>) h5)"

definition clone_upstream_at :: "slice_ref \<Rightarrow> slice_ref \<Rightarrow> nat \<Rightarrow> store \<Rightarrow> store" where
  "clone_upstream_at src dst i h =
     (case append_nil strings_in Strings (uc_urls (elems (slice_at upstreams_in h src) ! i)) h of (us, h1) \<Rightarrow>
      put_upstream dst i (\<lambda>c. c\<lparr>uc_urls := us\<rparr>) h1)"

definition clone_in :: "ConfigRef \<Rightarrow> store \<Rightarrow> ConfigRef \<times> store" where
  "clone_in c h =
     (case append_nil strings_in Strings (cf_scopes c) h of (scopes, h1) \<Rightarrow>
      case append_nil routes_in RouteCells (cf_routes c) h1 of (routes, h2) \<Rightarrow>
      case append_nil upstreams_in UpstreamCells (cf_upstreams c) h2 of (upstreams, h3) \<Rightarrow>
      case append_nil peers_in PeerCells (cf_peers c) h3 of (peers, h4) \<Rightarrow>
      let h5 = fold (clone_route_at (cf_routes c) routes) [0..<slice_length routes] h4;
          h6 = fold (clone_upstream_at (cf_upstreams c) upstreams) [0..<slice_length upstreams] h5
      in (c\<lparr>cf_scopes := scopes, cf_routes := routes, cf_upstreams := upstreams, cf_peers := peers\<rparr>, h6))"


section \<open>Stores that agree on what was there\<close>

text \<open>From \<open>h\<close> to \<open>h'\<close> memory was allocated, and of what was there only \<open>D\<close> may have been written.\<close>

definition grows :: "addr set \<Rightarrow> store \<Rightarrow> store \<Rightarrow> bool" where
  "grows D h h' \<longleftrightarrow> next_addr h \<le> next_addr h' \<and> (\<forall>a < next_addr h. a \<notin> D \<longrightarrow> cells h' a = cells h a)"

lemma grows_refl [simp]: "grows D h h"
  by (simp add: grows_def)

lemma grows_trans:
  assumes "grows D h h1" and "grows D' h1 h2" and "D' \<inter> {..<next_addr h} \<subseteq> D"
  shows "grows D h h2"
proof -
  have "cells h2 a = cells h a" if "a < next_addr h" "a \<notin> D" for a
  proof -
    have "a \<notin> D'" "a < next_addr h1" using that assms(1,3) by (auto simp: grows_def)
    with that assms(1,2) show ?thesis by (simp add: grows_def)
  qed
  with assms(1,2) show ?thesis by (simp add: grows_def)
qed

lemma grows_next: "grows D h h' \<Longrightarrow> next_addr h \<le> next_addr h'"
  by (simp add: grows_def)

lemma grows_cell: "grows D h h' \<Longrightarrow> a < next_addr h \<Longrightarrow> a \<notin> D \<Longrightarrow> cells h' a = cells h a"
  by (simp add: grows_def)

lemma alloc_grows: "alloc c h = (a, h') \<Longrightarrow> grows D h h' \<and> a = next_addr h \<and> next_addr h' = next_addr h + 1 \<and> cells h' a = Some c"
  by (auto simp: alloc_def grows_def)

definition slice_addrs :: "slice_ref \<Rightarrow> addr set" where
  "slice_addrs r = fst ` set_option r"

definition route_addrs :: "RouteCell \<Rightarrow> addr set" where
  "route_addrs c = slice_addrs (rc_methods c) \<union> slice_addrs (rc_scopes c) \<union> set_option (rc_headers c)"

definition upstream_addrs :: "UpstreamCell \<Rightarrow> addr set" where
  "upstream_addrs c = slice_addrs (uc_urls c)"

text \<open>The memory that a configuration's value depends on.\<close>

definition footprint :: "store \<Rightarrow> ConfigRef \<Rightarrow> addr set" where
  "footprint h c =
     slice_addrs (cf_scopes c) \<union> slice_addrs (cf_peers c) \<union> slice_addrs (cf_routes c) \<union> slice_addrs (cf_upstreams c) \<union>
     (\<Union>r \<in> set (elems (slice_at routes_in h (cf_routes c))). route_addrs r) \<union>
     (\<Union>u \<in> set (elems (slice_at upstreams_in h (cf_upstreams c))). upstream_addrs u)"

lemma slice_addrs_simps [simp]: "slice_addrs None = {}" "slice_addrs (Some (a, n)) = {a}"
  by (simp_all add: slice_addrs_def)

lemma slice_at_cong: "(\<And>a. a \<in> slice_addrs r \<Longrightarrow> cells h' a = cells h a) \<Longrightarrow> slice_at content h' r = slice_at content h r"
  by (cases r) (auto simp: slice_at_def)

lemma map_at_cong: "(\<And>a. a \<in> set_option r \<Longrightarrow> cells h' a = cells h a) \<Longrightarrow> map_at h' r = map_at h r"
  by (cases r) (auto simp: map_at_def)

lemma route_value_cong:
  assumes "\<And>a. a \<in> route_addrs c \<Longrightarrow> cells h' a = cells h a"
  shows "route_value h' c = route_value h c"
proof -
  have "slice_at strings_in h' (rc_methods c) = slice_at strings_in h (rc_methods c)"
    "slice_at strings_in h' (rc_scopes c) = slice_at strings_in h (rc_scopes c)" "map_at h' (rc_headers c) = map_at h (rc_headers c)"
    by (rule slice_at_cong map_at_cong, rule assms, simp add: route_addrs_def)+
  then show ?thesis by (simp add: route_value_def)
qed

lemma upstream_value_cong:
  assumes "\<And>a. a \<in> upstream_addrs c \<Longrightarrow> cells h' a = cells h a"
  shows "upstream_value h' c = upstream_value h c"
proof -
  have "slice_at strings_in h' (uc_urls c) = slice_at strings_in h (uc_urls c)"
    by (rule slice_at_cong, rule assms, simp add: upstream_addrs_def)
  then show ?thesis by (simp add: upstream_value_def)
qed

lemma map_value_cong:
  "(\<And>x. x \<in> set (elems s) \<Longrightarrow> f x = g x) \<Longrightarrow> map_option (map f) s = map_option (map g) s"
  by (cases s) (auto simp: elems_def)

lemma config_value_cong:
  assumes "\<And>a. a \<in> footprint h c \<Longrightarrow> cells h' a = cells h a"
  shows "config_value h' c = config_value h c \<and> footprint h' c = footprint h c"
proof -
  have "route_value h' x = route_value h x" if "x \<in> set (elems (slice_at routes_in h (cf_routes c)))" for x
    by (rule route_value_cong) (use assms that in \<open>auto simp: footprint_def\<close>)
  moreover have "upstream_value h' x = upstream_value h x" if "x \<in> set (elems (slice_at upstreams_in h (cf_upstreams c)))" for x
    by (rule upstream_value_cong) (use assms that in \<open>auto simp: footprint_def\<close>)
  moreover have "slice_at strings_in h' (cf_scopes c) = slice_at strings_in h (cf_scopes c)"
    "slice_at routes_in h' (cf_routes c) = slice_at routes_in h (cf_routes c)"
    "slice_at upstreams_in h' (cf_upstreams c) = slice_at upstreams_in h (cf_upstreams c)"
    "slice_at peers_in h' (cf_peers c) = slice_at peers_in h (cf_peers c)"
    by (rule slice_at_cong, rule assms, simp add: footprint_def)+
  ultimately show ?thesis
    using map_value_cong [of "slice_at routes_in h (cf_routes c)" "route_value h'" "route_value h"]
      map_value_cong [of "slice_at upstreams_in h (cf_upstreams c)" "upstream_value h'" "upstream_value h"]
    by (simp add: config_value_def footprint_def)
qed

lemma grows_slice: "grows D h h' \<Longrightarrow> slice_addrs r \<subseteq> {..<next_addr h} - D \<Longrightarrow> slice_at content h' r = slice_at content h r"
  by (rule slice_at_cong) (auto simp: grows_def)

lemma grows_map: "grows D h h' \<Longrightarrow> set_option r \<subseteq> {..<next_addr h} - D \<Longrightarrow> map_at h' r = map_at h r"
  by (rule map_at_cong) (auto simp: grows_def)

section \<open>Copies of arrays\<close>

lemma clone_map_in_spec:
  assumes "clone_map_in r h = (r', h')"
  shows "grows {} h h' \<and> map_at h' r' = map_at h r \<and> set_option r' \<subseteq> {next_addr h..<next_addr h'}"
proof (cases "map_at h r")
  case None
  with assms show ?thesis by (simp add: clone_map_in_def map_at_def)
next
  case (Some m)
  obtain a h1 where al: "alloc (Entries m) h = (a, h1)" by (metis surj_pair)
  with Some assms have "r' = Some a" "h' = h1" by (simp_all add: clone_map_in_def)
  with alloc_grows [OF al, of "{}"] have "map_at h' r' = Some m" by (auto simp: map_at_def)
  with alloc_grows [OF al, of "{}"] \<open>r' = Some a\<close> \<open>h' = h1\<close> Some show ?thesis by simp
qed

text \<open>An array of some kind of elements is read as it was written.\<close>

locale array_kind =
  fixes content :: "cell \<Rightarrow> 'a list" and array :: "'a list \<Rightarrow> cell"
  assumes content_array: "content (array xs) = xs"
begin

lemma append_nil_spec:
  assumes "append_nil content array r h = (r', h')"
  shows "grows {} h h' \<and> slice_at content h' r' = copy_slice (slice_at content h r) \<and>
    slice_addrs r' \<subseteq> {next_addr h..<next_addr h'}"
proof (cases "elems (slice_at content h r) = []")
  case True
  then have "copy_slice (slice_at content h r) = None" by simp
  moreover have "slice_at content h None = None" by (simp add: slice_at_def)
  ultimately show ?thesis using True assms by (auto simp: append_nil_def simp del: copy_slice_eq_None)
next
  case False
  define xs where "xs = elems (slice_at content h r)"
  obtain a h1 where al: "alloc (array xs) h = (a, h1)" by (metis surj_pair)
  with False assms have r: "r' = Some (a, length xs)" "h' = h1"
    by (simp_all add: append_nil_def Let_def xs_def)
  from alloc_grows [OF al, of "{}"] have "slice_at content h' r' = Some xs"
    by (auto simp: r slice_at_def content_array)
  moreover have "copy_slice (slice_at content h r) = Some xs"
    using False by (simp add: copy_slice_def xs_def split: list.split)
  ultimately show ?thesis using alloc_grows [OF al, of "{}"] r by simp
qed

lemma append_nil_array:
  assumes "append_nil content array r h = (Some (d, n), h')"
  shows "n = length (elems (slice_at content h r)) \<and> cells h' d = Some (array (elems (slice_at content h r))) \<and>
    next_addr h \<le> d \<and> d < next_addr h'"
proof -
  obtain a h1 where al: "alloc (array (elems (slice_at content h r))) h = (a, h1)" by (metis surj_pair)
  with assms alloc_grows [OF al, of "{}"] show ?thesis
    by (auto simp: append_nil_def Let_def split: if_splits)
qed

end

interpretation strings: array_kind strings_in Strings by unfold_locales simp
interpretation peers: array_kind peers_in PeerCells by unfold_locales simp

text \<open>
  An array whose elements hold references of their own is copied, and then a loop replaces these
  references element by element. \<open>element\<close> is an element's value, \<open>addrs\<close> what that depends on,
  \<open>deep\<close> what the copy's value is, and \<open>step\<close> the body of the loop.
\<close>

locale deep_array = array_kind content array
  for content :: "cell \<Rightarrow> 'a list" and array :: "'a list \<Rightarrow> cell" +
  fixes element :: "store \<Rightarrow> 'a \<Rightarrow> 'v" and addrs :: "'a \<Rightarrow> addr set" and deep :: "'v \<Rightarrow> 'v"
    and step :: "slice_ref \<Rightarrow> slice_ref \<Rightarrow> nat \<Rightarrow> store \<Rightarrow> store"
  assumes element_cong: "(\<And>a. a \<in> addrs c \<Longrightarrow> cells h' a = cells h a) \<Longrightarrow> element h' c = element h c"
    and step_spec: "cells h d = Some (array cs) \<Longrightarrow> d < next_addr h \<Longrightarrow> i < length cs \<Longrightarrow>
      cs ! i = elems (slice_at content h src) ! i \<Longrightarrow> slice_addrs src \<union> addrs (cs ! i) \<subseteq> {..<next_addr h} - {d} \<Longrightarrow>
      grows {d} h (step src (Some (d, n)) i h) \<and>
      (\<exists>c. cells (step src (Some (d, n)) i h) d = Some (array (cs[i := c])) \<and>
        element (step src (Some (d, n)) i h) c = deep (element h (cs ! i)) \<and>
        addrs c \<subseteq> {next_addr h..<next_addr (step src (Some (d, n)) i h)})"
begin

lemma element_grows: "grows D h h' \<Longrightarrow> addrs c \<subseteq> {..<next_addr h} - D \<Longrightarrow> element h' c = element h c"
  by (rule element_cong) (auto simp: grows_def)

definition copied_to :: "store \<Rightarrow> 'a list \<Rightarrow> addr \<Rightarrow> nat \<Rightarrow> store \<Rightarrow> 'a list \<Rightarrow> bool" where
  "copied_to h xs d k h' cs \<longleftrightarrow>
     grows {d} h h' \<and> cells h' d = Some (array cs) \<and> length cs = length xs \<and>
     (\<forall>i < k. element h' (cs ! i) = deep (element h (xs ! i)) \<and> addrs (cs ! i) \<subseteq> {next_addr h..<next_addr h'}) \<and>
     (\<forall>i < length xs. k \<le> i \<longrightarrow> cs ! i = xs ! i)"

lemma loop_copies:
  assumes "cells h d = Some (array xs)" and "d < next_addr h" and "elems (slice_at content h src) = xs"
    and "slice_addrs src \<union> (\<Union>x \<in> set xs. addrs x) \<subseteq> {..<next_addr h} - {d}" and "k \<le> length xs"
  shows "\<exists>cs. copied_to h xs d k (fold (step src (Some (d, n))) [0..<k] h) cs"
  using assms(5)
proof (induction k)
  case 0
  then show ?case using assms(1) by (intro exI [of _ xs]) (simp add: copied_to_def)
next
  case (Suc k)
  let ?h = "fold (step src (Some (d, n))) [0..<k] h"
  let ?h' = "step src (Some (d, n)) k ?h"
  from Suc.IH Suc.prems obtain cs where cs: "copied_to h xs d k ?h cs" by auto
  then have g: "grows {d} h ?h" "cells ?h d = Some (array cs)" "length cs = length xs"
    and so_far: "\<And>i. i < k \<Longrightarrow> element ?h (cs ! i) = deep (element h (xs ! i)) \<and> addrs (cs ! i) \<subseteq> {next_addr h..<next_addr ?h}"
    and rest: "\<And>i. i < length xs \<Longrightarrow> k \<le> i \<Longrightarrow> cs ! i = xs ! i" by (auto simp: copied_to_def)
  have k: "k < length xs" using Suc.prems by simp
  have nx: "d < next_addr ?h" "next_addr h \<le> next_addr ?h" using assms(2) grows_next [OF g(1)] by simp_all
  have src: "elems (slice_at content ?h src) = xs"
    using grows_slice [OF g(1), of src content] assms(3,4) by simp
  have own: "addrs (xs ! k) \<subseteq> {..<next_addr h} - {d}" using assms(4) nth_mem [OF k] by blast
  have "slice_addrs src \<union> addrs (cs ! k) \<subseteq> {..<next_addr ?h} - {d}"
    using assms(4) own rest [OF k] nx(2) by fastforce
  from step_spec [OF g(2) nx(1) _ _ this, of n] k g(3) rest src obtain c where
    g': "grows {d} ?h ?h'" and c: "cells ?h' d = Some (array (cs[k := c]))"
      "element ?h' c = deep (element ?h (xs ! k))" "addrs c \<subseteq> {next_addr ?h..<next_addr ?h'}" by fastforce
  have "element ?h (xs ! k) = element h (xs ! k)" by (rule element_grows [OF g(1) own])
  moreover have "element ?h' (cs ! i) = deep (element h (xs ! i)) \<and> addrs (cs ! i) \<subseteq> {next_addr h..<next_addr ?h'}" if "i < k" for i
  proof -
    have "addrs (cs ! i) \<subseteq> {..<next_addr ?h} - {d}" using so_far [OF that] assms(2) by fastforce
    from element_grows [OF g' this] so_far [OF that] grows_next [OF g'] show ?thesis by fastforce
  qed
  moreover have "grows {d} h ?h'" by (rule grows_trans [OF g(1) g']) simp
  ultimately have "copied_to h xs d (Suc k) ?h' (cs[k := c])"
    using c g(3) k nx(2) rest by (auto simp: copied_to_def nth_list_update less_Suc_eq)
  then show ?case by auto
qed

text \<open>
  The copy of an array and, possibly after other work that leaves it and the original alone, the loop.
  \<open>b\<close> bounds the original's memory.
\<close>

lemma deep_copy:
  assumes app: "append_nil content array src h = (dst, h1)" and h2: "grows D h1 h2"
    and D: "D \<inter> ({..<b} \<union> {next_addr h..<next_addr h1}) = {}" and b: "b \<le> next_addr h"
    and old: "slice_addrs src \<union> (\<Union>x \<in> set (elems (slice_at content h src)). addrs x) \<subseteq> {..<b}"
    and h3: "h3 = fold (step src dst) [0..<slice_length dst] h2"
  shows "grows (slice_addrs dst) h2 h3 \<and> slice_addrs dst \<subseteq> {next_addr h..<next_addr h1} \<and>
    (\<Union>x \<in> set (elems (slice_at content h3 dst)). addrs x) \<subseteq> {next_addr h2..<next_addr h3} \<and>
    map_option (map (element h3)) (slice_at content h3 dst) =
      map_option (map (deep \<circ> element h)) (copy_slice (slice_at content h src))"
proof -
  define xs where "xs = elems (slice_at content h src)"
  note s1 = append_nil_spec [OF app]
  have g: "grows D h h2" by (rule grows_trans [OF _ h2]) (use s1 in \<open>auto simp: grows_def\<close>)
  show ?thesis
  proof (cases dst)
    case None
    with s1 h3 show ?thesis by (auto simp: slice_at_def slice_length_def elems_def)
  next
    case (Some dn)
    then obtain d n where dst: "dst = Some (d, n)" by (cases dn) simp
    from append_nil_array [OF app [unfolded dst]] have n: "n = length xs" and d: "cells h1 d = Some (array xs)"
      "next_addr h \<le> d" "d < next_addr h1" by (simp_all add: xs_def)
    have "d \<notin> D" using d(2,3) D unfolding disjoint_iff by auto
    then have d2: "cells h2 d = Some (array xs)" "d < next_addr h2"
      using d grows_cell [OF h2 d(3)] grows_next [OF h2] by auto
    have "slice_at content h2 src = slice_at content h src"
      by (rule grows_slice [OF g]) (use old b D in auto)
    moreover have "slice_addrs src \<union> (\<Union>x \<in> set xs. addrs x) \<subseteq> {..<next_addr h2} - {d}"
      using old b d(2) grows_next [OF g] by (fastforce simp: xs_def)
    ultimately obtain cs where cs: "copied_to h2 xs d (length xs) h3 cs"
      using loop_copies [OF d2, of src "length xs" n] by (auto simp: xs_def h3 dst n slice_length_def)
    then have g3: "grows {d} h2 h3" and val: "slice_at content h3 dst = Some cs"
      by (simp_all add: copied_to_def dst n slice_at_def content_array)
    have "element h2 x = element h x" if "x \<in> set xs" for x
      by (rule element_grows [OF g]) (use that old b D in \<open>auto simp: xs_def\<close>)
    with cs have "map (element h3) cs = map (deep \<circ> element h) xs"
      by (auto simp: copied_to_def intro!: nth_equalityI)
    moreover have "copy_slice (slice_at content h src) = Some xs" using s1 dst by (cases "slice_at content h1 dst") (auto simp: xs_def copy_slice_def slice_at_def split: list.splits)
    moreover have "(\<Union>x \<in> set cs. addrs x) \<subseteq> {next_addr h2..<next_addr h3}"
      using cs by (fastforce simp: copied_to_def in_set_conv_nth)
    ultimately show ?thesis using s1 g3 val dst by (simp add: elems_def)
  qed
qed

end

section \<open>The loops over routes and upstreams\<close>

lemma put_route_spec:
  assumes "cells h d = Some (RouteCells cs)"
  shows "grows {d} h (put_route (Some (d, n)) i f h) \<and> next_addr (put_route (Some (d, n)) i f h) = next_addr h \<and>
    cells (put_route (Some (d, n)) i f h) d = Some (RouteCells (cs[i := f (cs ! i)]))"
  using assms by (simp add: put_route_def write_cell_def grows_def)

lemma put_upstream_spec:
  assumes "cells h d = Some (UpstreamCells cs)"
  shows "grows {d} h (put_upstream (Some (d, n)) i f h) \<and> next_addr (put_upstream (Some (d, n)) i f h) = next_addr h \<and>
    cells (put_upstream (Some (d, n)) i f h) d = Some (UpstreamCells (cs[i := f (cs ! i)]))"
  using assms by (simp add: put_upstream_def write_cell_def grows_def)

text \<open>A fresh reference keeps its value while memory grows and the array \<open>d\<close>, older than it, is written.\<close>

lemma fresh_slice:
  "slice_addrs r \<subseteq> {m..<next_addr h} \<Longrightarrow> d < m \<Longrightarrow> grows {d} h h' \<Longrightarrow>
     slice_at content h' r = slice_at content h r \<and> slice_addrs r \<subseteq> {m..<next_addr h'}"
  using grows_slice [of "{d}" h h' r content] grows_next [of "{d}" h h'] by fastforce

text \<open>Memory is allocated, and then a field of an element is assigned.\<close>

lemma assign_route:
  assumes "cells h d = Some (RouteCells cs)" and "d < next_addr h" and "grows {} h h1"
    and "h2 = put_route (Some (d, n)) i f h1"
  shows "cells h2 d = Some (RouteCells (cs[i := f (cs ! i)]))" and "d < next_addr h2"
    and "grows {d} h1 h2" and "grows {d} h h2" and "next_addr h2 = next_addr h1"
proof -
  have d: "cells h1 d = Some (RouteCells cs)" "next_addr h \<le> next_addr h1" and g: "grows {d} h h1"
    using assms(1-3) by (auto simp: grows_def)
  note p = put_route_spec [OF d(1), of n i f, folded assms(4)]
  then show "cells h2 d = Some (RouteCells (cs[i := f (cs ! i)]))" "grows {d} h1 h2" "next_addr h2 = next_addr h1" "d < next_addr h2"
    using assms(2) d(2) by simp_all
  from g p show "grows {d} h h2" by (auto intro: grows_trans)
qed

lemma clone_route_at_spec:
  assumes d: "cells h d = Some (RouteCells cs)" "d < next_addr h" and i: "i < length cs"
    and same: "cs ! i = elems (slice_at routes_in h src) ! i"
    and old: "slice_addrs src \<union> route_addrs (cs ! i) \<subseteq> {..<next_addr h} - {d}"
  shows "grows {d} h (clone_route_at src (Some (d, n)) i h) \<and>
    (\<exists>c. cells (clone_route_at src (Some (d, n)) i h) d = Some (RouteCells (cs[i := c])) \<and>
      route_value (clone_route_at src (Some (d, n)) i h) c = clone_route (route_value h (cs ! i)) \<and>
      route_addrs c \<subseteq> {next_addr h..<next_addr (clone_route_at src (Some (d, n)) i h)})"
proof -
  let ?c = "cs ! i" and ?put = "put_route (Some (d, n)) i"
  obtain ms h1 where 1: "append_nil strings_in Strings (rc_methods ?c) h = (ms, h1)" by (metis surj_pair)
  define h2 where "h2 = ?put (\<lambda>c. c\<lparr>rc_methods := ms\<rparr>) h1"
  obtain ss h3 where 3: "append_nil strings_in Strings (rc_scopes ?c) h2 = (ss, h3)" by (metis surj_pair)
  define h4 where "h4 = ?put (\<lambda>c. c\<lparr>rc_scopes := ss\<rparr>) h3"
  obtain m h5 where 5: "clone_map_in (rc_headers ?c) h4 = (m, h5)" by (metis surj_pair)
  define h6 where "h6 = ?put (\<lambda>c. c\<lparr>rc_headers := m\<rparr>) h5"
  note s1 = strings.append_nil_spec [OF 1] and s3 = strings.append_nil_spec [OF 3] and s5 = clone_map_in_spec [OF 5]
  note p2 = assign_route [OF d s1 [THEN conjunct1] h2_def]
  note p4 = assign_route [OF p2(1,2) s3 [THEN conjunct1] h4_def]
  note p6 = assign_route [OF p4(1,2) s5 [THEN conjunct1] h6_def]
  have g4: "grows {d} h h4" by (rule grows_trans [OF p2(4) p4(4)]) simp
  have g36: "grows {d} h3 h6" by (rule grows_trans [OF p4(3) p6(4)]) simp
  have g26: "grows {d} h2 h6" by (rule grows_trans [OF p4(4) p6(4)]) simp
  have g16: "grows {d} h1 h6" by (rule grows_trans [OF p2(3) g26]) simp
  have g6: "grows {d} h h6" by (rule grows_trans [OF g4 p6(4)]) simp
  have src: "slice_at routes_in h2 src = slice_at routes_in h src" "slice_at routes_in h4 src = slice_at routes_in h src"
    using grows_slice [OF p2(4)] grows_slice [OF g4] old by auto
  have run: "clone_route_at src (Some (d, n)) i h = h6"
    using 1 3 5 same src by (simp add: clone_route_at_def Let_def h2_def [symmetric] h4_def [symmetric] h6_def [symmetric])
  let ?r = "?c\<lparr>rc_methods := ms, rc_scopes := ss, rc_headers := m\<rparr>"
  have ms: "slice_at strings_in h6 ms = copy_slice (slice_at strings_in h (rc_methods ?c))" "slice_addrs ms \<subseteq> {next_addr h..<next_addr h6}"
    using s1 fresh_slice [OF _ d(2) g16, of ms strings_in] by auto
  have "slice_at strings_in h2 (rc_scopes ?c) = slice_at strings_in h (rc_scopes ?c)"
    by (rule grows_slice [OF p2(4)]) (use old in \<open>auto simp: route_addrs_def\<close>)
  then have ss: "slice_at strings_in h6 ss = copy_slice (slice_at strings_in h (rc_scopes ?c))" "slice_addrs ss \<subseteq> {next_addr h..<next_addr h6}"
    using s3 fresh_slice [OF _ p2(2) g36, of ss strings_in] grows_next [OF p2(4)] by auto
  have "map_at h4 (rc_headers ?c) = map_at h (rc_headers ?c)"
    by (rule grows_map [OF g4]) (use old in \<open>auto simp: route_addrs_def\<close>)
  moreover have "map_at h6 m = map_at h5 m"
    by (rule grows_map [OF p6(3)]) (use s5 p4(2) in auto)
  ultimately have m: "map_at h6 m = map_at h (rc_headers ?c)" "set_option m \<subseteq> {next_addr h..<next_addr h6}"
    using s5 p6(5) grows_next [OF g4] by auto
  have "route_value h6 ?r = clone_route (route_value h ?c)"
    using ms ss m by (simp add: route_value_def clone_route_def cloneStringMap_def split: option.split)
  moreover have "route_addrs ?r \<subseteq> {next_addr h..<next_addr h6}" using ms ss m by (simp add: route_addrs_def)
  moreover have "cells h6 d = Some (RouteCells (cs[i := ?r]))" using p6(1) i by simp
  ultimately show ?thesis using g6 unfolding run by blast
qed

interpretation routes: deep_array routes_in RouteCells route_value route_addrs clone_route clone_route_at
proof unfold_locales
  show "routes_in (RouteCells xs) = xs" for xs by simp
qed (fact route_value_cong clone_route_at_spec)+

lemma clone_upstream_at_spec:
  assumes d: "cells h d = Some (UpstreamCells cs)" "d < next_addr h" and i: "i < length cs"
    and same: "cs ! i = elems (slice_at upstreams_in h src) ! i"
    and old: "slice_addrs src \<union> upstream_addrs (cs ! i) \<subseteq> {..<next_addr h} - {d}"
  shows "grows {d} h (clone_upstream_at src (Some (d, n)) i h) \<and>
    (\<exists>c. cells (clone_upstream_at src (Some (d, n)) i h) d = Some (UpstreamCells (cs[i := c])) \<and>
      upstream_value (clone_upstream_at src (Some (d, n)) i h) c = clone_upstream (upstream_value h (cs ! i)) \<and>
      upstream_addrs c \<subseteq> {next_addr h..<next_addr (clone_upstream_at src (Some (d, n)) i h)})"
proof -
  let ?c = "cs ! i"
  obtain us h1 where 1: "append_nil strings_in Strings (uc_urls ?c) h = (us, h1)" by (metis surj_pair)
  define h2 where "h2 = put_upstream (Some (d, n)) i (\<lambda>c. c\<lparr>uc_urls := us\<rparr>) h1"
  note s1 = strings.append_nil_spec [OF 1]
  have g1: "grows {d} h h1" and d1: "cells h1 d = Some (UpstreamCells cs)" using s1 d by (auto simp: grows_def)
  note p2 = put_upstream_spec [OF d1, of n i "\<lambda>c. c\<lparr>uc_urls := us\<rparr>", folded h2_def]
  have g2: "grows {d} h h2" using g1 p2 by (auto intro: grows_trans)
  have run: "clone_upstream_at src (Some (d, n)) i h = h2" using 1 same by (simp add: clone_upstream_at_def h2_def)
  have us: "slice_at strings_in h2 us = copy_slice (slice_at strings_in h (uc_urls ?c))" "slice_addrs us \<subseteq> {next_addr h..<next_addr h2}"
    using s1 fresh_slice [OF _ d(2), of us h1 h2 strings_in] p2 by auto
  let ?r = "?c\<lparr>uc_urls := us\<rparr>"
  have "upstream_value h2 ?r = clone_upstream (upstream_value h ?c)"
    using us by (simp add: upstream_value_def clone_upstream_def)
  moreover have "upstream_addrs ?r \<subseteq> {next_addr h..<next_addr h2}" using us by (simp add: upstream_addrs_def)
  moreover have "cells h2 d = Some (UpstreamCells (cs[i := ?r]))" using p2 i by simp
  ultimately show ?thesis using g2 unfolding run by blast
qed

interpretation upstreams: deep_array upstreams_in UpstreamCells upstream_value upstream_addrs clone_upstream clone_upstream_at
proof unfold_locales
  show "upstreams_in (UpstreamCells xs) = xs" for xs by simp
qed (fact upstream_value_cong clone_upstream_at_spec)+

section \<open>The clone\<close>

lemma copy_map_option: "copy_slice (map_option (map f) s) = map_option (map f) (copy_slice s)"
  by (cases s) (auto simp: copy_slice_def split: list.split)

lemma elements_cong:
  "slice_at content h' r = slice_at content h r \<Longrightarrow> (\<And>x. x \<in> set (elems (slice_at content h r)) \<Longrightarrow> f x = g x) \<Longrightarrow>
     map_option (map f) (slice_at content h' r) = map_option (map g) (slice_at content h r)"
  using map_value_cong [of "slice_at content h r" f g] by simp

text \<open>The two loops, after the four copies; \<open>b\<close> bounds the original's memory.\<close>

lemma clone_loops:
  assumes rs: "append_nil routes_in RouteCells src h1 = (rs, h2)" and us: "append_nil upstreams_in UpstreamCells src' h2 = (us, h3)"
    and g34: "grows {} h3 h4" and b: "b \<le> next_addr h1"
    and old: "slice_addrs src \<union> (\<Union>x \<in> set (elems (slice_at routes_in h1 src)). route_addrs x) \<subseteq> {..<b}"
      "slice_addrs src' \<union> (\<Union>x \<in> set (elems (slice_at upstreams_in h2 src')). upstream_addrs x) \<subseteq> {..<b}"
    and h5: "h5 = fold (clone_route_at src rs) [0..<slice_length rs] h4"
    and h6: "h6 = fold (clone_upstream_at src' us) [0..<slice_length us] h5"
  shows "grows (slice_addrs rs \<union> slice_addrs us) h4 h6 \<and>
    slice_addrs rs \<subseteq> {next_addr h1..<next_addr h2} \<and> slice_addrs us \<subseteq> {next_addr h2..<next_addr h3} \<and>
    (\<Union>x \<in> set (elems (slice_at routes_in h6 rs)). route_addrs x) \<subseteq> {next_addr h4..<next_addr h6} \<and>
    (\<Union>x \<in> set (elems (slice_at upstreams_in h6 us)). upstream_addrs x) \<subseteq> {next_addr h4..<next_addr h6} \<and>
    map_option (map (route_value h6)) (slice_at routes_in h6 rs) =
      map_option (map (clone_route \<circ> route_value h1)) (copy_slice (slice_at routes_in h1 src)) \<and>
    map_option (map (upstream_value h6)) (slice_at upstreams_in h6 us) =
      map_option (map (clone_upstream \<circ> upstream_value h2)) (copy_slice (slice_at upstreams_in h2 src'))"
proof -
  note s2 = routes.append_nil_spec [OF rs] and s3 = upstreams.append_nil_spec [OF us]
  note ns = grows_next [OF s2 [THEN conjunct1]] grows_next [OF s3 [THEN conjunct1]] grows_next [OF g34]
  have g24: "grows {} h2 h4" by (rule grows_trans [OF s3 [THEN conjunct1] g34]) simp
  from routes.deep_copy [OF rs g24 _ b old(1) h5]
  have r: "grows (slice_addrs rs) h4 h5" "slice_addrs rs \<subseteq> {next_addr h1..<next_addr h2}"
    "(\<Union>x \<in> set (elems (slice_at routes_in h5 rs)). route_addrs x) \<subseteq> {next_addr h4..<next_addr h5}"
    "map_option (map (route_value h5)) (slice_at routes_in h5 rs) =
      map_option (map (clone_route \<circ> route_value h1)) (copy_slice (slice_at routes_in h1 src))"
    by simp_all
  have g35: "grows (slice_addrs rs) h3 h5" by (rule grows_trans [OF _ r(1)]) (use g34 in \<open>auto simp: grows_def\<close>)
  have "slice_addrs rs \<inter> ({..<b} \<union> {next_addr h2..<next_addr h3}) = {}" using r(2) b by fastforce
  from upstreams.deep_copy [OF us g35 this _ old(2) h6] b ns(1)
  have u: "grows (slice_addrs us) h5 h6" "slice_addrs us \<subseteq> {next_addr h2..<next_addr h3}"
    "(\<Union>x \<in> set (elems (slice_at upstreams_in h6 us)). upstream_addrs x) \<subseteq> {next_addr h5..<next_addr h6}"
    "map_option (map (upstream_value h6)) (slice_at upstreams_in h6 us) =
      map_option (map (clone_upstream \<circ> upstream_value h2)) (copy_slice (slice_at upstreams_in h2 src'))"
    by simp_all
  have apart: "slice_addrs rs \<subseteq> {..<next_addr h5} - slice_addrs us"
    using r(2) u(2) ns grows_next [OF r(1)] by fastforce
  have same: "slice_at routes_in h6 rs = slice_at routes_in h5 rs" by (rule grows_slice [OF u(1) apart])
  moreover have "map_option (map (route_value h6)) (slice_at routes_in h6 rs) = map_option (map (route_value h5)) (slice_at routes_in h5 rs)"
  proof (rule elements_cong [OF same])
    fix x
    assume "x \<in> set (elems (slice_at routes_in h5 rs))"
    with r(3) have "route_addrs x \<subseteq> {next_addr h4..<next_addr h5}" by blast
    with u(2) ns have "route_addrs x \<subseteq> {..<next_addr h5} - slice_addrs us" by fastforce
    then show "route_value h6 x = route_value h5 x" by (rule routes.element_grows [OF u(1)])
  qed
  moreover have "grows (slice_addrs rs \<union> slice_addrs us) h4 h6"
    using r(1) u(1) by (auto simp: grows_def)
  ultimately show ?thesis using r u grows_next [OF r(1)] grows_next [OF u(1)] by fastforce
qed

text \<open>
  The clone's value is the clone of the value, its memory is fresh, and what was there is as it was.
\<close>

lemma clone_in_spec:
  assumes run: "clone_in c h = (c', h')" and own: "footprint h c \<subseteq> {..<next_addr h}"
  shows "config_value h' c' = Clone (config_value h c) \<and> footprint h' c' \<subseteq> {next_addr h..<next_addr h'} \<and> grows {} h h'"
proof -
  obtain sc h1 where 1: "append_nil strings_in Strings (cf_scopes c) h = (sc, h1)" by (metis surj_pair)
  obtain rs h2 where 2: "append_nil routes_in RouteCells (cf_routes c) h1 = (rs, h2)" by (metis surj_pair)
  obtain us h3 where 3: "append_nil upstreams_in UpstreamCells (cf_upstreams c) h2 = (us, h3)" by (metis surj_pair)
  obtain ps h4 where 4: "append_nil peers_in PeerCells (cf_peers c) h3 = (ps, h4)" by (metis surj_pair)
  define h5 where "h5 = fold (clone_route_at (cf_routes c) rs) [0..<slice_length rs] h4"
  define h6 where "h6 = fold (clone_upstream_at (cf_upstreams c) us) [0..<slice_length us] h5"
  have h': "h' = h6" and c': "c' = c\<lparr>cf_scopes := sc, cf_routes := rs, cf_upstreams := us, cf_peers := ps\<rparr>"
    using run 1 2 3 4 by (simp_all add: clone_in_def Let_def h5_def h6_def)
  note s1 = strings.append_nil_spec [OF 1] and s2 = routes.append_nil_spec [OF 2]
    and s3 = upstreams.append_nil_spec [OF 3] and s4 = peers.append_nil_spec [OF 4]
  have g01: "grows {} h h1" and g34: "grows {} h3 h4" using s1 s4 by simp_all
  have g02: "grows {} h h2" by (rule grows_trans [OF g01 s2 [THEN conjunct1]]) simp
  have g03: "grows {} h h3" by (rule grows_trans [OF g02 s3 [THEN conjunct1]]) simp
  have g04: "grows {} h h4" by (rule grows_trans [OF g03 g34]) simp
  have g14: "grows {} h1 h4" using s2 s3 s4 by (fastforce simp: grows_def)
  note ns = grows_next [OF g01] grows_next [OF g03] grows_next [OF g34] grows_next [OF g14]
  have tops: "slice_addrs (cf_routes c) \<subseteq> {..<next_addr h} - {}" "slice_addrs (cf_upstreams c) \<subseteq> {..<next_addr h} - {}"
    "slice_addrs (cf_peers c) \<subseteq> {..<next_addr h} - {}"
    using own by (auto simp: footprint_def)
  note at = grows_slice [OF g01 tops(1)] grows_slice [OF g02 tops(2)] grows_slice [OF g03 tops(3)]
  have old: "slice_addrs (cf_routes c) \<union> (\<Union>x \<in> set (elems (slice_at routes_in h1 (cf_routes c))). route_addrs x) \<subseteq> {..<next_addr h}"
    "slice_addrs (cf_upstreams c) \<union> (\<Union>x \<in> set (elems (slice_at upstreams_in h2 (cf_upstreams c))). upstream_addrs x) \<subseteq> {..<next_addr h}"
    using own by (auto simp: footprint_def at)
  note l = clone_loops [OF 2 3 g34 ns(1) old h5_def h6_def]
  let ?A = "slice_addrs rs \<union> slice_addrs us"
  have g46: "grows ?A h4 h6" and A: "?A \<subseteq> {next_addr h1..<next_addr h3}"
    using l grows_next [OF s2 [THEN conjunct1]] grows_next [OF s3 [THEN conjunct1]] by fastforce+
  have g06: "grows {} h h6" by (rule grows_trans [OF g04 g46]) (use A ns in fastforce)
  have g16: "grows ?A h1 h6" using g14 g46 by (auto simp: grows_def)
  have "slice_at strings_in h6 sc = slice_at strings_in h1 sc"
    by (rule grows_slice [OF g16]) (use s1 A in fastforce)
  moreover have "slice_at peers_in h6 ps = slice_at peers_in h4 ps"
    by (rule grows_slice [OF g46]) (use s4 A in fastforce)
  moreover have "map_option (map (clone_route \<circ> route_value h1)) (copy_slice (slice_at routes_in h (cf_routes c))) =
      map_option (map (clone_route \<circ> route_value h)) (copy_slice (slice_at routes_in h (cf_routes c)))"
    by (rule map_value_cong) (use own routes.element_grows [OF g01] in \<open>fastforce simp: footprint_def\<close>)
  moreover have "map_option (map (clone_upstream \<circ> upstream_value h2)) (copy_slice (slice_at upstreams_in h (cf_upstreams c))) =
      map_option (map (clone_upstream \<circ> upstream_value h)) (copy_slice (slice_at upstreams_in h (cf_upstreams c)))"
    by (rule map_value_cong) (use own upstreams.element_grows [OF g02] in \<open>fastforce simp: footprint_def\<close>)
  ultimately have "config_value h6 c' = Clone (config_value h c)"
    using s1 s4 l by (simp add: config_value_def Clone_def c' at copy_map_option option.map_comp comp_def)
  moreover have "footprint h6 c' \<subseteq> {next_addr h..<next_addr h6}"
    using s1 s4 l A ns grows_next [OF g46] unfolding footprint_def c' by fastforce
  ultimately show ?thesis using g06 by (simp add: h')
qed

section \<open>Snapshots\<close>

text \<open>A snapshot is a clone, and what it hands out are clones.\<close>

definition NewSnapshot_in :: "ConfigRef \<Rightarrow> store \<Rightarrow> ConfigRef \<times> store" where
  "NewSnapshot_in value h = clone_in value h"

definition snapshot_Config_in :: "ConfigRef \<Rightarrow> store \<Rightarrow> ConfigRef \<times> store" where
  "snapshot_Config_in snap h = clone_in snap h"

text \<open>
  A snapshot among callers who know all memory that was there before it and all that it hands out, and
  who write anything there.
\<close>

record vault =
  va_snap :: ConfigRef
  va_store :: store
  va_known :: "addr set"

inductive vault_step :: "vault \<Rightarrow> vault \<Rightarrow> bool" where
  Read: "snapshot_Config_in (va_snap v) (va_store v) = (c, h) \<Longrightarrow>
    vault_step v (v\<lparr>va_store := h, va_known := va_known v \<union> footprint h c\<rparr>)"
| Allocate: "alloc x (va_store v) = (a, h) \<Longrightarrow>
    vault_step v (v\<lparr>va_store := h, va_known := insert a (va_known v)\<rparr>)"
| Write: "a \<in> va_known v \<Longrightarrow> vault_step v (v\<lparr>va_store := write_cell a x (va_store v)\<rparr>)"

inductive vault_reachable :: "Config \<Rightarrow> vault \<Rightarrow> bool" for original where
  Made: "footprint h c \<subseteq> {..<next_addr h} \<Longrightarrow> config_value h c = original \<Longrightarrow> NewSnapshot_in c h = (s, h') \<Longrightarrow>
    vault_reachable original \<lparr>va_snap = s, va_store = h', va_known = {..<next_addr h}\<rparr>"
| Step: "vault_reachable original v \<Longrightarrow> vault_step v v' \<Longrightarrow> vault_reachable original v'"

definition vault_inv :: "Config \<Rightarrow> vault \<Rightarrow> bool" where
  "vault_inv original v \<longleftrightarrow>
     config_value (va_store v) (va_snap v) = Clone original \<and>
     footprint (va_store v) (va_snap v) \<subseteq> {..<next_addr (va_store v)} - va_known v"

lemma grows_config:
  assumes "grows {} h h'" and "footprint h c \<subseteq> {..<next_addr h}"
  shows "config_value h' c = config_value h c \<and> footprint h' c = footprint h c"
  by (rule config_value_cong) (use assms grows_cell [OF assms(1)] in blast)

lemma vault_inv_step: "vault_step v v' \<Longrightarrow> vault_inv original v \<Longrightarrow> vault_inv original v'"
proof (induction rule: vault_step.induct)
  case (Read v c h)
  then have own: "footprint (va_store v) (va_snap v) \<subseteq> {..<next_addr (va_store v)}" by (auto simp: vault_inv_def)
  from clone_in_spec [OF Read.hyps [unfolded snapshot_Config_in_def] this] have
    fresh: "footprint h c \<subseteq> {next_addr (va_store v)..<next_addr h}" and g: "grows {} (va_store v) h" by simp_all
  have "footprint (va_store v) (va_snap v) \<subseteq> {..<next_addr h} - (va_known v \<union> footprint h c)"
    using Read.prems fresh grows_next [OF g] by (fastforce simp: vault_inv_def)
  with grows_config [OF g own] Read.prems show ?case by (simp add: vault_inv_def)
next
  case (Allocate x v a h)
  then have own: "footprint (va_store v) (va_snap v) \<subseteq> {..<next_addr (va_store v)} - va_known v" by (simp add: vault_inv_def)
  from alloc_grows [OF Allocate.hyps, of "{}"] have g: "grows {} (va_store v) h" "a = next_addr (va_store v)"
    "next_addr h = next_addr (va_store v) + 1" by simp_all
  have "footprint (va_store v) (va_snap v) \<subseteq> {..<next_addr h} - insert a (va_known v)" using own g(2,3) by fastforce
  moreover have "footprint (va_store v) (va_snap v) \<subseteq> {..<next_addr (va_store v)}" using own by blast
  ultimately show ?case using grows_config [OF g(1)] Allocate.prems by (simp add: vault_inv_def)
next
  case (Write a v x)
  then have "cells (write_cell a x (va_store v)) b = cells (va_store v) b" if "b \<in> footprint (va_store v) (va_snap v)" for b
    using that by (auto simp: vault_inv_def write_cell_def)
  from config_value_cong [of "va_store v" "va_snap v", OF this] Write.prems show ?case
    by (simp add: vault_inv_def) (simp add: write_cell_def)
qed

lemma vault_reachable_inv: "vault_reachable original v \<Longrightarrow> vault_inv original v"
proof (induction rule: vault_reachable.induct)
  case (Made h c s h')
  from clone_in_spec [OF Made.hyps(3) [unfolded NewSnapshot_in_def] Made.hyps(1)] Made.hyps(2) show ?case
    by (fastforce simp: vault_inv_def)
next
  case (Step v v')
  then show ?case by (blast intro: vault_inv_step)
qed

section \<open>Properties\<close>

text \<open>
  Claim C14: \<^verbatim>\<open>Config.Clone\<close>, as it allocates and assigns in memory, computes the clone of the value; the
  original keeps its value, and the two share no memory, whatever memory the original's parts share.
\<close>

theorem clone_in_refines:
  assumes "clone_in c h = (c', h')" and "footprint h c \<subseteq> {..<next_addr h}"
  shows "config_value h' c' = Clone (config_value h c) \<and> config_value h' c = config_value h c \<and>
    footprint h' c' \<inter> footprint h' c = {}"
proof -
  note clone = clone_in_spec [OF assms]
  then have "config_value h' c = config_value h c \<and> footprint h' c = footprint h c"
    using grows_config assms(2) by blast
  with clone assms(2) show ?thesis by fastforce
qed

text \<open>A configuration with one route; its array is at 0 and the route's methods are at 1.\<close>

definition sample_store :: store where
  "sample_store = \<lparr>cells =
     [0 \<mapsto> RouteCells [\<lparr>rc_fields = \<lparr>route_Name = ''api'', route_Host = [], PathPrefix = ''/api'', Methods = None,
         route_Upstream = ''api'', RequireAuth = False, route_Scopes = None, route_Headers = None\<rparr>,
       rc_methods = Some (1, 1), rc_scopes = None, rc_headers = None\<rparr>],
      1 \<mapsto> Strings [''get'']], next_addr = 2\<rparr>"

definition sample_ref :: ConfigRef where
  "sample_ref = \<lparr>cf_fields = Default, cf_scopes = None, cf_peers = None, cf_routes = Some (0, 1), cf_upstreams = None\<rparr>"

lemma sample_footprint: "footprint sample_store sample_ref = {0, 1}"
  by (auto simp: footprint_def sample_ref_def sample_store_def slice_at_def route_addrs_def)

lemma sample_methods:
  "map_option (map Methods) (Routes (config_value h sample_ref)) = Some [Some [''get'']]" if "h = sample_store"
  by (simp add: that config_value_def sample_ref_def sample_store_def slice_at_def route_value_def)

theorem clone_in_refines_witness:
  "config_value (snd (clone_in sample_ref sample_store)) (fst (clone_in sample_ref sample_store)) =
     Clone (config_value sample_store sample_ref) \<and>
   map_option (map Methods) (Routes (config_value (snd (clone_in sample_ref sample_store)) (fst (clone_in sample_ref sample_store)))) =
     Some [Some [''get'']]"
proof -
  have "footprint sample_store sample_ref \<subseteq> {..<next_addr sample_store}"
    unfolding sample_footprint by (simp add: sample_store_def)
  from clone_in_refines [OF _ this, of "fst (clone_in sample_ref sample_store)" "snd (clone_in sample_ref sample_store)"]
  have clone: "config_value (snd (clone_in sample_ref sample_store)) (fst (clone_in sample_ref sample_store)) =
      Clone (config_value sample_store sample_ref)" by simp
  have "map_option (map Methods) (Routes (Clone (config_value sample_store sample_ref))) = Some [Some [''get'']]"
    using sample_methods [OF refl] by (auto simp: Clone_def copy_slice_def clone_route_def split: list.split)
  with clone show ?thesis by simp
qed

text \<open>
  Claim C15: a snapshot cannot be changed: whatever those who made it and those who read it write into
  the memory they know (all that was there before the snapshot, all that it handed out, all that they
  allocate), it holds, and hands out, the clone of the configuration it was made of.
\<close>

theorem snapshot_immutable:
  assumes "vault_reachable original v" and "snapshot_Config_in (va_snap v) (va_store v) = (c, h)"
  shows "config_value (va_store v) (va_snap v) = Clone original \<and> config_value h c = Clone original"
proof -
  from vault_reachable_inv [OF assms(1)] have inv: "config_value (va_store v) (va_snap v) = Clone original"
    "footprint (va_store v) (va_snap v) \<subseteq> {..<next_addr (va_store v)}" by (auto simp: vault_inv_def)
  from clone_in_spec [OF assms(2) [unfolded snapshot_Config_in_def] inv(2)] inv(1) show ?thesis by simp
qed

text \<open>The maker of the snapshot overwrites the methods of its route.\<close>

theorem snapshot_immutable_witness:
  "\<exists>s h. NewSnapshot_in sample_ref sample_store = (s, h) \<and>
     config_value (write_cell 1 (Strings [''delete'']) h) s = Clone (config_value sample_store sample_ref) \<and>
     config_value (write_cell 1 (Strings [''delete'']) h) sample_ref \<noteq> config_value sample_store sample_ref"
proof -
  let ?original = "config_value sample_store sample_ref"
  have own: "footprint sample_store sample_ref \<subseteq> {..<next_addr sample_store}"
    unfolding sample_footprint by (simp add: sample_store_def)
  obtain s h where new: "NewSnapshot_in sample_ref sample_store = (s, h)" by (metis surj_pair)
  let ?v = "\<lparr>va_snap = s, va_store = h, va_known = {..<next_addr sample_store}\<rparr>"
  have "1 \<in> va_known ?v" by (simp add: sample_store_def)
  from Step [OF Made [OF own refl new] Write [OF this]]
  have "vault_reachable ?original (?v\<lparr>va_store := write_cell 1 (Strings [''delete'']) h\<rparr>)" by simp
  from snapshot_immutable [OF this] have "config_value (write_cell 1 (Strings [''delete'']) h) s = Clone ?original"
    by (metis surj_pair vault.select_convs(1,2) vault.simps(5,6))
  moreover have "grows {} sample_store h" using clone_in_spec [OF new [unfolded NewSnapshot_in_def] own] by simp
  then have "cells h 0 = cells sample_store 0" by (simp add: grows_def sample_store_def)
  then have "map_option (map Methods) (Routes (config_value (write_cell 1 (Strings [''delete'']) h) sample_ref)) = Some [Some [''delete'']]"
    by (simp add: config_value_def sample_ref_def sample_store_def slice_at_def route_value_def write_cell_def)
  then have "config_value (write_cell 1 (Strings [''delete'']) h) sample_ref \<noteq> ?original"
    using sample_methods [OF refl] by fastforce
  ultimately show ?thesis using new by blast
qed

end
