(* ===== verification/Contention.thy ===== *)
theory Contention imports DataPlane begin

text \<open>
  Requests of one pool side by side: \<^verbatim>\<open>upstreamPool.pick\<close>, \<^verbatim>\<open>retryTransport.RoundTrip\<close> and
  \<^verbatim>\<open>upstreamPool.checkHealth\<close> of \<^verbatim>\<open>internal/dataplane/server.go\<close> in their atomic steps (the atomic
  counter, one flag, one breaker under its mutex, one call of the base transport), interleaved in
  every way. What the pool keeps then, how a request that runs alone is the one of \<^verbatim>\<open>Upstream\<close> and
  \<^verbatim>\<open>Transport\<close>, and how many steps a request takes.
\<close>

section \<open>The steps of a request\<close>

text \<open>
  Where a request is: at the head of \<^verbatim>\<open>pick\<close>'s loop with the index; after the counter, with the
  candidate; after the candidate's flag; chosen, with \<^verbatim>\<open>pick\<close>'s results; in an attempt of the round
  trip; after a failed attempt that has been reported to the breaker; over. \<open>Lost\<close> is the end of a
  request that the proxy answers itself after \<^verbatim>\<open>pick\<close>, without a round trip.
\<close>

datatype phase =
    Scanning nat
  | Looking nat nat
  | Asking nat nat
  | Chosen nat bool
  | Trying nat nat
  | Judged nat nat attempt
  | Ended result
  | Lost nat bool

fun over :: "phase \<Rightarrow> bool" where
  "over (Ended r) = True"
| "over (Lost c permitted) = True"
| "over p = False"

text \<open>\<open>fl_retries\<close> is the request's signal; \<open>fl_moves\<close> counts its steps for the theorems.\<close>

record flight =
  fl_method :: string
  fl_body :: body
  fl_phase :: phase
  fl_retries :: nat
  fl_moves :: nat

definition new_flight :: "string \<Rightarrow> body \<Rightarrow> flight" where
  "new_flight meth bdy = \<lparr>fl_method = meth, fl_body = bdy, fl_phase = Scanning 0, fl_retries = 0, fl_moves = 0\<rparr>"

text \<open>One iteration of \<^verbatim>\<open>pick\<close>'s loop is three steps, the last of which happens on a healthy candidate only.\<close>

definition pick_step :: "time \<Rightarrow> phase \<Rightarrow> upstreamPool \<Rightarrow> phase \<times> upstreamPool" where
  "pick_step now p u =
     (case p of
        Scanning i \<Rightarrow>
          if i < length (endpoints u) then
            let next' = next_ctr u + 1
            in (Looking i (unat ((next' + of_nat i) mod of_nat (length (endpoints u)))), u\<lparr>next_ctr := next'\<rparr>)
          else (Chosen 0 False, u)
      | Looking i c \<Rightarrow> (if healthy u ! c then Asking i c else Scanning (Suc i), u)
      | Asking i c \<Rightarrow>
          (case allow now (breakers u ! c) of
             (ok, b) \<Rightarrow> (if ok then Chosen c True else Scanning (Suc i), u\<lparr>breakers := (breakers u)[c := b]\<rparr>))
      | _ \<Rightarrow> (p, u))"

text \<open>
  The round trip: the guard, then for each attempt the report to the breaker and, if it failed, what
  follows from it. \<open>a\<close> is what the base transport returns.
\<close>

definition trip_step :: "string \<Rightarrow> body \<Rightarrow> time \<Rightarrow> attempt \<Rightarrow> phase \<Rightarrow> upstreamPool \<Rightarrow> phase \<times> upstreamPool" where
  "trip_step meth bdy now a p u =
     (case p of
        Chosen c permitted \<Rightarrow>
          if permitted then (Trying c 0, u)
          else
            (case allow now (breakers u ! c) of
               (ok, b) \<Rightarrow>
                 (if ok then Trying c 0 else Ended (None, Some CircuitOpen), u\<lparr>breakers := (breakers u)[c := b]\<rparr>))
      | Trying c n \<Rightarrow>
          if attempt_ok a
          then (Ended (attempt_response a, None), u\<lparr>breakers := (breakers u)[c := success (breakers u ! c)]\<rparr>)
          else (Judged c n a, u\<lparr>breakers := (breakers u)[c := failure now (breakers u ! c)]\<rparr>)
      | Judged c n a' \<Rightarrow>
          if retryAttempts u \<le> int n \<or> \<not> safe_method meth
          then (Ended (attempt_response a', attempt_error a'), u)
          else
            (case bdy of
               NoBody \<Rightarrow> (Trying c (Suc n), u)
             | OneShot \<Rightarrow> (Ended (None, attempt_error a'), u)
             | Rewindable fails \<Rightarrow>
                 (if fails n then Ended (None, Some BodyError) else Trying c (Suc n), u))
      | _ \<Rightarrow> (p, u))"

text \<open>
  A step of a request, with what it reports to the event sink: after a failed attempt it asks again
  whether the circuit is open, and it counts a retry before it looks at the body.
\<close>

definition flight_step ::
  "bool \<Rightarrow> time \<Rightarrow> attempt \<Rightarrow> flight \<Rightarrow> upstreamPool \<Rightarrow> flight \<times> upstreamPool \<times> gateway_event list" where
  "flight_step sink now a f u =
     (let (p, u') =
        (case fl_phase f of
           Scanning i \<Rightarrow> pick_step now (fl_phase f) u
         | Looking i c \<Rightarrow> pick_step now (fl_phase f) u
         | Asking i c \<Rightarrow> pick_step now (fl_phase f) u
         | _ \<Rightarrow> trip_step (fl_method f) (fl_body f) now a (fl_phase f) u);
          (opened, again) =
        (case fl_phase f of
           Judged c n a' \<Rightarrow> (sink \<and> isOpen (breakers u ! c), \<not> (retryAttempts u \<le> int n \<or> \<not> safe_method (fl_method f)))
         | _ \<Rightarrow> (False, False))
      in (f\<lparr>fl_phase := p, fl_retries := fl_retries f + (if again then 1 else 0), fl_moves := Suc (fl_moves f)\<rparr>,
          u', if opened then [CircuitTransition] else []))"

section \<open>All requests of a pool\<close>

text \<open>The health loop is about to probe an endpoint, or about to close the circuit of a healthy one.\<close>

datatype check = Due nat | Closing nat

record traffic =
  tf_pool :: upstreamPool
  tf_flights :: "flight list"
  tf_check :: check
  tf_sink :: bool
  tf_events :: "gateway_event list"

text \<open>What \<^verbatim>\<open>checkHealth\<close> does first when a probe has come back.\<close>

definition store_flag :: "bool \<Rightarrow> nat \<Rightarrow> probe \<Rightarrow> upstreamPool \<Rightarrow> upstreamPool \<times> gateway_event list" where
  "store_flag sink i pr u =
     (u\<lparr>healthy := (healthy u)[i := probe_ok pr]\<rparr>, if \<not> probe_ok pr \<and> sink then [HealthFailure] else [])"

inductive traffic_step :: "traffic \<Rightarrow> traffic \<Rightarrow> bool" where
  Arrive: "traffic_step s (s\<lparr>tf_flights := tf_flights s @ [new_flight meth bdy]\<rparr>)"
| Move: "i < length (tf_flights s) \<Longrightarrow> \<not> over (fl_phase (tf_flights s ! i)) \<Longrightarrow> 0 < now \<Longrightarrow>
    flight_step (tf_sink s) now a (tf_flights s ! i) (tf_pool s) = (f, u, ev) \<Longrightarrow>
    traffic_step s (s\<lparr>tf_pool := u, tf_flights := (tf_flights s)[i := f], tf_events := tf_events s @ ev\<rparr>)"
| Lose: "i < length (tf_flights s) \<Longrightarrow> fl_phase (tf_flights s ! i) = Chosen c permitted \<Longrightarrow>
    traffic_step s (s\<lparr>tf_flights := (tf_flights s)[i := (tf_flights s ! i)\<lparr>fl_phase := Lost c permitted\<rparr>]\<rparr>)"
| Store: "tf_check s = Due i \<Longrightarrow> i < length (endpoints (tf_pool s)) \<Longrightarrow>
    store_flag (tf_sink s) i pr (tf_pool s) = (u, ev) \<Longrightarrow>
    traffic_step s (s\<lparr>tf_pool := u, tf_check := (if probe_ok pr then Closing i else Due (Suc i)),
      tf_events := tf_events s @ ev\<rparr>)"
| Close: "tf_check s = Closing i \<Longrightarrow>
    traffic_step s (s\<lparr>tf_pool := (tf_pool s)\<lparr>breakers := (breakers (tf_pool s))[i := success (breakers (tf_pool s) ! i)]\<rparr>,
      tf_check := Due (Suc i)\<rparr>)"
| Tick: "tf_check s = Due i \<Longrightarrow> length (endpoints (tf_pool s)) \<le> i \<Longrightarrow>
    traffic_step s (s\<lparr>tf_check := Due 0\<rparr>)"

inductive traffic_reachable :: "traffic \<Rightarrow> bool" where
  Begin: "eps \<noteq> [] \<Longrightarrow> length eps < 2 ^ 64 \<Longrightarrow>
    traffic_reachable \<lparr>tf_pool = make_pool cfg eps, tf_flights = [], tf_check = Due 0, tf_sink = sink, tf_events = []\<rparr>"
| Continue: "traffic_reachable s \<Longrightarrow> traffic_step s s' \<Longrightarrow> traffic_reachable s'"

section \<open>What every step keeps\<close>

text \<open>Indices stay in range.\<close>

fun phase_ok :: "nat \<Rightarrow> phase \<Rightarrow> bool" where
  "phase_ok n (Scanning i) = (i \<le> n)"
| "phase_ok n (Looking i c) = (i < n \<and> c < n)"
| "phase_ok n (Asking i c) = (i < n \<and> c < n)"
| "phase_ok n (Chosen c permitted) = (c < n)"
| "phase_ok n (Trying c k) = (c < n)"
| "phase_ok n (Judged c k a) = (c < n)"
| "phase_ok n (Ended r) = True"
| "phase_ok n (Lost c permitted) = (c < n)"

text \<open>Requests that may have taken the probe of a breaker and have not reported its outcome.\<close>

fun holds :: "nat \<Rightarrow> phase \<Rightarrow> bool" where
  "holds c (Chosen c' permitted) = (c' = c \<and> permitted)"
| "holds c (Trying c' k) = (c' = c)"
| "holds c (Lost c' permitted) = (c' = c \<and> permitted)"
| "holds c p = False"

definition probes_held :: "traffic \<Rightarrow> bool" where
  "probes_held s \<longleftrightarrow>
     (\<forall>c < length (endpoints (tf_pool s)). halfOpen (breakers (tf_pool s) ! c) \<longrightarrow>
        (\<exists>i < length (tf_flights s). holds c (fl_phase (tf_flights s ! i))))"

text \<open>The steps that a request has left, whatever the others do: \<open>b\<close> is the number of its retries.\<close>

fun phase_left :: "nat \<Rightarrow> nat \<Rightarrow> phase \<Rightarrow> nat" where
  "phase_left n b (Scanning i) = 3 * (n - i) + 2 * b + 4"
| "phase_left n b (Looking i c) = 3 * (n - i) + 2 * b + 3"
| "phase_left n b (Asking i c) = 3 * (n - i) + 2 * b + 2"
| "phase_left n b (Chosen c permitted) = 2 * b + 3"
| "phase_left n b (Trying c k) = 2 * (b - k) + 2"
| "phase_left n b (Judged c k a) = 2 * (b - k) + 1"
| "phase_left n b p = 0"

definition flight_budget :: "upstreamPool \<Rightarrow> flight \<Rightarrow> nat" where
  "flight_budget u f = budget (safe_method (fl_method f)) (retryAttempts u)"

definition flight_ok :: "upstreamPool \<Rightarrow> flight \<Rightarrow> bool" where
  "flight_ok u f \<longleftrightarrow> phase_ok (length (endpoints u)) (fl_phase f) \<and>
     fl_moves f + phase_left (length (endpoints u)) (flight_budget u f) (fl_phase f)
       \<le> 3 * length (endpoints u) + 2 * flight_budget u f + 4"

definition traffic_inv :: "traffic \<Rightarrow> bool" where
  "traffic_inv s \<longleftrightarrow> pool_inv (tf_pool s) \<and> list_all (flight_ok (tf_pool s)) (tf_flights s) \<and> probes_held s"

text \<open>A step of a request, seen from the pool: what it leaves of the pool, and the breaker it moves.\<close>

lemma halfOpen_simps [simp]:
  "\<not> halfOpen (success b)" "halfOpen (snd (allow now b)) \<Longrightarrow> \<not> halfOpen b \<Longrightarrow> fst (allow now b)"
  by (auto simp: success_def allow_def split: if_splits)

lemma failure_closes_probe: "breaker_inv b \<Longrightarrow> \<not> halfOpen (failure now b)"
  by (auto simp: breaker_inv_def failure_def Let_def)

lemma flight_step_fields:
  assumes "flight_step sink now a f u = (f', u', ev)"
  shows "endpoints u' = endpoints u \<and> retryAttempts u' = retryAttempts u \<and> healthy u' = healthy u \<and>
    fl_method f' = fl_method f \<and> fl_body f' = fl_body f \<and> fl_moves f' = Suc (fl_moves f)"
  using assms
  by (auto simp: flight_step_def pick_step_def trip_step_def Let_def
      split: phase.splits prod.splits if_splits body.splits)

lemma flight_step_pool:
  assumes "flight_step sink now a f u = (f', u', ev)" and "pool_inv u" and "0 < now"
  shows "pool_inv u'"
proof -
  have "breaker_inv (breakers u ! c)" if "c < length (breakers u)" for c
    using assms(2) that by (simp add: pool_inv_def list_all_length)
  then have b: "breaker_inv (snd (allow now (breakers u ! c)))" "breaker_inv (success (breakers u ! c))"
    "breaker_inv (failure now (breakers u ! c))" if "c < length (breakers u)" for c
    using that assms(3) by (simp_all add: breaker_inv_allow breaker_inv_success breaker_inv_failure)
  have upd: "pool_inv (u\<lparr>breakers := (breakers u)[c := x]\<rparr>)" if "c < length (breakers u) \<Longrightarrow> breaker_inv x" for c x
  proof (cases "c < length (breakers u)")
    case True
    with that assms(2) show ?thesis by (intro pool_inv_breaker)
  next
    case False
    then have "(breakers u)[c := x] = breakers u" by (intro list_update_beyond) simp
    with assms(2) show ?thesis by simp
  qed
  show ?thesis
    using assms(1,2) b
    by (auto simp: flight_step_def pick_step_def trip_step_def Let_def
        split: phase.splits prod.splits if_splits body.splits intro!: upd) (metis snd_conv)+
qed

lemma flight_step_ok:
  assumes "flight_step sink now a f u = (f', u', ev)" and "pool_inv u" and "flight_ok u f" and "\<not> over (fl_phase f)"
  shows "flight_ok u' f'"
proof -
  define n where "n = length (endpoints u)"
  have n: "0 < n" "n < 2 ^ 64" using assms(2) by (simp_all add: pool_inv_def n_def)
  have cand: "unat (k mod of_nat n) < n" for k :: u64
    using n by (simp add: unat_mod_distrib unat_of_nat)
  have same: "endpoints u' = endpoints u" "flight_budget u' f' = flight_budget u f"
    using flight_step_fields [OF assms(1)] by (simp_all add: flight_budget_def)
  have left: "phase_left n (flight_budget u f) (fl_phase f') < phase_left n (flight_budget u f) (fl_phase f) \<and>
      phase_ok n (fl_phase f')"
    using assms(1,3,4) n cand
    by (auto simp: flight_step_def pick_step_def trip_step_def Let_def flight_ok_def n_def [symmetric] flight_budget_def
        budget_def split: phase.splits prod.splits if_splits body.splits)
  moreover have "fl_moves f' = Suc (fl_moves f)" using flight_step_fields [OF assms(1)] by simp
  ultimately show ?thesis using assms(3) by (simp add: flight_ok_def same n_def)
qed

lemma flight_step_probes:
  assumes "flight_step sink now a f u = (f', u', ev)" and "pool_inv u" and "phase_ok (length (endpoints u)) (fl_phase f)"
    and "c < length (endpoints u)" and "halfOpen (breakers u' ! c)"
  shows "holds c (fl_phase f') \<or> halfOpen (breakers u ! c) \<and> \<not> holds c (fl_phase f)"
proof -
  have inv: "breaker_inv (breakers u ! c)" if "c < length (endpoints u)" for c
    using assms(2) that by (rule pool_inv_nth)
  have len: "length (breakers u) = length (endpoints u)" using assms(2) by (simp add: pool_inv_def)
  show ?thesis
    using assms(1,3-5) failure_closes_probe [OF inv] len
    by (cases "fl_phase f")
      (auto simp: flight_step_def pick_step_def trip_step_def Let_def nth_list_update_if allow_def
        split: prod.splits if_splits body.splits)
qed

text \<open>The two steps of a probe that has come back are \<open>check_endpoint\<close> when nothing comes between them.\<close>

lemma store_then_close:
  assumes "store_flag sink i pr u = (u', ev)"
  shows "check_endpoint sink i pr u =
    (if probe_ok pr then u'\<lparr>breakers := (breakers u')[i := success (breakers u' ! i)]\<rparr> else u', ev)"
  using assms by (auto simp: store_flag_def check_endpoint_eq)

lemma store_flag_fields:
  "store_flag sink i pr u = (u', ev) \<Longrightarrow> endpoints u' = endpoints u \<and> breakers u' = breakers u \<and>
     retryAttempts u' = retryAttempts u \<and> (pool_inv u \<longrightarrow> pool_inv u')"
  by (auto simp: store_flag_def intro: pool_inv_healthy)

lemma flight_ok_cong:
  "endpoints u' = endpoints u \<Longrightarrow> retryAttempts u' = retryAttempts u \<Longrightarrow> flight_ok u' = flight_ok u"
  by (simp add: flight_ok_def flight_budget_def fun_eq_iff)

lemma flight_ok_new: "flight_ok u (new_flight meth bdy)"
  by (simp add: flight_ok_def new_flight_def flight_budget_def)

text \<open>A step of one request, and a request that is lost: the probes stay held.\<close>

lemma move_keeps_probes:
  assumes "flight_step sink now a (fs ! i) u = (f, u', ev)" and "i < length fs" and "pool_inv u" and "flight_ok u (fs ! i)"
    and "c < length (endpoints u)" and "halfOpen (breakers u' ! c)"
    and held: "halfOpen (breakers u ! c) \<Longrightarrow> \<exists>j < length fs. holds c (fl_phase (fs ! j))"
  shows "\<exists>j < length fs. holds c (fl_phase (fs[i := f] ! j))"
proof -
  have "phase_ok (length (endpoints u)) (fl_phase (fs ! i))" using assms(4) by (simp add: flight_ok_def)
  from flight_step_probes [OF assms(1,3) this assms(5,6)] consider "holds c (fl_phase f)"
    | "halfOpen (breakers u ! c)" "\<not> holds c (fl_phase (fs ! i))" by blast
  then show ?thesis
  proof cases
    case 1
    with assms(2) show ?thesis by (intro exI [of _ i]) simp
  next
    case 2
    with held obtain j where "j < length fs" "holds c (fl_phase (fs ! j))" by blast
    with 2(2) show ?thesis by (intro exI [of _ j]) (auto simp: nth_list_update_if)
  qed
qed

lemma lose_keeps_probes:
  assumes "fl_phase (fs ! i) = Chosen c permitted" and "j < length fs" and "holds d (fl_phase (fs ! j))"
  shows "\<exists>j < length fs. holds d (fl_phase (fs[i := (fs ! i)\<lparr>fl_phase := Lost c permitted\<rparr>] ! j))"
  using assms by (intro exI [of _ j]) (cases "j = i"; auto)

lemma pool_inv_close: "pool_inv u \<Longrightarrow> pool_inv (u\<lparr>breakers := (breakers u)[i := success (breakers u ! i)]\<rparr>)"
  by (cases "i < length (breakers u)")
    (auto simp: list_update_beyond pool_inv_def list_all_length nth_list_update_if breaker_inv_success)

lemma traffic_inv_step: "traffic_step s s' \<Longrightarrow> traffic_inv s \<Longrightarrow> traffic_inv s'"
proof (induction rule: traffic_step.induct)
  case (Arrive s meth bdy)
  then show ?case
    by (force simp: traffic_inv_def flight_ok_new probes_held_def nth_append)
next
  case (Move i s now a f u ev)
  note fields = flight_step_fields [OF Move.hyps(4)]
  have f: "pool_inv (tf_pool s)" "flight_ok (tf_pool s) (tf_flights s ! i)" "list_all (flight_ok (tf_pool s)) (tf_flights s)"
    using Move.prems Move.hyps(1) by (simp_all add: traffic_inv_def list_all_length)
  have "list_all (flight_ok u) ((tf_flights s)[i := f])"
    using f(3) fields flight_step_ok [OF Move.hyps(4) f(1,2) Move.hyps(2)]
    by (simp add: flight_ok_cong [of u "tf_pool s"] list_all_update)
  moreover have "pool_inv u" using flight_step_pool [OF Move.hyps(4) f(1) Move.hyps(3)] .
  moreover have "\<exists>j < length (tf_flights s). holds c (fl_phase ((tf_flights s)[i := f] ! j))"
    if "c < length (endpoints (tf_pool s))" "halfOpen (breakers u ! c)" for c
    using Move.prems that(1) by (intro move_keeps_probes [OF Move.hyps(4,1) f(1,2) that]) (simp add: traffic_inv_def probes_held_def)
  ultimately show ?case using fields by (simp add: traffic_inv_def probes_held_def)
next
  case (Lose i s c permitted)
  let ?f = "(tf_flights s ! i)\<lparr>fl_phase := Lost c permitted\<rparr>"
  have "flight_ok (tf_pool s) ?f"
    using Lose by (simp add: traffic_inv_def list_all_length flight_ok_def flight_budget_def) (metis add_leD1 phase_ok.simps(4))
  moreover have "probes_held (s\<lparr>tf_flights := (tf_flights s)[i := ?f]\<rparr>)"
    using Lose.prems lose_keeps_probes [OF Lose.hyps(2)] unfolding traffic_inv_def probes_held_def by simp blast
  ultimately show ?case
    using Lose.prems by (simp add: traffic_inv_def list_all_update)
next
  case (Store s i pr u ev)
  note fields = store_flag_fields [OF Store.hyps(3)]
  with Store.prems show ?case
    by (simp add: traffic_inv_def flight_ok_cong [of u "tf_pool s"] probes_held_def)
next
  case (Close s i)
  let ?u = "(tf_pool s)\<lparr>breakers := (breakers (tf_pool s))[i := success (breakers (tf_pool s) ! i)]\<rparr>"
  from Close.prems pool_inv_close [of "tf_pool s" i] show ?case
    by (auto simp: traffic_inv_def flight_ok_cong [of ?u "tf_pool s"] probes_held_def nth_list_update_if pool_inv_def)
next
  case (Tick s i)
  then show ?case by (simp add: traffic_inv_def probes_held_def)
qed

lemma make_pool_inv: "eps \<noteq> [] \<Longrightarrow> length eps < 2 ^ 64 \<Longrightarrow> pool_inv (make_pool cfg eps)"
  by (auto simp: pool_inv_def make_pool_def list_all_iff second_def intro!: breaker_inv_new default_pos)

lemma traffic_reachable_inv: "traffic_reachable s \<Longrightarrow> traffic_inv s"
proof (induction rule: traffic_reachable.induct)
  case (Begin eps cfg sink)
  have "\<not> halfOpen (breakers (make_pool cfg eps) ! c)" if "c < length (endpoints (make_pool cfg eps))" for c
    using that by (simp add: make_pool_def new_breaker_def)
  with make_pool_inv [OF Begin] show ?case by (simp add: traffic_inv_def probes_held_def)
next
  case (Continue s s')
  then show ?case by (blast intro: traffic_inv_step)
qed

section \<open>A request that runs alone\<close>

text \<open>
  A run of one request without a step of the others in between. The configuration is the request, the pool
  and the events so far.
\<close>

inductive solo :: "bool \<Rightarrow> flight \<Rightarrow> upstreamPool \<Rightarrow> gateway_event list \<Rightarrow> flight \<Rightarrow> upstreamPool \<Rightarrow> gateway_event list \<Rightarrow> bool"
  for sink where
  Rest: "solo sink f u ev f u ev"
| Go: "\<not> over (fl_phase f) \<Longrightarrow> 0 < now \<Longrightarrow> flight_step sink now a f u = (f1, u1, ev1) \<Longrightarrow>
    solo sink f1 u1 (ev @ ev1) f2 u2 ev2 \<Longrightarrow> solo sink f u ev f2 u2 ev2"

lemma solo_trans: "solo sink f u ev f1 u1 ev1 \<Longrightarrow> solo sink f1 u1 ev1 f2 u2 ev2 \<Longrightarrow> solo sink f u ev f2 u2 ev2"
  by (induction rule: solo.induct) (auto intro: Go)

lemma solo_traffic:
  assumes "solo sink f u ev f' u' ev'" and "i < length (tf_flights s)"
    and "tf_flights s ! i = f" "tf_pool s = u" "tf_events s = ev" "tf_sink s = sink"
  shows "traffic_step\<^sup>*\<^sup>* s (s\<lparr>tf_pool := u', tf_flights := (tf_flights s)[i := f'], tf_events := ev'\<rparr>)"
  using assms
proof (induction arbitrary: s rule: solo.induct)
  case (Rest f u ev)
  then have "s\<lparr>tf_pool := u, tf_flights := (tf_flights s)[i := f], tf_events := ev\<rparr> = s" by auto
  then show ?case by simp
next
  case (Go f now a u f1 u1 ev1 ev f2 u2 ev2)
  let ?s = "s\<lparr>tf_pool := u1, tf_flights := (tf_flights s)[i := f1], tf_events := ev @ ev1\<rparr>"
  have "traffic_step s ?s" using Move [of i s now a f1 u1 ev1] Go by simp
  moreover have "traffic_step\<^sup>*\<^sup>* ?s (?s\<lparr>tf_pool := u2, tf_flights := (tf_flights ?s)[i := f2], tf_events := ev2\<rparr>)"
    by (rule Go.IH) (simp_all add: Go.prems)
  ultimately show ?case by (simp add: converse_rtranclp_into_rtranclp)
qed

text \<open>The selection, in any number of steps of its own.\<close>

definition arrives :: "bool \<Rightarrow> flight \<Rightarrow> upstreamPool \<Rightarrow> gateway_event list \<Rightarrow> phase \<Rightarrow> nat \<Rightarrow> upstreamPool \<Rightarrow> gateway_event list \<Rightarrow> bool" where
  "arrives sink f u ev p retried u' ev' \<longleftrightarrow>
     (\<exists>m. solo sink f u ev (f\<lparr>fl_phase := p, fl_retries := fl_retries f + retried, fl_moves := m\<rparr>) u' ev')"

lemma arrives_refl: "arrives sink f u ev (fl_phase f) 0 u ev"
proof -
  have "f\<lparr>fl_phase := fl_phase f, fl_retries := fl_retries f + 0, fl_moves := fl_moves f\<rparr> = f" by simp
  with Rest [of sink f u ev] show ?thesis unfolding arrives_def by metis
qed

lemma arrives_here: "fl_phase f = p \<Longrightarrow> arrives sink f u ev p 0 u ev"
  using arrives_refl by blast

lemma arrives_step:
  assumes "\<not> over (fl_phase f)" and "0 < now"
    and "flight_step sink now a f u = (f\<lparr>fl_phase := p1, fl_retries := fl_retries f + r1, fl_moves := Suc (fl_moves f)\<rparr>, u1, ev1)"
    and "arrives sink (f\<lparr>fl_phase := p1, fl_retries := fl_retries f + r1, fl_moves := Suc (fl_moves f)\<rparr>) u1 (ev @ ev1) p r2 u' ev'"
  shows "arrives sink f u ev p (r1 + r2) u' ev'"
proof -
  from assms(4) obtain m where
    "solo sink (f\<lparr>fl_phase := p1, fl_retries := fl_retries f + r1, fl_moves := Suc (fl_moves f)\<rparr>) u1 (ev @ ev1)
       (f\<lparr>fl_phase := p, fl_retries := fl_retries f + (r1 + r2), fl_moves := m\<rparr>) u' ev'"
    by (auto simp: arrives_def add.assoc)
  from Go [OF assms(1-3) this] show ?thesis unfolding arrives_def by blast
qed

lemma arrives_trans:
  assumes "arrives sink f u ev p1 r1 u1 ev1"
    and "\<And>m. arrives sink (f\<lparr>fl_phase := p1, fl_retries := fl_retries f + r1, fl_moves := m\<rparr>) u1 ev1 p r2 u' ev'"
  shows "arrives sink f u ev p (r1 + r2) u' ev'"
proof -
  from assms(1) obtain m where "solo sink f u ev (f\<lparr>fl_phase := p1, fl_retries := fl_retries f + r1, fl_moves := m\<rparr>) u1 ev1"
    by (auto simp: arrives_def)
  moreover from assms(2) [of m] obtain m' where
    "solo sink (f\<lparr>fl_phase := p1, fl_retries := fl_retries f + r1, fl_moves := m\<rparr>) u1 ev1
       (f\<lparr>fl_phase := p, fl_retries := fl_retries f + (r1 + r2), fl_moves := m'\<rparr>) u' ev'"
    by (auto simp: arrives_def add.assoc)
  ultimately show ?thesis unfolding arrives_def by (blast intro: solo_trans)
qed

lemma arrives_quiet:
  assumes "\<not> over (fl_phase f)" and "0 < now"
    and "flight_step sink now a f u = (f\<lparr>fl_phase := p1, fl_moves := Suc (fl_moves f)\<rparr>, u1, [])"
    and "arrives sink (f\<lparr>fl_phase := p1, fl_moves := Suc (fl_moves f)\<rparr>) u1 ev p r u' ev'"
  shows "arrives sink f u ev p r u' ev'"
proof -
  from assms(4) obtain m where "solo sink (f\<lparr>fl_phase := p1, fl_moves := Suc (fl_moves f)\<rparr>) u1 (ev @ [])
      (f\<lparr>fl_phase := p, fl_retries := fl_retries f + r, fl_moves := m\<rparr>) u' ev'"
    by (auto simp: arrives_def)
  from Go [OF assms(1-3) this] show ?thesis unfolding arrives_def by blast
qed

lemma arrives_last:
  assumes "\<not> over (fl_phase f)" and "0 < now"
    and "flight_step sink now a f u = (f\<lparr>fl_phase := p, fl_moves := Suc (fl_moves f)\<rparr>, u1, [])"
  shows "arrives sink f u ev p 0 u1 ev"
  using assms arrives_refl [of sink "f\<lparr>fl_phase := p, fl_moves := Suc (fl_moves f)\<rparr>" u1 ev]
  by (intro arrives_quiet [OF assms]) simp

lemma pick_step_arrives:
  assumes "fl_phase f = Scanning i \<or> fl_phase f = Looking i c \<or> fl_phase f = Asking i c" and "0 < now"
    and "pick_step now (fl_phase f) u = (q, u1)"
    and "arrives sink (f\<lparr>fl_phase := q, fl_moves := Suc (fl_moves f)\<rparr>) u1 ev p r u' ev'"
  shows "arrives sink f u ev p r u' ev'"
proof -
  have "flight_step sink now undefined f u = (f\<lparr>fl_phase := q, fl_moves := Suc (fl_moves f)\<rparr>, u1, [])"
    using assms(1,3) by (auto simp: flight_step_def)
  then show ?thesis using assms(1,2,4) by (intro arrives_quiet [of f now sink undefined u q u1]) auto
qed

lemma pick_from_arrives:
  assumes "pick_from clock u i = ((c, permitted), u')" and "fl_phase f = Scanning i" and "\<And>j. 0 < clock j"
  shows "arrives sink f u ev (Chosen c permitted) 0 u' ev"
  using assms
proof (induction clock u i arbitrary: c permitted u' f rule: pick_from.induct)
  case (1 clock u i)
  note scan = pick_step_arrives [of f i _ "clock i"] and now = "1.prems"(3) [of i]
  show ?case
  proof (cases "i < length (endpoints u)")
    case False
    with "1.prems" show ?thesis
      by (intro scan) (auto simp: pick_from.simps pick_step_def intro: arrives_here)
  next
    case True
    define k where "k = next_ctr u + 1"
    define cand where "cand = unat ((k + of_nat i) mod of_nat (length (endpoints u)))"
    define u1 where "u1 = u\<lparr>next_ctr := k\<rparr>"
    define f1 where "f1 = f\<lparr>fl_phase := Looking i cand, fl_moves := Suc (fl_moves f)\<rparr>"
    define f2 where "f2 = f1\<lparr>fl_phase := Asking i cand, fl_moves := Suc (fl_moves f1)\<rparr>"
    obtain ok b where ab: "allow (clock i) (breakers u ! cand) = (ok, b)" by fastforce
    note pick = "1.prems"(1) [unfolded pick_from.simps [of _ u i]]
    have look: "arrives sink f u ev p r v ev'" if "arrives sink f1 u1 ev p r v ev'" for p r v ev'
      using that True "1.prems"(2) now unfolding f1_def
      by (intro scan) (simp_all add: pick_step_def u1_def k_def cand_def Let_def)
    have ask: "arrives sink f1 u1 ev p r v ev'" if "healthy u ! cand" "arrives sink f2 u1 ev p r v ev'" for p r v ev'
      using that now unfolding f2_def
      by (intro pick_step_arrives [of f1 i cand "clock i"]) (simp_all add: pick_step_def u1_def f1_def)
    consider (skip) "\<not> healthy u ! cand" | (refused) "healthy u ! cand" "\<not> ok" | (taken) "healthy u ! cand" ok by blast
    then show ?thesis
    proof cases
      case skip
      have "pick_from clock u1 (Suc i) = ((c, permitted), u')"
        using pick True skip by (simp add: u1_def k_def cand_def Let_def)
      from "1.IH"(2) [OF True k_def u1_def cand_def skip this _ "1.prems"(3)] skip now show ?thesis
        by (intro look pick_step_arrives [of f1 i cand "clock i"]) (auto simp: pick_step_def u1_def f1_def)
    next
      case refused
      have ab': "allow (clock i) (breakers u ! cand) = (False, b)" using ab refused(2) by simp
      have "pick_from clock (u1\<lparr>breakers := (breakers u)[cand := b]\<rparr>) (Suc i) = ((c, permitted), u')"
        using pick True refused ab' by (simp add: u1_def k_def cand_def Let_def)
      from "1.IH"(1) [OF True k_def u1_def cand_def refused(1) ab' [symmetric] refl this _ "1.prems"(3)] ab' now show ?thesis
        by (intro look ask [OF refused(1)] pick_step_arrives [of f2 i cand "clock i"])
          (auto simp: pick_step_def u1_def f2_def)
    next
      case taken
      have "c = cand \<and> permitted \<and> u' = u1\<lparr>breakers := (breakers u)[cand := b]\<rparr>"
        using pick True taken ab by (auto simp: u1_def k_def cand_def Let_def)
      with ab taken(2) now show ?thesis
        by (intro look ask [OF taken(1)] pick_step_arrives [of f2 i cand "clock i"])
          (auto simp: pick_step_def u1_def f2_def intro: arrives_here)
    qed
  qed
qed

text \<open>The attempts of a round trip. The breaker of endpoint \<open>c\<close> is the one that the loop carries along.\<close>

lemma attempt_fails:
  assumes "fl_phase f = Trying c n" and "\<not> attempt_ok a" and "0 < now" and "c < length (breakers u)"
    and u1: "u1 = u\<lparr>breakers := (breakers u)[c := failure now (breakers u ! c)]\<rparr>"
    and step: "trip_step (fl_method f) (fl_body f) 1 a (Judged c n a) u1 = (q, u1)"
    and d: "d = (if sink \<and> isOpen (failure now (breakers u ! c)) then 1 else 0)"
    and x: "x = (if retryAttempts u \<le> int n \<or> \<not> safe_method (fl_method f) then 0 else 1)"
    and rest: "\<And>m. arrives sink (f\<lparr>fl_phase := q, fl_retries := fl_retries f + x, fl_moves := m\<rparr>) u1
      (ev @ replicate d CircuitTransition) p y u' ev'"
  shows "arrives sink f u ev p (x + y) u' ev'"
proof -
  let ?f = "f\<lparr>fl_phase := Judged c n a, fl_moves := Suc (fl_moves f)\<rparr>"
  have "flight_step sink 1 a ?f u1 = (?f\<lparr>fl_phase := q, fl_retries := fl_retries ?f + x, fl_moves := Suc (fl_moves ?f)\<rparr>,
      u1, replicate d CircuitTransition)"
    using step assms(4) by (simp add: flight_step_def d x u1)
  then have "arrives sink ?f u1 ev p (x + y) u' ev'"
    using rest [of "Suc (fl_moves ?f)"] by (intro arrives_step [where f = ?f and now = 1 and a = a]) simp_all
  then show ?thesis
    using assms(1-3) by (intro arrives_quiet [where f = f and now = now and a = a]) (simp_all add: flight_step_def trip_step_def u1)
qed

lemma attempt_ends:
  assumes "fl_phase f = Trying c n" and "\<not> attempt_ok a" and "0 < now" and "c < length (breakers u)"
    and u1: "u1 = u\<lparr>breakers := (breakers u)[c := failure now (breakers u ! c)]\<rparr>"
    and "trip_step (fl_method f) (fl_body f) 1 a (Judged c n a) u1 = (q, u1)"
    and "d = (if sink \<and> isOpen (failure now (breakers u ! c)) then 1 else 0)"
    and "x = (if retryAttempts u \<le> int n \<or> \<not> safe_method (fl_method f) then 0 else 1)"
  shows "arrives sink f u ev q x u1 (ev @ replicate d CircuitTransition)"
proof -
  have "arrives sink (f\<lparr>fl_phase := q, fl_retries := fl_retries f + x, fl_moves := m\<rparr>) u1 (ev @ replicate d CircuitTransition)
      q 0 u1 (ev @ replicate d CircuitTransition)" for m
    by (rule arrives_here) simp
  from attempt_fails [OF assms this] show ?thesis by simp
qed

lemma retry_loop_arrives:
  assumes "retry_loop sink safe attempts bdy base clock n t = (r, t')" and "\<And>j. 0 < clock j"
    and "safe_method (fl_method f) = safe" "retryAttempts u = attempts" "fl_body f = bdy" "fl_phase f = Trying c n"
      "breakers u ! c = trip_breaker t" "c < length (breakers u)"
  shows "\<exists>d x. trip_transitions t' = trip_transitions t + d \<and> trip_retries t' = trip_retries t + x \<and>
    arrives sink f u ev (Ended r) x (u\<lparr>breakers := (breakers u)[c := trip_breaker t']\<rparr>) (ev @ replicate d CircuitTransition)"
  using assms(1,3-)
proof (induction arbitrary: f u ev rule: retry_loop_induct)
  case (success n t)
  then have "arrives sink f u ev (Ended (attempt_response (base n), None)) 0
      (u\<lparr>breakers := (breakers u)[c := success (trip_breaker t)]\<rparr>) ev"
    by (intro arrives_last [where now = 1 and a = "base n"]) (simp_all add: flight_step_def trip_step_def)
  then show ?case by simp
next
  case (last n t)
  have "arrives sink f u ev (Ended (attempt_response (base n), attempt_error (base n))) 0
      (u\<lparr>breakers := (breakers u)[c := failure (clock n) (trip_breaker t)]\<rparr>)
      (ev @ replicate (if sink \<and> isOpen (failure (clock n) (trip_breaker t)) then 1 else 0) CircuitTransition)"
    using last assms(2) [of n] by (intro attempt_ends [of _ c n "base n" "clock n"]) (simp_all add: trip_step_def)
  then show ?case by (auto simp: note_failure_def Let_def)
next
  case (body n t)
  have "arrives sink f u ev (Ended (None, resend_error bdy (base n))) 1
      (u\<lparr>breakers := (breakers u)[c := failure (clock n) (trip_breaker t)]\<rparr>)
      (ev @ replicate (if sink \<and> isOpen (failure (clock n) (trip_breaker t)) then 1 else 0) CircuitTransition)"
    using body assms(2) [of n] by (intro attempt_ends [of _ c n "base n" "clock n"])
      (auto simp: trip_step_def can_resend_def resend_error_def split: body.splits)
  then show ?case by (auto simp: note_failure_def note_retry_def Let_def)
next
  case (again n t r t')
  let ?d = "if sink \<and> isOpen (failure (clock n) (trip_breaker t)) then 1 else 0 :: nat"
  let ?t = "note_retry (attempt_response (base n) \<noteq> None) (note_failure sink (clock n) (called t))"
  let ?u = "u\<lparr>breakers := (breakers u)[c := failure (clock n) (trip_breaker t)]\<rparr>"
  have t: "trip_transitions ?t = trip_transitions t + ?d" "trip_retries ?t = trip_retries t + 1"
    "trip_breaker ?t = failure (clock n) (trip_breaker t)"
    by (simp_all add: note_failure_def note_retry_def Let_def)
  have step: "\<exists>d x. trip_transitions t' = trip_transitions ?t + d \<and> trip_retries t' = trip_retries ?t + x \<and>
      arrives sink (f\<lparr>fl_phase := Trying c (Suc n), fl_retries := fl_retries f + 1, fl_moves := m\<rparr>) ?u
        (ev @ replicate ?d CircuitTransition) (Ended r) x (?u\<lparr>breakers := (breakers ?u)[c := trip_breaker t']\<rparr>)
        ((ev @ replicate ?d CircuitTransition) @ replicate d CircuitTransition)" for m
    by (rule again.IH) (simp_all add: again.prems t)
  define d x where dx: "d = trip_transitions t' - trip_transitions ?t" "x = trip_retries t' - trip_retries ?t"
  have "arrives sink (f\<lparr>fl_phase := Trying c (Suc n), fl_retries := fl_retries f + 1, fl_moves := m\<rparr>) ?u
      (ev @ replicate ?d CircuitTransition) (Ended r) x (?u\<lparr>breakers := (breakers ?u)[c := trip_breaker t']\<rparr>)
      ((ev @ replicate ?d CircuitTransition) @ replicate d CircuitTransition)" for m
    using step [of m] unfolding dx by (metis add_diff_cancel_left')
  moreover have "trip_step (fl_method f) (fl_body f) 1 (base n) (Judged c n (base n)) ?u = (Trying c (Suc n), ?u)"
    using again.prems again.hyps by (auto simp: trip_step_def can_resend_def split: body.splits)
  ultimately have "arrives sink f u ev (Ended r) (1 + x) (?u\<lparr>breakers := (breakers ?u)[c := trip_breaker t']\<rparr>)
      ((ev @ replicate ?d CircuitTransition) @ replicate d CircuitTransition)"
    using again.prems again.hyps assms(2) [of n]
    by (intro attempt_fails [where a = "base n" and now = "clock n" and c = c and n = n and q = "Trying c (Suc n)"
          and d = ?d and ?u1.0 = ?u]) simp_all
  moreover have "trip_transitions t' = trip_transitions t + (?d + d)" "trip_retries t' = trip_retries t + (1 + x)"
    using step [of 0] t dx by auto
  ultimately show ?case by (intro exI [of _ "?d + d"] exI [of _ "1 + x"]) (simp add: replicate_add)
qed

lemma RoundTrip_arrives:
  assumes "RoundTrip sink (retryAttempts u) (breakers u) (Some (int c)) (Some permitted) (fl_method f) (fl_body f) base now clock =
      (r, bs, trip)"
    and "fl_phase f = Chosen c permitted" and "c < length (breakers u)" and "0 < now" and "\<And>j. 0 < clock j"
  shows "arrives sink f u ev (Ended r) (case trip of None \<Rightarrow> 0 | Some t \<Rightarrow> trip_retries t) (u\<lparr>breakers := bs\<rparr>)
    (ev @ replicate (case trip of None \<Rightarrow> 0 | Some t \<Rightarrow> trip_transitions t) CircuitTransition)"
proof -
  obtain ok b where ok: "(if permitted then (True, breakers u ! c) else allow now (breakers u ! c)) = (ok, b)" by fastforce
  let ?u = "u\<lparr>breakers := (breakers u)[c := b]\<rparr>"
  have u: "?u = u" if permitted using that ok by auto
  show ?thesis
  proof (cases ok)
    case False
    with ok assms(1,3) have "r = (None, Some CircuitOpen)" "bs = (breakers u)[c := b]" "trip = None"
      by (auto simp: RoundTrip_def)
    with False ok assms(2,4) show ?thesis
      by (auto intro!: arrives_last [where now = now and a = undefined] simp: flight_step_def trip_step_def split: if_splits)
  next
    case True
    let ?t = "\<lparr>trip_breaker = b, trip_transitions = 0, trip_retries = 0, trip_closed = 0, trip_calls = 0\<rparr>"
    let ?f = "f\<lparr>fl_phase := Trying c 0, fl_moves := Suc (fl_moves f)\<rparr>"
    obtain t' where run: "retry_loop sink (safe_method (fl_method f)) (retryAttempts u) (fl_body f) base clock 0 ?t = (r, t')"
      and t': "bs = (breakers u)[c := trip_breaker t']" "trip = Some t'"
      using assms(1,3) ok True by (auto simp: RoundTrip_def split: prod.splits if_splits)
    from retry_loop_arrives [OF run assms(5), of ?f ?u c ev] assms(3) obtain d x where
      "trip_transitions t' = d" "trip_retries t' = x"
      "arrives sink ?f ?u ev (Ended r) x (?u\<lparr>breakers := (breakers ?u)[c := trip_breaker t']\<rparr>) (ev @ replicate d CircuitTransition)"
      by auto
    then have "arrives sink ?f ?u ev (Ended r) (trip_retries t') (u\<lparr>breakers := bs\<rparr>)
        (ev @ replicate (trip_transitions t') CircuitTransition)"
      by (simp add: t'(1))
    then have "arrives sink f u ev (Ended r) (trip_retries t') (u\<lparr>breakers := bs\<rparr>)
        (ev @ replicate (trip_transitions t') CircuitTransition)"
      using True ok assms(2,4) u
      by (intro arrives_quiet [where f = f and now = now and a = undefined]) (auto simp: flight_step_def trip_step_def split: if_splits)
    then show ?thesis by (simp add: t'(2))
  qed
qed

section \<open>Runs by schedule\<close>

text \<open>The requests' steps in a given order: which request moves, at what time, and what the upstream answers.\<close>

fun drive :: "(nat \<times> time \<times> attempt) list \<Rightarrow> traffic \<Rightarrow> traffic option" where
  "drive [] s = Some s"
| "drive ((i, now, a) # ms) s =
     (if i < length (tf_flights s) \<and> \<not> over (fl_phase (tf_flights s ! i)) \<and> 0 < now then
        (case flight_step (tf_sink s) now a (tf_flights s ! i) (tf_pool s) of
           (f, u, ev) \<Rightarrow>
             drive ms (s\<lparr>tf_pool := u, tf_flights := (tf_flights s)[i := f], tf_events := tf_events s @ ev\<rparr>))
      else None)"

lemma drive_reachable: "drive ms s = Some s' \<Longrightarrow> traffic_reachable s \<Longrightarrow> traffic_reachable s'"
proof (induction ms s rule: drive.induct)
  case (2 i now a ms s)
  obtain f u ev where step: "flight_step (tf_sink s) now a (tf_flights s ! i) (tf_pool s) = (f, u, ev)" by (metis prod_cases3)
  with "2.prems"(1) have ok: "i < length (tf_flights s) \<and> \<not> over (fl_phase (tf_flights s ! i)) \<and> 0 < now"
    by (auto split: if_splits)
  with step have "traffic_reachable (s\<lparr>tf_pool := u, tf_flights := (tf_flights s)[i := f], tf_events := tf_events s @ ev\<rparr>)"
    using "2.prems"(2) by (blast intro: Continue Move)
  with "2.IH" [OF ok step [symmetric] refl] "2.prems"(1) step ok show ?case by auto
qed simp

lemma arrive_reachable:
  "traffic_reachable s \<Longrightarrow> traffic_reachable (s\<lparr>tf_flights := tf_flights s @ [new_flight meth bdy]\<rparr>)"
  by (rule Continue [OF _ Arrive])

definition sample_upstream :: "int \<Rightarrow> UpstreamConfig" where
  "sample_upstream th =
     \<lparr>up_Name = ''api'', URLs = None, HealthPath = ''/healthz'', DialTimeout = 0, RequestTimeout = 0, HealthInterval = 0,
      RetryAttempts = 0, CircuitBreakerThreshold = th, CircuitBreakerCooldown = 10\<rparr>"

definition sample_traffic :: "int \<Rightarrow> nat \<Rightarrow> nat \<Rightarrow> traffic" where
  "sample_traffic th n k =
     \<lparr>tf_pool = make_pool (sample_upstream th) (replicate n sample_url),
      tf_flights = replicate k (new_flight ''GET'' NoBody), tf_check = Due 0, tf_sink = False, tf_events = []\<rparr>"

lemma sample_traffic_reachable:
  assumes "0 < n" and "n < 2 ^ 64"
  shows "traffic_reachable (sample_traffic th n k)"
proof (induction k)
  case 0
  show ?case using Begin [of "replicate n sample_url" "sample_upstream th" False] assms by (simp add: sample_traffic_def)
next
  case (Suc k)
  from arrive_reachable [OF this, of "''GET''" NoBody] show ?case
    by (simp add: sample_traffic_def replicate_append_same)
qed

abbreviation "fails \<equiv> \<lparr>attempt_response = None, attempt_failed = True\<rparr>"

text \<open>The first request opens the circuit at time 1, the second takes the probe at time 11.\<close>

definition probing_traffic :: "traffic option" where
  "probing_traffic = drive (replicate 6 (0, 1, fails) @ replicate 3 (1, 11, fails)) (sample_traffic 1 1 2)"

lemma probing_state:
  "map_option (\<lambda>s. (halfOpen (breakers (tf_pool s) ! 0), length (endpoints (tf_pool s)), map fl_phase (tf_flights s))) probing_traffic =
     Some (True, 1, [Ended (None, Some BaseError), Chosen 0 True])"
  by code_simp

text \<open>
  Two selections side by side in a pool of three: the endpoint 1 alone is healthy (its probe was
  answered) and its circuit is closed. The first request has moved the counter by one. The other two
  then take turns, so each of them advances the other's counter and looks at one endpoint three
  times: neither sees the endpoint 1, and both are left with the endpoint 0, which is not healthy.
\<close>

definition three_requests :: "upstreamPool \<Rightarrow> check \<Rightarrow> traffic" where
  "three_requests u c =
     \<lparr>tf_pool = u, tf_flights = replicate 3 (new_flight ''GET'' NoBody), tf_check = c, tf_sink = False, tf_events = []\<rparr>"

definition probed_pool :: upstreamPool where
  "probed_pool = (make_pool (sample_upstream 5) (replicate 3 sample_url))\<lparr>healthy := [False, True, False]\<rparr>"

lemma probed_reachable: "traffic_reachable (three_requests probed_pool (Due 3))"
proof -
  let ?u = "\<lambda>hs. (make_pool (sample_upstream 5) (replicate 3 sample_url))\<lparr>healthy := hs\<rparr>"
  have n: "length (endpoints (?u hs)) = 3" for hs by (simp add: make_pool_def)
  have u: "make_pool (sample_upstream 5) (replicate 3 sample_url) = ?u [True, True, True]"
    "(?u hs)\<lparr>breakers := (breakers (?u hs))[1 := success (breakers (?u hs) ! 1)]\<rparr> = ?u hs" for hs
    by (simp_all add: make_pool_def numeral_3_eq_3 success_def new_breaker_def)
  have store: "traffic_reachable (three_requests (?u (hs[i := probe_ok pr])) (if probe_ok pr then Closing i else Due (Suc i)))"
    if "traffic_reachable (three_requests (?u hs) (Due i))" "i < 3" for hs i pr
    using Continue [OF that(1) Store [of _ i pr "?u (hs[i := probe_ok pr])" "[]"]] that(2) n
    by (simp add: three_requests_def store_flag_def)
  have "traffic_reachable (three_requests (?u [True, True, True]) (Due 0))"
    using sample_traffic_reachable [of 3 5 3] by (simp add: sample_traffic_def three_requests_def u(1) [symmetric])
  from store [OF this, of RequestFailed] have "traffic_reachable (three_requests (?u [False, True, True]) (Due 1))"
    by (simp add: probe_ok_def)
  from store [OF this, of "Answered 200"] have "traffic_reachable (three_requests (?u [False, True, True]) (Closing 1))"
    by (simp add: probe_ok_def)
  from Continue [OF this Close [of _ 1]] have "traffic_reachable (three_requests (?u [False, True, True]) (Due 2))"
    using u(2) [of "[False, True, True]"] by (simp add: three_requests_def numeral_2_eq_2)
  from store [OF this, of RequestFailed] show ?thesis
    by (simp add: probe_ok_def probed_pool_def numeral_3_eq_3 numeral_2_eq_2)
qed

definition turns :: "nat list" where
  "turns = 0 # concat (replicate 3 [1, 2, 1, 2]) @ [1, 2]"

lemma contending_selections_miss:
  "\<exists>s. traffic_reachable s \<and> healthy (tf_pool s) = [False, True, False] \<and>
     fst (allow 1 (breakers (tf_pool s) ! 1)) \<and>
     map fl_phase (tf_flights s) = [Looking 0 1, Chosen 0 False, Chosen 0 False]"
proof -
  have "map_option (\<lambda>s. (healthy (tf_pool s), fst (allow 1 (breakers (tf_pool s) ! 1)), map fl_phase (tf_flights s)))
      (drive (map (\<lambda>i. (i, 1, fails)) turns) (three_requests probed_pool (Due 3))) =
    Some ([False, True, False], True, [Looking 0 1, Chosen 0 False, Chosen 0 False])"
    by code_simp
  then obtain s where "drive (map (\<lambda>i. (i, 1, fails)) turns) (three_requests probed_pool (Due 3)) = Some s"
    "healthy (tf_pool s) = [False, True, False]" "fst (allow 1 (breakers (tf_pool s) ! 1))"
    "map fl_phase (tf_flights s) = [Looking 0 1, Chosen 0 False, Chosen 0 False]" by auto
  with drive_reachable [OF this(1) probed_reachable] show ?thesis by (intro exI [of _ s]) simp
qed

section \<open>Properties\<close>

text \<open>
  Claim C11: however requests, their attempts and the health checks of a pool interleave, a circuit that
  waits for its probe has one: some request holds it, in an attempt or on the way to it, or was
  answered without a round trip after it had been chosen. (In the last case, and only then, no report can
  be due that closes or reopens the circuit.)
\<close>

theorem half_open_has_probe:
  assumes "traffic_reachable s" and "c < length (endpoints (tf_pool s))" and "halfOpen (breakers (tf_pool s) ! c)"
  shows "\<exists>f \<in> set (tf_flights s). holds c (fl_phase f)"
proof -
  from traffic_reachable_inv [OF assms(1)] have "probes_held s" by (simp add: traffic_inv_def)
  with assms(2,3) show ?thesis unfolding probes_held_def by (metis nth_mem)
qed

theorem half_open_has_probe_witness:
  "\<exists>s. probing_traffic = Some s \<and> (\<exists>f \<in> set (tf_flights s). holds 0 (fl_phase f))"
proof -
  from probing_state obtain s where s: "probing_traffic = Some s" "halfOpen (breakers (tf_pool s) ! 0)"
    "length (endpoints (tf_pool s)) = 1" by auto
  then have "traffic_reachable s"
    using drive_reachable [OF _ sample_traffic_reachable [of 1 1 2]] by (simp add: probing_traffic_def)
  from half_open_has_probe [OF this, of 0] s(2,3) have "\<exists>f \<in> set (tf_flights s). holds 0 (fl_phase f)" by simp
  with s(1) show ?thesis by blast
qed

text \<open>
  Claim C24: a request ends after a bounded number of its own steps, whatever the other requests and the
  health checks do in between: at most three for each endpoint, two for each attempt and two more. Until
  then it is never blocked.
\<close>

theorem request_steps_bounded:
  assumes "traffic_reachable s" and "i < length (tf_flights s)" and "f = tf_flights s ! i"
  shows "fl_moves f \<le> 3 * length (endpoints (tf_pool s)) + 2 * (1 + budget (safe_method (fl_method f)) (retryAttempts (tf_pool s))) + 2 \<and>
    (over (fl_phase f) \<or> (\<exists>s'. traffic_step s s' \<and> fl_moves (tf_flights s' ! i) = fl_moves f + 1))"
proof -
  from traffic_reachable_inv [OF assms(1)] have "flight_ok (tf_pool s) f"
    using assms(2,3) by (simp add: traffic_inv_def list_all_length)
  moreover have "\<exists>s'. traffic_step s s' \<and> fl_moves (tf_flights s' ! i) = fl_moves f + 1" if "\<not> over (fl_phase f)"
  proof -
    obtain f' u ev where step: "flight_step (tf_sink s) 1 fails f (tf_pool s) = (f', u, ev)" by (metis prod_cases3)
    from Move [OF assms(2) _ _ step [unfolded assms(3)]] that assms(2,3) flight_step_fields [OF step]
    show ?thesis by (intro exI conjI) (assumption | simp)+
  qed
  ultimately show ?thesis by (auto simp: flight_ok_def flight_budget_def)
qed

theorem request_steps_bounded_witness:
  "fl_moves (tf_flights (sample_traffic 5 3 3) ! 1) \<le> 13"
proof -
  have "length (tf_flights (sample_traffic 5 3 3)) = 3" "length (endpoints (tf_pool (sample_traffic 5 3 3))) = 3"
    "retryAttempts (tf_pool (sample_traffic 5 3 3)) = 0"
    by (simp_all add: sample_traffic_def make_pool_def sample_upstream_def)
  with request_steps_bounded [of "sample_traffic 5 3 3" 1] sample_traffic_reachable [of 3 5 3] show ?thesis
    by (auto simp: budget_def split: if_splits)
qed

text \<open>A run of one request within the traffic, and one that is lost once it has been chosen.\<close>

lemma arrives_traffic:
  assumes "arrives (tf_sink s) (tf_flights s ! i) (tf_pool s) (tf_events s) p r u ev" and "i < length (tf_flights s)"
  shows "\<exists>f. fl_phase f = p \<and> fl_retries f = fl_retries (tf_flights s ! i) + r \<and>
    traffic_step\<^sup>*\<^sup>* s (s\<lparr>tf_pool := u, tf_flights := (tf_flights s)[i := f], tf_events := ev\<rparr>)"
proof -
  from assms(1) obtain m where "solo (tf_sink s) (tf_flights s ! i) (tf_pool s) (tf_events s)
      ((tf_flights s ! i)\<lparr>fl_phase := p, fl_retries := fl_retries (tf_flights s ! i) + r, fl_moves := m\<rparr>) u ev"
    by (auto simp: arrives_def)
  from solo_traffic [OF this assms(2) refl refl refl refl] show ?thesis
    by (intro exI [of _ "(tf_flights s ! i)\<lparr>fl_phase := p, fl_retries := fl_retries (tf_flights s ! i) + r, fl_moves := m\<rparr>"]) simp
qed

lemma lost_traffic:
  assumes "arrives (tf_sink s) (tf_flights s ! i) (tf_pool s) (tf_events s) (Chosen c permitted) r u ev"
    and "i < length (tf_flights s)"
  shows "\<exists>f. fl_phase f = Lost c permitted \<and> fl_retries f = fl_retries (tf_flights s ! i) + r \<and>
    traffic_step\<^sup>*\<^sup>* s (s\<lparr>tf_pool := u, tf_flights := (tf_flights s)[i := f], tf_events := ev\<rparr>)"
proof -
  from arrives_traffic [OF assms] obtain f where f: "fl_phase f = Chosen c permitted"
    "fl_retries f = fl_retries (tf_flights s ! i) + r"
    and run: "traffic_step\<^sup>*\<^sup>* s (s\<lparr>tf_pool := u, tf_flights := (tf_flights s)[i := f], tf_events := ev\<rparr>)" by blast
  let ?s = "s\<lparr>tf_pool := u, tf_flights := (tf_flights s)[i := f], tf_events := ev\<rparr>"
  have "traffic_step ?s (?s\<lparr>tf_flights := (tf_flights ?s)[i := (tf_flights ?s ! i)\<lparr>fl_phase := Lost c permitted\<rparr>]\<rparr>)"
    by (rule Lose) (use assms(2) f(1) in simp_all)
  also have "?s\<lparr>tf_flights := (tf_flights ?s)[i := (tf_flights ?s ! i)\<lparr>fl_phase := Lost c permitted\<rparr>]\<rparr> =
      s\<lparr>tf_pool := u, tf_flights := (tf_flights s)[i := f\<lparr>fl_phase := Lost c permitted\<rparr>], tf_events := ev\<rparr>"
    using assms(2) by (cases s) simp
  finally show ?thesis using run f(2) by (intro exI [of _ "f\<lparr>fl_phase := Lost c permitted\<rparr>"]) (auto intro: rtranclp.rtrancl_into_rtrancl)
qed

text \<open>
  Claim C10: the data plane's proxy, which \<open>DataPlane\<close> has as one step, is one of the interleavings: from any
  reachable state the atomic steps lead to the pool, the events and the retries that \<^verbatim>\<open>newProxy\<close>'s handler
  ends with, the request being over and the others as they were.
\<close>

theorem proxy_is_a_run:
  assumes "traffic_reachable s" and "i < length (tf_flights s)" and f: "f = tf_flights s ! i" "fl_phase f = Scanning 0"
    and fits: "fl_method f = Method req" "fl_body f = outgoing_body env req"
    and clocks: "\<And>j. 0 < se_pick_clock env j" "0 < se_guard env" "\<And>j. 0 < se_clock env j"
    and served: "proxy env (tf_sink s) pools (tf_pool s) req w = sv"
  shows "\<exists>f' u. over (fl_phase f') \<and> fl_retries f \<le> fl_retries f' \<and>
    sv_request sv = (AddRetry ^^ (fl_retries f' - fl_retries f)) req \<and>
    sv_pools sv = pools(pool_name (tf_pool s) \<mapsto> u) \<and>
    traffic_step\<^sup>*\<^sup>* s (s\<lparr>tf_pool := u, tf_flights := (tf_flights s)[i := f'], tf_events := tf_events s @ sv_events sv\<rparr>)"
proof -
  have inv: "pool_inv (tf_pool s)" using traffic_reachable_inv [OF assms(1)] by (simp add: traffic_inv_def)
  then obtain target c permitted u1 where pick: "pick (se_pick_clock env) (tf_pool s) = Some ((target, c, permitted), u1)"
    and from0: "pick_from (se_pick_clock env) (tf_pool s) 0 = ((c, permitted), u1)"
    by (cases "pick_from (se_pick_clock env) (tf_pool s) 0") (auto simp: pick_def pool_inv_def split: if_splits)
  have c: "c < length (breakers u1)" using pick_inv [OF inv pick] pick_index [OF inv pick] by (simp add: pool_inv_def)
  have chosen: "arrives (tf_sink s) f (tf_pool s) (tf_events s) (Chosen c permitted) 0 u1 (tf_events s)"
    using f(2) clocks(1) by (rule pick_from_arrives [OF from0])
  show ?thesis
  proof (cases "printable_ascii (upgradeType (Header (direct target req)))")
    case True
    let ?out = "(direct target req)\<lparr>Header := outgoing_header (Header req) (RemoteAddr req) (Header req)\<rparr>"
    obtain r bs trip where trip: "RoundTrip (tf_sink s) (retryAttempts u1) (breakers u1) (Some (int c)) (Some permitted)
        (fl_method f) (fl_body f) (se_base env ?out) (se_guard env) (se_clock env) = (r, bs, trip)"
      by (metis prod_cases3)
    let ?x = "case trip of None \<Rightarrow> 0 | Some t \<Rightarrow> trip_retries t"
    have out: "outgoing_body env ?out = outgoing_body env req" by (simp add: outgoing_body_def direct_def Let_def)
    have sv: "sv_pools sv = pools(pool_name (tf_pool s) \<mapsto> u1\<lparr>breakers := bs\<rparr>)" "sv_request sv = (AddRetry ^^ ?x) req"
      "sv_events sv = replicate (case trip of None \<Rightarrow> 0 | Some t \<Rightarrow> trip_transitions t) CircuitTransition"
      using served True trip unfolding fits by (auto simp: proxy_def pick Let_def out split: option.splits)
    have "arrives (tf_sink s) f (tf_pool s) (tf_events s) (Ended r) (0 + ?x) (u1\<lparr>breakers := bs\<rparr>) (tf_events s @ sv_events sv)"
      unfolding sv(3) using trip c clocks(2,3)
      by (intro arrives_trans [OF chosen] RoundTrip_arrives [where c = c and permitted = permitted and
            base = "se_base env ?out" and now = "se_guard env" and clock = "se_clock env"]) simp_all
    from arrives_traffic [OF this [unfolded f(1)] assms(2)] obtain f' where
      "fl_phase f' = Ended r" "fl_retries f' = fl_retries f + ?x" "traffic_step\<^sup>*\<^sup>* s
        (s\<lparr>tf_pool := u1\<lparr>breakers := bs\<rparr>, tf_flights := (tf_flights s)[i := f'], tf_events := tf_events s @ sv_events sv\<rparr>)"
      unfolding f(1) by auto
    with sv(1,2) show ?thesis by (intro exI [of _ f'] exI [of _ "u1\<lparr>breakers := bs\<rparr>"]) simp
  next
    case False
    then have "sv_pools sv = pools(pool_name (tf_pool s) \<mapsto> u1)" "sv_request sv = req" "sv_events sv = []"
      using served by (auto simp: proxy_def pick Let_def)
    moreover from lost_traffic [OF chosen [unfolded f(1)] assms(2)] obtain f' where
      "fl_phase f' = Lost c permitted" "fl_retries f' = fl_retries f" "traffic_step\<^sup>*\<^sup>* s
        (s\<lparr>tf_pool := u1, tf_flights := (tf_flights s)[i := f'], tf_events := tf_events s\<rparr>)"
      unfolding f(1) by auto
    ultimately show ?thesis by (intro exI [of _ f'] exI [of _ u1]) simp
  qed
qed

theorem proxy_is_a_run_witness:
  "\<exists>f' u. over (fl_phase f') \<and>
     sv_pools (proxy sample_env False Map.empty (tf_pool (sample_traffic 5 1 1)) sample_request new_response) =
       Map.empty(''api'' \<mapsto> u) \<and>
     traffic_step\<^sup>*\<^sup>* (sample_traffic 5 1 1) ((sample_traffic 5 1 1)\<lparr>tf_pool := u, tf_flights := [f'], tf_events := []\<rparr>)"
proof -
  let ?s = "sample_traffic 5 1 1" and ?sv = "proxy sample_env False Map.empty (tf_pool (sample_traffic 5 1 1)) sample_request new_response"
  have s: "traffic_reachable ?s" "length (tf_flights ?s) = 1" "tf_flights ?s = [new_flight ''GET'' NoBody]" "\<not> tf_sink ?s"
    "pool_name (tf_pool ?s) = ''api''" "tf_events ?s = []"
    using sample_traffic_reachable [of 1 5 1] by (simp_all add: sample_traffic_def make_pool_def sample_upstream_def)
  have req: "Method sample_request = ''GET''" "outgoing_body sample_env sample_request = NoBody"
    by (simp_all add: sample_request_def outgoing_body_def sample_env_def)
  have "sv_events ?sv = []" by code_simp
  with proxy_is_a_run [OF s(1), of 0 "tf_flights ?s ! 0" sample_request sample_env Map.empty new_response ?sv] s req
  show ?thesis by (auto simp: new_flight_def sample_env_def)
qed

end
