(* ===== verification/Documents.thy ===== *)
theory Documents imports ControlPlane begin

text \<open>
  The static documents of \<^verbatim>\<open>internal/controlplane/assets.go\<close>, as the handlers \<^verbatim>\<open>openapi\<close> and \<^verbatim>\<open>docs\<close> serve
  them: the OpenAPI document with the operations that it lists, and the documentation page.
\<close>

section \<open>The texts\<close>

definition openAPIDocument :: string where
  "openAPIDocument = join [newline]
     [''{'',
      ''  \"openapi\": \"3.0.3\",'',
      ''  \"info\": {\"title\": \"Go Serve Control Plane API\", \"version\": \"1.0.0\"},'',
      ''  \"paths\": {'',
      ''    \"/health\": {\"get\": {\"operationId\": \"health\"}},'',
      ''    \"/ready\": {\"get\": {\"operationId\": \"readiness\"}},'',
      ''    \"/api/v1/config\": {\"get\": {\"operationId\": \"getConfig\"}, \"put\": {\"operationId\": \"replaceConfig\"}},'',
      ''    \"/api/v1/config/validate\": {\"post\": {\"operationId\": \"validateConfig\"}},'',
      ''    \"/api/v1/config/rollback\": {\"post\": {\"operationId\": \"rollbackConfig\"}},'',
      ''    \"/api/v1/config/status\": {\"get\": {\"operationId\": \"getConfigStatus\"}},'',
      ''    \"/api/v1/servers\": {\"get\": {\"operationId\": \"listServers\"}},'',
      ''    \"/api/v1/routes\": {\"get\": {\"operationId\": \"listRoutes\"}}'',
      ''    ,\"/api/v1/cluster/status\": {\"get\": {\"operationId\": \"getClusterStatus\"}}'',
      ''    ,\"/api/v1/cluster/members\": {\"get\": {\"operationId\": \"listClusterMembers\"}, \"post\": {\"operationId\": \"addClusterMember\"}}'',
      ''    ,\"/api/v1/cluster/members/{id}\": {\"delete\": {\"operationId\": \"removeClusterMember\"}}'',
      ''    ,\"/api/v1/cluster/sync\": {\"get\": {\"operationId\": \"getClusterSync\"}}'',
      ''    ,\"/api/v1/cluster/leadership/transfer\": {\"post\": {\"operationId\": \"transferClusterLeadership\"}}'',
      ''  }'',
      ''}'']"

text \<open>The line of the page that has its script.\<close>

definition docs_script :: string where
  "docs_script = ''<script>fetch('/api/openapi.json').then(function(r){return r.json()}).then(function(spec){document.getElementById('spec').textContent=JSON.stringify(spec,null,2)}).catch(function(){document.getElementById('spec').textContent='Unable to load API specification'})</script></body>''"

definition swaggerUIHTML :: string where
  "swaggerUIHTML = join [newline]
     [''<!doctype html>'',
      ''<html lang=\"en\">'',
      ''<head><meta charset=\"utf-8\"><meta name=\"viewport\" content=\"width=device-width, initial-scale=1\"><title>Go Serve API</title>'',
      ''<style>body{font-family:system-ui,sans-serif;max-width:64rem;margin:3rem auto;padding:0 1rem;color:#18212b}code,pre{background:#eef2f5;padding:.15rem .3rem}pre{padding:1rem;overflow:auto}</style></head>'',
      ''<body><h1>Go Serve Control Plane</h1><p>OpenAPI document: <a href=\"/api/openapi.json\"><code>/api/openapi.json</code></a></p><pre id=\"spec\">Loading API specification...</pre>'',
      docs_script,
      ''</html>'']"

text \<open>The library of the control plane with the embedded texts.\<close>

definition with_assets :: "cp_lib \<Rightarrow> cp_lib" where
  "with_assets lib = lib\<lparr>lib_openapi := openAPIDocument, lib_docs := swaggerUIHTML\<rparr>"

section \<open>The documented API\<close>

text \<open>
  The operations of the embedded OpenAPI document (method, path, operation), in its order, and the
  operation that each handler implements.
\<close>

definition openapi_operations :: "(string \<times> string \<times> string) list" where
  "openapi_operations =
     [(''GET'', ''/health'', ''health''),
      (''GET'', ''/ready'', ''readiness''),
      (''GET'', ''/api/v1/config'', ''getConfig''),
      (''PUT'', ''/api/v1/config'', ''replaceConfig''),
      (''POST'', ''/api/v1/config/validate'', ''validateConfig''),
      (''POST'', ''/api/v1/config/rollback'', ''rollbackConfig''),
      (''GET'', ''/api/v1/config/status'', ''getConfigStatus''),
      (''GET'', ''/api/v1/servers'', ''listServers''),
      (''GET'', ''/api/v1/routes'', ''listRoutes''),
      (''GET'', ''/api/v1/cluster/status'', ''getClusterStatus''),
      (''GET'', ''/api/v1/cluster/members'', ''listClusterMembers''),
      (''POST'', ''/api/v1/cluster/members'', ''addClusterMember''),
      (''DELETE'', ''/api/v1/cluster/members/{id}'', ''removeClusterMember''),
      (''GET'', ''/api/v1/cluster/sync'', ''getClusterSync''),
      (''POST'', ''/api/v1/cluster/leadership/transfer'', ''transferClusterLeadership'')]"

fun operation_of :: "endpoint \<Rightarrow> string" where
  "operation_of Health = ''health''"
| "operation_of Ready = ''readiness''"
| "operation_of GetConfig = ''getConfig''"
| "operation_of ReplaceConfig = ''replaceConfig''"
| "operation_of ValidateConfig = ''validateConfig''"
| "operation_of RollbackConfig = ''rollbackConfig''"
| "operation_of ConfigStatus = ''getConfigStatus''"
| "operation_of Servers = ''listServers''"
| "operation_of ListRoutes = ''listRoutes''"
| "operation_of ClusterStatus = ''getClusterStatus''"
| "operation_of ClusterMembers = ''listClusterMembers''"
| "operation_of AddMember = ''addClusterMember''"
| "operation_of RemoveMember = ''removeClusterMember''"
| "operation_of ClusterSync = ''getClusterSync''"
| "operation_of Transfer = ''transferClusterLeadership''"
| "operation_of OpenAPI = []"
| "operation_of Docs = []"
| "operation_of (Pprof name) = []"

definition served_by :: "request \<Rightarrow> string \<Rightarrow> bool" where
  "served_by req oid \<longleftrightarrow>
     (case mux_find control_patterns req of Found ep ms \<Rightarrow> operation_of ep = oid | answer \<Rightarrow> False)"

text \<open>
  The strings in quotation marks of a text, and the operations among those of the document: a path is
  remembered until the next one, and a method is followed by its key \<^verbatim>\<open>operationId\<close> and the operation.
\<close>

fun quoted :: "string option \<Rightarrow> string \<Rightarrow> string list" where
  "quoted None [] = []"
| "quoted (Some s) [] = []"
| "quoted None (c # cs) = (if c = CHR 0x22 then quoted (Some []) cs else quoted None cs)"
| "quoted (Some s) (c # cs) = (if c = CHR 0x22 then s # quoted None cs else quoted (Some (s @ [c])) cs)"

fun listed :: "string \<Rightarrow> string list \<Rightarrow> (string \<times> string \<times> string) list" where
  "listed path (t # key # oid # ts) =
     (if has_prefix t ''/'' then listed t (key # oid # ts)
      else if key = ''operationId'' then (to_upper t, path, oid) # listed path ts
      else listed path (key # oid # ts))"
| "listed path ts = []"

lemma document_lists: "listed [] (quoted None openAPIDocument) = openapi_operations"
  by code_simp

text \<open>
  Every operation of the embedded OpenAPI document is served by the handler that implements
  it (a path template is taken as it is written, as one member's path).
\<close>

lemma documented_operations_served:
  "list_all (\<lambda>(meth, path, oid). served_by (operation_request meth path) oid) openapi_operations"
  by code_simp

text \<open>Conversely every pattern of the API is documented, in the order of the registrations.\<close>

lemma served_operations_documented:
  "[(pat_method p, operation_of (pat_handler p)). p \<leftarrow> control_patterns, operation_of (pat_handler p) \<noteq> []] =
     map (\<lambda>(meth, path, oid). (meth, oid)) openapi_operations"
  by code_simp

text \<open>Hence the document that a client reads lists what it can ask for.\<close>

lemma openapi_document_sound:
  "(meth, path, oid) \<in> set (listed [] (quoted None (lib_openapi (with_assets lib)))) \<Longrightarrow>
     served_by (operation_request meth path) oid"
  using documented_operations_served by (auto simp: with_assets_def document_lists list_all_iff)

section \<open>The documentation page\<close>

lemma contains_prefix: "has_prefix s p \<Longrightarrow> contains s p"
  by (cases s) simp_all

lemma contains_append: "contains s p \<Longrightarrow> contains (a @ s) p" and contains_append2: "contains s p \<Longrightarrow> contains (s @ b) p"
proof -
  show "contains s p \<Longrightarrow> contains (a @ s) p" by (induction a) simp_all
  show "contains s p \<Longrightarrow> contains (s @ b) p"
  proof (induction s)
    case (Cons c s)
    moreover have "has_prefix ((c # s) @ b) p" if "has_prefix (c # s) p"
      using that by (metis append_assoc has_prefix_iff)
    ultimately show ?case by auto
  qed (auto simp: has_prefix_iff intro: contains_prefix)
qed

lemma contains_join: "contains s p \<Longrightarrow> s \<in> set ls \<Longrightarrow> contains (join sep ls) p"
  by (induction sep ls rule: join.induct) (auto intro: contains_append contains_append2)

text \<open>
  The page is an inline script, and the policy it is served with has only a default source (the host
  itself) for scripts: no browser runs it.
\<close>

lemma docs_page_script_blocked:
  assumes "UI (ControlPlane (cp_current cp))"
  shows "\<exists>policy. header_get (resp_header (docs (with_assets lib) cp new_response)) ''Content-Security-Policy'' = policy \<and>
    contains (resp_body (docs (with_assets lib) cp new_response)) ''<script>'' \<and>
    has_prefix policy ''default-src 'self';'' \<and> \<not> contains policy ''script-src'' \<and> contains policy ''style-src 'unsafe-inline''"
proof -
  have keys: "CanonicalHeaderKey ''Content-Type'' = ''Content-Type''"
    "CanonicalHeaderKey ''Content-Security-Policy'' = ''Content-Security-Policy''" by code_simp+
  have "contains docs_script ''<script>''" by (rule contains_prefix) code_simp
  then have page: "contains swaggerUIHTML ''<script>''"
    unfolding swaggerUIHTML_def by (rule contains_join) simp
  have "resp_body (docs (with_assets lib) cp new_response) = swaggerUIHTML"
    using assms by (simp add: docs_def with_assets_def write_body_def write_header_def new_response_def set_header_def Let_def)
  moreover have "header_get (resp_header (docs (with_assets lib) cp new_response)) ''Content-Security-Policy'' =
      ''default-src 'self'; style-src 'unsafe-inline'' @ [CHR 0x27]"
    using assms keys by (simp add: docs_def with_assets_def write_body_def write_header_def new_response_def set_header_def
        header_set_def header_get_def Let_def)
  moreover have "has_prefix (''default-src 'self'; style-src 'unsafe-inline'' @ [CHR 0x27]) ''default-src 'self';''"
    "\<not> contains (''default-src 'self'; style-src 'unsafe-inline'' @ [CHR 0x27]) ''script-src''"
    "contains (''default-src 'self'; style-src 'unsafe-inline'' @ [CHR 0x27]) ''style-src 'unsafe-inline''"
    by code_simp+
  ultimately show ?thesis using page by simp
qed

end
