(* ===== verification/Spec2Isabelle.thy ===== *)
theory Spec2Isabelle imports Program ConfigStore Contention Documents begin

text \<open>
  go-serve is an HTTP gateway of two listeners. The \<^emph>\<open>data plane\<close> matches a public request to a route,
  authorizes it, picks an upstream endpoint and forwards the request. The \<^emph>\<open>control plane\<close> reads,
  validates, replaces and rolls back the configuration, and manages the cluster. The runtime manager
  stands between them: it compiles a configuration into a runtime of the data plane and swaps it in.
  A Raft cluster may place clients on nodes. This development models the Go code under
  \<^verbatim>\<open>src/internal\<close> and \<^verbatim>\<open>src/cmd/server\<close> as HOL functions, one theory per part, and proves what makes
  the parts correct, alone and together.

  \<^bold>\<open>Parts, theories and sources.\<close>

    \<^item> \<^verbatim>\<open>Prelude\<close>, \<^verbatim>\<open>GoText\<close>, \<^verbatim>\<open>Strconv\<close>, \<^verbatim>\<open>Quote\<close>, \<^verbatim>\<open>Query\<close>, \<^verbatim>\<open>UrlPath\<close>, \<^verbatim>\<open>Redirect\<close>, \<^verbatim>\<open>Http\<close>,
      \<^verbatim>\<open>ServeMux\<close>, \<^verbatim>\<open>ReverseProxy\<close>: what the program uses of Go and its standard library: slices
      (nil is \<open>None\<close>), durations and times in nanoseconds (the zero time is 0), byte strings, decimal
      numbers, the verb \<^verbatim>\<open>%q\<close> on arbitrary bytes, query strings, escaped paths (with \<^verbatim>\<open>joinURLPath\<close>
      and \<^verbatim>\<open>joinProxyPath\<close> of \<^verbatim>\<open>dataplane/server.go\<close>), \<^verbatim>\<open>path.Clean\<close> and \<^verbatim>\<open>http.Redirect\<close>, header maps,
      requests and response writers, the multiplexer of \<^verbatim>\<open>net/http\<close> (its choice of a pattern, its
      redirects and its refusals), and what \<^verbatim>\<open>httputil.ReverseProxy\<close> does to the headers of a request.
    \<^item> \<^verbatim>\<open>Config\<close>: \<^verbatim>\<open>config/config.go\<close>. The records of the configuration, \<^verbatim>\<open>Default\<close>, \<^verbatim>\<open>Clone\<close>,
      snapshots, \<^verbatim>\<open>Validate\<close> in the order of its checks, \<^verbatim>\<open>ParseTOML\<close> and \<^verbatim>\<open>LoadFile\<close>.
    \<^item> \<^verbatim>\<open>ConfigStore\<close>: the same \<^verbatim>\<open>Clone\<close>, \<^verbatim>\<open>NewSnapshot\<close> and \<^verbatim>\<open>Snapshot.Config\<close> over an explicit store, where
      slices and maps are addresses that values may share.
    \<^item> \<^verbatim>\<open>Breaker\<close>, \<^verbatim>\<open>Upstream\<close>, \<^verbatim>\<open>Transport\<close>: in \<^verbatim>\<open>dataplane/server.go\<close> the circuit breaker, the upstream
      pool with \<^verbatim>\<open>pick\<close> and the health checks, and the retrying round trip.
    \<^item> \<^verbatim>\<open>Routing\<close>: \<^verbatim>\<open>match\<close>, \<^verbatim>\<open>pathMatches\<close>, \<^verbatim>\<open>normalizeHost\<close>, the header rules of routes.
    \<^item> \<^verbatim>\<open>Metrics\<close>: \<^verbatim>\<open>observability/metrics.go\<close>. Counters as 64-bit words, request signals, the bounded
      series, the middleware, the page of the endpoint.
    \<^item> \<^verbatim>\<open>Auth\<close>: \<^verbatim>\<open>auth/auth.go\<close>. Sealed sessions, bearer tokens, \<^verbatim>\<open>Authorize\<close>, the login flow
      (\<^verbatim>\<open>login\<close>, \<^verbatim>\<open>callback\<close>, \<^verbatim>\<open>logout\<close>) and the handlers \<^verbatim>\<open>Handler\<close> and \<^verbatim>\<open>Protect\<close>.
    \<^item> \<^verbatim>\<open>DataPlane\<close>: the server of \<^verbatim>\<open>dataplane/server.go\<close>: compilation of a configuration, the
      generations of runtimes (a heap of runtime states and the pointer to the current one, because
      requests in flight hold the generation they entered), the request handler in its steps
      \<open>enter\<close>, \<open>serve\<close>, \<open>leave\<close>, and the proxy.
    \<^item> \<^verbatim>\<open>Contention\<close>: the requests and health checks of one pool in their atomic steps (the counter, a flag,
      a breaker, a call of the upstream), in every interleaving.
    \<^item> \<^verbatim>\<open>Gateway\<close>: the data plane with an authorizer, end to end.
    \<^item> \<^verbatim>\<open>RuntimeManager\<close>: \<^verbatim>\<open>runtime/manager.go\<close>.
    \<^item> \<^verbatim>\<open>ControlPlane\<close>: \<^verbatim>\<open>controlplane/server.go\<close>: every handler, the patterns they are registered
      under, the JSON bodies.
    \<^item> \<^verbatim>\<open>Documents\<close>: \<^verbatim>\<open>controlplane/assets.go\<close>. The texts of the OpenAPI document and of the documentation
      page, and the operations read from the document.
    \<^item> \<^verbatim>\<open>Cluster\<close>: \<^verbatim>\<open>cluster/node.go\<close>: the replicated assignments, placement and forwarding, membership,
      joining, the leadership hook, the start of a node.
    \<^item> \<^verbatim>\<open>Listeners\<close>: the limited listener of \<^verbatim>\<open>dataplane/server.go\<close> and \<^verbatim>\<open>dataplane/tls.go\<close>.
    \<^item> \<^verbatim>\<open>Lifecycle\<close>: \<^verbatim>\<open>cmd/server/main.go\<close>: the start, each step that can fail, and the shutdown.
    \<^item> \<^verbatim>\<open>Program\<close>: \<^verbatim>\<open>cmd/server/main.go\<close>: the handler chains of the two listeners, and the steps of the
      whole program between its start and its shutdown.

  \<^bold>\<open>Interfaces.\<close> \<open>circuit_contract\<close> (\<^verbatim>\<open>Breaker\<close>) states a breaker against an automaton of three states
  and is interpreted on the code's breaker. \<open>authorizer\<close> (\<^verbatim>\<open>Authorizer\<close>) is what the data plane relies on
  when it asks an authorizer; its consequences are proved in \<^verbatim>\<open>Gateway\<close> and it is interpreted on
  \<^verbatim>\<open>Middleware.Authorize\<close>. \<open>activator\<close> (\<^verbatim>\<open>RuntimeManager\<close>) is what the control plane relies on when it
  activates a configuration; its consequences are proved in \<^verbatim>\<open>ControlPlane\<close> and it is interpreted on
  \<^verbatim>\<open>Manager.Activate\<close>, there with the metrics and in \<^verbatim>\<open>Program\<close> on the state of the whole program.
  \<open>array_kind\<close> (\<^verbatim>\<open>ConfigStore\<close>) is a kind of array in the store, with the copying of its slices, and
  \<open>deep_array\<close> a kind whose elements hold references and are cloned one by one; they are interpreted on
  the arrays of strings, peers, routes and upstreams. The
  stages of the shutdown are a linear order (an instance of \<open>linorder\<close>).

  \<^bold>\<open>What is proved.\<close> Validation and loading accept exactly the valid configurations.
  The breaker refines its automaton, opens at its threshold and admits one probe when half open. A clone
  of a configuration shares no memory with the original, so a snapshot stays what it was.
  \<^verbatim>\<open>pick\<close> permits only healthy endpoints whose breaker allows; on pools of odd
  size a selection that runs alone finds one whenever there is one, on pools of even size it visits half
  of the endpoints. The data of every runtime fit together. Health checks set the flags from the
  answers. The round trip calls the upstream within its budget, and the cases in which it returns
  neither a response nor an error are characterised. Routing picks the first of the longest matching
  prefixes, ignoring case, port and a trailing dot of the host. The upstream sees identity headers only
  from verified claims with the route's scopes. Sessions open until they expire, login states are used
  once. A reload succeeds exactly on compilable configurations that keep the restart sections; requests
  in flight never exceed the limit of their generation. An activation is all or nothing, the control
  plane's configuration is the one that the data plane runs, and no update is lost under
  \<^verbatim>\<open>If-Match\<close>. Assignments are the last of the log, and a restored snapshot
  resumes it. Connections stay within the limit while no two calls close the same one at once; the
  certificate cache is transparent. The metrics page has one line for each sample whatever names
  contain. The runtime is closed after both servers have stopped, and once signalled the process ends by
  its own steps, of which there are at most fourteen. The OpenAPI document lists the operations of the
  API that are served. The control plane changes state for five kinds of request only. In the whole
  program, upstreams see identity headers only of identities that the middleware made at start has
  authenticated, requests without an identity change nothing behind the control listener, the
  configuration reported there is the one that runs, and no runtime has more requests in flight than its
  configuration allows. Several theorems state what the code does where it may surprise: they are noted
  beside the definitions.

  \<^bold>\<open>Concurrency.\<close> Operations under one mutex and atomic operations are single steps.
  Where the code interleaves (requests and reloads, control requests, the login flow, shutdown, the
  whole program; the steps of accepts and closes in \<^verbatim>\<open>Listeners\<close> are a list of
  events) an inductive step relation has one rule per step and theorems hold for its reachable states;
  ghost fields record what theorems speak of (requests in flight, accepted changes, consumed login
  states). \<^verbatim>\<open>DataPlane\<close> serves a request in one step between its entry and its
  exit; \<^verbatim>\<open>Contention\<close> takes that step apart, proves that it is one of the
  interleavings, and what holds in all of them: a half-open circuit has a request that holds its probe,
  and a request ends after a bounded number of its own steps. Selections that run side by side can miss
  the only healthy endpoint.

  \<^bold>\<open>Bounds and fuel.\<close> No definition has fuel: \<^verbatim>\<open>pick\<close> and the retry loop are functions with a measure
  (the endpoints left, the attempts left), \<^verbatim>\<open>path.Clean\<close> and \<^verbatim>\<open>FormatInt\<close> recurse on their input, and
  loops that wait (health checks, joining, leadership) run over a list of what they receive.
  The round-robin counter and the metrics' counters are 64-bit words; the breaker's failure counter
  and times are integers. Go's \<^verbatim>\<open>int64\<close> version counter is an integer, and theorems that print and parse
  it assume that it is in range.

  \<^bold>\<open>Parameters.\<close> Not under \<^verbatim>\<open>src/\<close> or out of reach, hence arguments: the TOML and JSON decoders,
  \<^verbatim>\<open>url.Parse\<close>, the file system, clocks and random sources (functions from the number of the read),
  the table of printable characters behind \<^verbatim>\<open>strconv.IsPrint\<close>, the order in which maps are visited,
  AES-GCM, SHA-256, base 64, the identity provider, cookies, the network (what an upstream or a peer
  answers), and Raft (\<open>raft_ops\<close>, a state and its operations). Laws of theirs that a theorem needs are its
  premises, and its witness has a concrete instance.

  \<^bold>\<open>Not modelled.\<close> The text of the log lines; the profiling handlers; protocol upgrades that an upstream accepts; the streaming
  of bodies (bodies are whole strings, an upstream's body is opaque); timeouts of the HTTP
  servers and connection pools. Aliasing is modelled in
  \<^verbatim>\<open>ConfigStore\<close>; elsewhere a configuration is a value, and a clone equals its original up to empty slices.
\<close>

end
